(* ===== verification/Relayix_Prelude.thy ===== *)
theory Relayix_Prelude
  imports Complex_Main "HOL-Library.Word" "HOL-Library.Multiset"
begin

text \<open>
  Shared vocabulary of the development: the named collections of rewrite rules, the type
  synonyms for the Python values the gateway handles, and the pieces of the Python
  language and of its standard library that several components use (string trimming,
  stable sorting with a key, the maximum by a key, float infinities used as sort keys).

  Numbers. Python integers are unbounded and are \<^typ>\<open>int\<close>. Monotonic and
  wall-clock readings and float arithmetic on them are exact rationals
  (\<^typ>\<open>rat\<close>): rounding of IEEE doubles is not modelled. \<open>Decimal\<close> values
  are exact rationals too. A \<open>datetime\<close> is the number of microseconds since the epoch.
\<close>

named_theorems breaker_simps "unfolding rules of the circuit breaker"
named_theorems limiter_simps "unfolding rules of the rate limiters"
named_theorems exn_simps "classification of exceptions"
named_theorems gen_simps "one-step rules of the async generators"

type_synonym uuid = "128 word"
type_synonym seconds = rat
type_synonym decimal = rat
type_synonym datetime = int

subsection \<open>Strings\<close>

text \<open>
  \<open>str.isspace\<close> on the code points up to 255, the characters \<open>str.strip()\<close> removes.
\<close>

definition py_space :: "char \<Rightarrow> bool" where
  "py_space c = (let n = of_char c :: nat in
     (9 \<le> n \<and> n \<le> 13) \<or> (28 \<le> n \<and> n \<le> 32) \<or> n = 133 \<or> n = 160)"

definition py_strip :: "string \<Rightarrow> string" where
  "py_strip s = rev (dropWhile py_space (rev (dropWhile py_space s)))"

fun py_startswith :: "string \<Rightarrow> string \<Rightarrow> bool" where
  "py_startswith s [] = True"
| "py_startswith [] (p # ps) = False"
| "py_startswith (c # s) (p # ps) = (c = p \<and> py_startswith s ps)"

definition py_removeprefix :: "string \<Rightarrow> string \<Rightarrow> string" where
  "py_removeprefix s p = (if py_startswith s p then drop (length p) s else s)"

text \<open>\<open>sep.join(parts)\<close>.\<close>

fun py_join :: "string \<Rightarrow> string list \<Rightarrow> string" where
  "py_join sep [] = []"
| "py_join sep [x] = x"
| "py_join sep (x # y # zs) = x @ sep @ py_join sep (y # zs)"

text \<open>\<open>str(uuid)\<close>: 32 lower-case hexadecimal digits grouped 8-4-4-4-12.\<close>

definition hex_digit :: "nat \<Rightarrow> char" where
  "hex_digit n = ''0123456789abcdef'' ! n"

fun hex_digits :: "nat \<Rightarrow> nat \<Rightarrow> string" where
  "hex_digits 0 n = []"
| "hex_digits (Suc k) n = hex_digits k (n div 16) @ [hex_digit (n mod 16)]"

definition uuid_str :: "uuid \<Rightarrow> string" where
  "uuid_str u = (let h = hex_digits 32 (unat u) in
     take 8 h @ ''-'' @ take 4 (drop 8 h) @ ''-'' @ take 4 (drop 12 h) @ ''-''
       @ take 4 (drop 16 h) @ ''-'' @ drop 20 h)"

subsection \<open>Sorting and maxima with a key\<close>

text \<open>
  \<open>sorted(xs, key=f, reverse=r)\<close> is stable in both directions. CPython gets the reverse
  order by reversing, sorting and reversing again, which keeps equal elements in place.
\<close>

definition py_sorted :: "('a \<Rightarrow> 'k::linorder) \<Rightarrow> bool \<Rightarrow> 'a list \<Rightarrow> 'a list" where
  "py_sorted f r xs = (if r then rev (sort_key f (rev xs)) else sort_key f xs)"

text \<open>\<open>max(xs, key=f)\<close> keeps the first of several maximal elements.\<close>

fun py_max_by :: "('a \<Rightarrow> 'k::linorder) \<Rightarrow> 'a \<Rightarrow> 'a list \<Rightarrow> 'a" where
  "py_max_by f m [] = m"
| "py_max_by f m (x # xs) = (if f m < f x then py_max_by f x xs else py_max_by f m xs)"

subsection \<open>Floats with infinities, as sort keys\<close>

datatype pyfloat = NegInf | Fin rat | PosInf

instantiation pyfloat :: linorder
begin

fun less_eq_pyfloat :: "pyfloat \<Rightarrow> pyfloat \<Rightarrow> bool" where
  "less_eq_pyfloat NegInf y = True"
| "less_eq_pyfloat (Fin a) NegInf = False"
| "less_eq_pyfloat (Fin a) (Fin b) = (a \<le> b)"
| "less_eq_pyfloat (Fin a) PosInf = True"
| "less_eq_pyfloat PosInf y = (y = PosInf)"

definition less_pyfloat :: "pyfloat \<Rightarrow> pyfloat \<Rightarrow> bool" where
  "less_pyfloat x y = (x \<le> y \<and> \<not> y \<le> x)"

instance
proof
  fix x y z :: pyfloat
  show "(x < y) = (x \<le> y \<and> \<not> y \<le> x)" by (rule less_pyfloat_def)
  show "x \<le> x" by (cases x) auto
  show "x \<le> y \<Longrightarrow> y \<le> z \<Longrightarrow> x \<le> z" by (cases x; cases y; cases z) auto
  show "x \<le> y \<Longrightarrow> y \<le> x \<Longrightarrow> x = y" by (cases x; cases y) auto
  show "x \<le> y \<or> y \<le> x" by (cases x; cases y) auto
qed

end

subsection \<open>Lemmas on the helpers\<close>

lemma py_sorted_mset [simp]: "mset (py_sorted f r xs) = mset xs"
  by (simp add: py_sorted_def)

lemma py_sorted_set [simp]: "set (py_sorted f r xs) = set xs"
  by (simp add: py_sorted_def)

lemma py_sorted_length [simp]: "length (py_sorted f r xs) = length xs"
  by (simp add: py_sorted_def)

lemma py_sorted_asc: "sorted (map f (py_sorted f False xs))"
  by (simp add: py_sorted_def)

lemma py_sorted_desc: "sorted (rev (map f (py_sorted f True xs)))"
  by (simp add: py_sorted_def rev_map)

lemma py_sorted_stable:
  "filter (\<lambda>x. f x = k) (py_sorted f r xs) = filter (\<lambda>x. f x = k) xs"
proof -
  have s: "filter (\<lambda>x. f x = k) (sort_key f ys) = filter (\<lambda>x. f x = k) ys" for ys
    by (rule sort_key_stable)
  show ?thesis
    by (simp add: py_sorted_def s flip: rev_filter)
qed

lemma py_max_by_in: "py_max_by f m xs \<in> insert m (set xs)"
  by (induction xs arbitrary: m) auto

lemma py_max_by_ge: "x \<in> insert m (set xs) \<Longrightarrow> f x \<le> f (py_max_by f m xs)"
proof (induction xs arbitrary: m x)
  case (Cons y ys)
  have "f m \<le> f (py_max_by f m ys)" "f y \<le> f (py_max_by f y ys)"
    using Cons.IH by auto
  with Cons.IH [of x] Cons.prems show ?case by (auto intro: order.trans less_imp_le)
qed simp

lemma py_startswith_append [simp]: "py_startswith (p @ s) p"
  by (induction p) auto

lemma py_startswith_iff: "py_startswith s p \<longleftrightarrow> (\<exists>t. s = p @ t)"
proof (induction s p rule: py_startswith.induct)
qed auto

lemma py_removeprefix_append [simp]: "py_removeprefix (p @ s) p = s"
  by (simp add: py_removeprefix_def)

lemma py_strip_nil [simp]: "py_strip [] = []"
  by (simp add: py_strip_def)

lemma py_strip_empty_iff: "py_strip s = [] \<longleftrightarrow> (\<forall>c \<in> set s. py_space c)"
proof -
  have "py_strip s = [] \<longleftrightarrow> (\<forall>c \<in> set (dropWhile py_space s). py_space c)"
    by (simp add: py_strip_def)
  also have "\<dots> \<longleftrightarrow> (\<forall>c \<in> set s. py_space c)"
    by (induction s) auto
  finally show ?thesis .
qed

text \<open>Distinct uuids have distinct renderings, all of the same length.\<close>

lemma hex_digits_length [simp]: "length (hex_digits k n) = k"
  by (induction k arbitrary: n) auto

lemma hex_digit_inject:
  assumes "m < 16" "n < 16" "hex_digit m = hex_digit n"
  shows "m = n"
proof -
  have "distinct ''0123456789abcdef''" by simp
  then show ?thesis
    using assms nth_eq_iff_index_eq [of "''0123456789abcdef''" m n] by (simp add: hex_digit_def)
qed

lemma hex_digits_inject:
  "m < 16 ^ k \<Longrightarrow> n < 16 ^ k \<Longrightarrow> hex_digits k m = hex_digits k n \<Longrightarrow> m = n"
proof (induction k arbitrary: m n)
  case (Suc k)
  then have "m div 16 = n div 16" by (auto simp: less_mult_imp_div_less mult.commute)
  moreover have "m mod 16 = n mod 16" using Suc.prems(3) hex_digit_inject by simp
  ultimately show ?case by (metis mult_div_mod_eq)
qed simp

lemma uuid_str_length [simp]: "length (uuid_str u) = 36"
  by (simp add: uuid_str_def Let_def)

lemma uuid_str_inject [simp]: "uuid_str u = uuid_str v \<longleftrightarrow> u = v"
proof
  assume eq: "uuid_str u = uuid_str v"
  let ?hu = "hex_digits 32 (unat u)" and ?hv = "hex_digits 32 (unat v)"
  have "take 8 ?hu = take 8 ?hv \<and> take 4 (drop 8 ?hu) = take 4 (drop 8 ?hv) \<and>
    take 4 (drop 12 ?hu) = take 4 (drop 12 ?hv) \<and>
    take 4 (drop 16 ?hu) = take 4 (drop 16 ?hv) \<and> drop 20 ?hu = drop 20 ?hv"
    using eq by (simp add: uuid_str_def Let_def)
  moreover have "drop n h = take 4 (drop n h) @ drop (n + 4) h" for n and h :: string
    by (metis append_take_drop_id drop_drop add.commute)
  from this [of 8] this [of 12] this [of 16]
  have "drop 8 h = take 4 (drop 8 h) @ take 4 (drop 12 h) @ take 4 (drop 16 h) @ drop 20 h"
    for h :: string by simp
  ultimately have "drop 8 ?hu = drop 8 ?hv" and "take 8 ?hu = take 8 ?hv" by metis+
  then have "?hu = ?hv" by (metis append_take_drop_id)
  moreover have "unat u < 16 ^ 32" "unat v < 16 ^ 32"
    using unsigned_less [of u] unsigned_less [of v] by simp_all
  ultimately show "u = v" using hex_digits_inject by (metis unsigned_word_eqI)
qed simp

end
