(* ===== verification/Relayix_Domain.thy ===== *)
theory Relayix_Domain
  imports Relayix_Prelude
begin

text \<open>
  The domain model of the gateway (\<open>app/models/domain\<close>) and its exception hierarchy
  (\<open>app/infra/global_exceptions.py\<close>, \<open>app/core/exceptions.py\<close>,
  \<open>app/models/domain/exceptions.py\<close>, \<open>app/services/exceptions.py\<close>).
  Dataclasses are records, enums are datatypes, and the validating constructors return
  either the exception they raise or the value they build.
\<close>

subsection \<open>Enums\<close>

datatype provider_enum = ANTHROPIC | OPENAI

fun provider_value :: "provider_enum \<Rightarrow> string" where
  "provider_value ANTHROPIC = ''anthropic''"
| "provider_value OPENAI = ''openai''"

text \<open>\<open>ProviderEnum(value)\<close>: the lookup by value, which raises \<open>ValueError\<close>.\<close>

definition provider_of_value :: "string \<Rightarrow> provider_enum option" where
  "provider_of_value s =
     (if s = ''anthropic'' then Some ANTHROPIC
      else if s = ''openai'' then Some OPENAI else None)"

datatype failover_policy = AT_MOST_ONCE | AT_LEAST_ONCE

datatype idempotency_status = IN_PROGRESS | COMPLETED | AMBIGUOUS

fun idempotency_value :: "idempotency_status \<Rightarrow> string" where
  "idempotency_value IN_PROGRESS = ''in_progress''"
| "idempotency_value COMPLETED = ''completed''"
| "idempotency_value AMBIGUOUS = ''ambiguous''"

definition VALID_FINISH_REASONS :: "string list" where
  "VALID_FINISH_REASONS = [''stop'', ''length'', ''tool_use'', ''content_filter'', ''error'']"

subsection \<open>Messages, requests, responses\<close>

record message =
  msg_role :: string
  msg_content :: string

record chat_request =
  req_model :: string
  req_messages :: "message list"
  req_max_tokens :: "int option"
  req_failover_policy :: failover_policy

record chat_response =
  resp_provider :: provider_enum
  resp_model :: string
  resp_content :: string
  resp_tokens_in :: int
  resp_tokens_out :: int
  resp_finish_reason :: string
  resp_request_id :: string

datatype chat_stream_event = ChatStreamDelta string | ChatStreamResponse chat_response

subsection \<open>Exceptions\<close>

text \<open>
  The text of an exception is an f-string. It is kept as the list of its pieces, so that
  the Python renderings of floats, datetimes and quoted strings stay symbolic:
  \<open>FloatS x\<close> is \<open>str(x)\<close>, \<open>IsoS t\<close> is \<open>t.isoformat()\<close>,
  \<open>ReprS s\<close> and \<open>ReprP p\<close> are \<open>repr\<close> of a string and of a provider,
  \<open>StrP p\<close> is \<open>str\<close> of a provider.
\<close>

datatype piece =
  Lit string | FloatS rat | IntS int | IsoS datetime | ReprS string
  | ReprP provider_enum | StrP provider_enum

type_synonym fstring = "piece list"

text \<open>Truth value of the rendered text: only an empty literal renders to nothing.\<close>

definition text_truthy :: "fstring \<Rightarrow> bool" where
  "text_truthy t = list_ex (\<lambda>p. case p of Lit s \<Rightarrow> s \<noteq> [] | _ \<Rightarrow> True) t"

datatype exn =
    \<comment> \<open>app/infra/global_exceptions.py\<close>
    ProviderNotAvailable fstring
  | Unauthorized
    \<comment> \<open>app/models/domain/exceptions.py\<close>
  | InvalidModelName | InvalidToken | InvalidTokenPrice | InvalidTokenQuantity
  | InvalidFinishReason | InvalidUsageCost | InvalidApiKeyName | InvalidRateLimit
  | InvalidTokenQuota | ApiKeyNotFound
    \<comment> \<open>app/core/exceptions.py\<close>
  | PricingRateNotFound fstring
  | CounterNotRegistered fstring
  | AdapterNotRegistered fstring
  | UpstreamUnavailable fstring
  | UpstreamAmbiguous fstring
  | UpstreamStreamInterrupted fstring "chat_response option"
  | CircuitOpen fstring
  | RateLimitExceeded pyfloat
  | RateLimiterUnavailable
    \<comment> \<open>app/services/exceptions.py\<close>
  | IdempotencyKeyConflict
  | IdempotencyInProgress
  | IdempotencyOutcomeUnknown "fstring option"
  | IdempotencyStoreUnavailable
    \<comment> \<open>Python and its libraries\<close>
  | ValueError fstring
  | TypeError fstring
  | KeyError fstring
  | TimeoutError
  | RedisError fstring
  | OSError fstring
  | OtherException fstring
  | CancelledError
  | GeneratorExit

type_synonym 'a result = "exn + 'a"

text \<open>
  Class membership, as \<open>except\<close> clauses test it. \<open>CircuitOpen\<close> is a subclass of
  \<open>UpstreamUnavailable\<close>, \<open>UpstreamStreamInterrupted\<close> of \<open>UpstreamAmbiguous\<close>;
  \<open>CancelledError\<close> and \<open>GeneratorExit\<close> are \<open>BaseException\<close>s that are not
  \<open>Exception\<close>s.
\<close>

fun is_UpstreamUnavailable :: "exn \<Rightarrow> bool" where
  "is_UpstreamUnavailable (UpstreamUnavailable m) = True"
| "is_UpstreamUnavailable (CircuitOpen m) = True"
| "is_UpstreamUnavailable _ = False"

fun is_UpstreamAmbiguous :: "exn \<Rightarrow> bool" where
  "is_UpstreamAmbiguous (UpstreamAmbiguous m) = True"
| "is_UpstreamAmbiguous (UpstreamStreamInterrupted m p) = True"
| "is_UpstreamAmbiguous _ = False"

fun is_Exception :: "exn \<Rightarrow> bool" where
  "is_Exception CancelledError = False"
| "is_Exception GeneratorExit = False"
| "is_Exception _ = True"

fun is_redis_failure :: "exn \<Rightarrow> bool" where
  "is_redis_failure (RedisError m) = True"
| "is_redis_failure (OSError m) = True"
| "is_redis_failure TimeoutError = True" \<comment> \<open>\<open>TimeoutError\<close> is an \<open>OSError\<close>\<close>
| "is_redis_failure _ = False"

text \<open>Message, HTTP status and error code of an \<open>AppError\<close>; \<open>None\<close> for any other exception.\<close>

definition outcome_unknown_text :: string where
  "outcome_unknown_text =
     ''A previous request with this Idempotency-Key may already have been executed by the provider, so it will not be retried automatically. Use a new Idempotency-Key to issue a new request.''"

fun infra_error :: "exn \<Rightarrow> (fstring \<times> int \<times> string) option" where
  "infra_error (ProviderNotAvailable m) = Some (m, 503, ''PROVIDER_NOT_AVAILABLE'')"
| "infra_error Unauthorized = Some ([Lit ''Invalid or missing API key''], 401, ''UNAUTHORIZED'')"
| "infra_error _ = None"

fun domain_error :: "exn \<Rightarrow> (fstring \<times> int \<times> string) option" where
  "domain_error InvalidModelName = Some ([Lit ''Invalid model name''], 400, ''INVALID_MODEL_NAME'')"
| "domain_error InvalidToken = Some ([Lit ''Invalid token''], 400, ''INVALID_TOKEN'')"
| "domain_error InvalidTokenPrice = Some ([Lit ''Invalid token price''], 400, ''INVALID_TOKEN_PRICE'')"
| "domain_error InvalidTokenQuantity =
     Some ([Lit ''Invalid token quantity''], 400, ''INVALID_TOKEN_QUANTITY'')"
| "domain_error InvalidFinishReason =
     Some ([Lit ''Invalid finish reason''], 400, ''INVALID_FINISH_REASON'')"
| "domain_error InvalidUsageCost = Some ([Lit ''Invalid usage cost''], 400, ''INVALID_USAGE_COST'')"
| "domain_error InvalidApiKeyName =
     Some ([Lit ''Invalid API key name''], 400, ''INVALID_API_KEY_NAME'')"
| "domain_error InvalidRateLimit = Some ([Lit ''Invalid rate limit''], 400, ''INVALID_RATE_LIMIT'')"
| "domain_error InvalidTokenQuota =
     Some ([Lit ''Invalid token quota''], 400, ''INVALID_TOKEN_QUOTA'')"
| "domain_error ApiKeyNotFound = Some ([Lit ''API key not found''], 404, ''API_KEY_NOT_FOUND'')"
| "domain_error _ = None"

fun core_error :: "exn \<Rightarrow> (fstring \<times> int \<times> string) option" where
  "core_error (PricingRateNotFound m) = Some (m, 422, ''PRICING_RATE_NOT_FOUND'')"
| "core_error (CounterNotRegistered m) = Some (m, 500, ''COUNTER_NOT_REGISTERED'')"
| "core_error (AdapterNotRegistered m) = Some (m, 500, ''ADAPTER_NOT_REGISTERED'')"
| "core_error (UpstreamUnavailable m) = Some (m, 502, ''UPSTREAM_UNAVAILABLE'')"
| "core_error (UpstreamAmbiguous m) = Some (m, 502, ''UPSTREAM_AMBIGUOUS'')"
| "core_error (UpstreamStreamInterrupted m p) = Some (m, 502, ''UPSTREAM_AMBIGUOUS'')"
| "core_error (CircuitOpen m) = Some (m, 503, ''CIRCUIT_OPEN'')"
| "core_error (RateLimitExceeded r) = Some ([Lit ''Rate limit exceeded''], 429, ''RATE_LIMITED'')"
| "core_error RateLimiterUnavailable =
     Some ([Lit ''Rate limiter backend unavailable''], 503, ''RATE_LIMITER_UNAVAILABLE'')"
| "core_error _ = None"

fun service_error :: "exn \<Rightarrow> (fstring \<times> int \<times> string) option" where
  "service_error IdempotencyKeyConflict =
     Some ([Lit ''Idempotency-Key was already used for a different request''], 422,
       ''IDEMPOTENCY_KEY_CONFLICT'')"
| "service_error IdempotencyInProgress =
     Some ([Lit ''A request with this Idempotency-Key is still being processed''], 409,
       ''IDEMPOTENCY_IN_PROGRESS'')"
| "service_error (IdempotencyOutcomeUnknown detail) =
     Some ((case detail of
              None \<Rightarrow> [Lit outcome_unknown_text]
            | Some d \<Rightarrow> if text_truthy d
                then Lit outcome_unknown_text # Lit '' Original failure: '' # d
                else [Lit outcome_unknown_text]),
       409, ''IDEMPOTENCY_OUTCOME_UNKNOWN'')"
| "service_error IdempotencyStoreUnavailable =
     Some ([Lit ''Idempotency store is unavailable, retry the request''], 503,
       ''IDEMPOTENCY_STORE_UNAVAILABLE'')"
| "service_error _ = None"

text \<open>The classes of the four modules together.\<close>

definition app_error :: "exn \<Rightarrow> (fstring \<times> int \<times> string) option" where
  "app_error e = (case infra_error e of Some x \<Rightarrow> Some x | None \<Rightarrow>
     (case domain_error e of Some x \<Rightarrow> Some x | None \<Rightarrow>
       (case core_error e of Some x \<Rightarrow> Some x | None \<Rightarrow> service_error e)))"

lemma app_error_simps [simp]:
  "app_error (ProviderNotAvailable m) = Some (m, 503, ''PROVIDER_NOT_AVAILABLE'')"
  "app_error Unauthorized = Some ([Lit ''Invalid or missing API key''], 401, ''UNAUTHORIZED'')"
  "app_error InvalidModelName = Some ([Lit ''Invalid model name''], 400, ''INVALID_MODEL_NAME'')"
  "app_error InvalidToken = Some ([Lit ''Invalid token''], 400, ''INVALID_TOKEN'')"
  "app_error InvalidTokenPrice = Some ([Lit ''Invalid token price''], 400, ''INVALID_TOKEN_PRICE'')"
  "app_error InvalidTokenQuantity =
     Some ([Lit ''Invalid token quantity''], 400, ''INVALID_TOKEN_QUANTITY'')"
  "app_error InvalidFinishReason =
     Some ([Lit ''Invalid finish reason''], 400, ''INVALID_FINISH_REASON'')"
  "app_error InvalidUsageCost = Some ([Lit ''Invalid usage cost''], 400, ''INVALID_USAGE_COST'')"
  "app_error InvalidApiKeyName =
     Some ([Lit ''Invalid API key name''], 400, ''INVALID_API_KEY_NAME'')"
  "app_error InvalidRateLimit = Some ([Lit ''Invalid rate limit''], 400, ''INVALID_RATE_LIMIT'')"
  "app_error InvalidTokenQuota =
     Some ([Lit ''Invalid token quota''], 400, ''INVALID_TOKEN_QUOTA'')"
  "app_error ApiKeyNotFound = Some ([Lit ''API key not found''], 404, ''API_KEY_NOT_FOUND'')"
  "app_error (PricingRateNotFound m) = Some (m, 422, ''PRICING_RATE_NOT_FOUND'')"
  "app_error (CounterNotRegistered m) = Some (m, 500, ''COUNTER_NOT_REGISTERED'')"
  "app_error (AdapterNotRegistered m) = Some (m, 500, ''ADAPTER_NOT_REGISTERED'')"
  "app_error (UpstreamUnavailable m) = Some (m, 502, ''UPSTREAM_UNAVAILABLE'')"
  "app_error (UpstreamAmbiguous m) = Some (m, 502, ''UPSTREAM_AMBIGUOUS'')"
  "app_error (UpstreamStreamInterrupted m p) = Some (m, 502, ''UPSTREAM_AMBIGUOUS'')"
  "app_error (CircuitOpen m) = Some (m, 503, ''CIRCUIT_OPEN'')"
  "app_error (RateLimitExceeded r) = Some ([Lit ''Rate limit exceeded''], 429, ''RATE_LIMITED'')"
  "app_error RateLimiterUnavailable =
     Some ([Lit ''Rate limiter backend unavailable''], 503, ''RATE_LIMITER_UNAVAILABLE'')"
  "app_error IdempotencyKeyConflict =
     Some ([Lit ''Idempotency-Key was already used for a different request''], 422,
       ''IDEMPOTENCY_KEY_CONFLICT'')"
  "app_error IdempotencyInProgress =
     Some ([Lit ''A request with this Idempotency-Key is still being processed''], 409,
       ''IDEMPOTENCY_IN_PROGRESS'')"
  "app_error (IdempotencyOutcomeUnknown detail) =
     Some ((case detail of
              None \<Rightarrow> [Lit outcome_unknown_text]
            | Some d \<Rightarrow> if text_truthy d
                then Lit outcome_unknown_text # Lit '' Original failure: '' # d
                else [Lit outcome_unknown_text]),
       409, ''IDEMPOTENCY_OUTCOME_UNKNOWN'')"
  "app_error IdempotencyStoreUnavailable =
     Some ([Lit ''Idempotency store is unavailable, retry the request''], 503,
       ''IDEMPOTENCY_STORE_UNAVAILABLE'')"
  "app_error (ValueError m) = None"
  "app_error (TypeError m) = None"
  "app_error (KeyError m) = None"
  "app_error TimeoutError = None"
  "app_error (RedisError m) = None"
  "app_error (OSError m) = None"
  "app_error (OtherException m) = None"
  "app_error CancelledError = None"
  "app_error GeneratorExit = None"
  by (simp_all add: app_error_def)

definition is_AppError :: "exn \<Rightarrow> bool" where
  "is_AppError e = (app_error e \<noteq> None)"

text \<open>\<open>str(exc)\<close>: the message of an \<open>AppError\<close>, the argument of a library exception.\<close>

fun exn_str :: "exn \<Rightarrow> fstring" where
  "exn_str (ValueError m) = m"
| "exn_str (TypeError m) = m"
| "exn_str (KeyError m) = m"
| "exn_str (RedisError m) = m"
| "exn_str (OSError m) = m"
| "exn_str (OtherException m) = m"
| "exn_str e = (case app_error e of None \<Rightarrow> [] | Some (m, _, _) \<Rightarrow> m)"

subsection \<open>Validated entities\<close>

record usage_record =
  ur_api_key_id :: uuid
  ur_provider :: provider_enum
  ur_model :: string
  ur_tokens_in :: int
  ur_tokens_out :: int
  ur_cost :: decimal
  ur_finish_reason :: string
  ur_request_id :: string
  ur_created_at :: datetime

definition usage_record_create ::
  "datetime \<Rightarrow> uuid \<Rightarrow> provider_enum \<Rightarrow> string \<Rightarrow> int \<Rightarrow> int \<Rightarrow> decimal \<Rightarrow> string \<Rightarrow> string
   \<Rightarrow> usage_record result" where
  "usage_record_create now api_key_id provider model tokens_in tokens_out cost finish_reason
     request_id =
     (if tokens_in < 0 \<or> tokens_out < 0 then Inl InvalidTokenQuantity
      else if finish_reason \<notin> set VALID_FINISH_REASONS then Inl InvalidFinishReason
      else if cost < 0 then Inl InvalidUsageCost
      else Inr \<lparr>ur_api_key_id = api_key_id, ur_provider = provider, ur_model = model,
                ur_tokens_in = tokens_in, ur_tokens_out = tokens_out, ur_cost = cost,
                ur_finish_reason = finish_reason, ur_request_id = request_id,
                ur_created_at = now\<rparr>)"

record pricing_rate =
  pr_provider :: provider_enum
  pr_model :: string
  pr_price_per_1k_input :: decimal
  pr_price_per_1k_output :: decimal
  pr_effective_from :: datetime

definition pricing_rate_create ::
  "provider_enum \<Rightarrow> string \<Rightarrow> decimal \<Rightarrow> decimal \<Rightarrow> datetime \<Rightarrow> pricing_rate result" where
  "pricing_rate_create provider model price_in price_out effective_from =
     (if py_strip model = [] then Inl InvalidModelName
      else if price_in < 0 \<or> price_out < 0 then Inl InvalidTokenPrice
      else Inr \<lparr>pr_provider = provider, pr_model = model, pr_price_per_1k_input = price_in,
                pr_price_per_1k_output = price_out, pr_effective_from = effective_from\<rparr>)"

definition calculate_cost :: "pricing_rate \<Rightarrow> int \<Rightarrow> int \<Rightarrow> decimal result" where
  "calculate_cost rate tokens_in tokens_out =
     (if tokens_in < 0 \<or> tokens_out < 0 then Inl InvalidTokenQuantity
      else let cost_in = (of_int tokens_in / 1000) * pr_price_per_1k_input rate;
               cost_out = (of_int tokens_out / 1000) * pr_price_per_1k_output rate
           in Inr (cost_in + cost_out))"

record api_key =
  ak_id :: uuid
  ak_key_hash :: string
  ak_name :: string
  ak_rate_limit_rpm :: "int option"
  ak_monthly_token_quota :: "int option"
  ak_is_active :: bool
  ak_created_at :: datetime

definition api_key_create ::
  "uuid \<Rightarrow> datetime \<Rightarrow> string \<Rightarrow> string \<Rightarrow> int option \<Rightarrow> int option \<Rightarrow> api_key result" where
  "api_key_create fresh_id now key_hash name rate_limit_rpm monthly_token_quota =
     (if py_strip key_hash = [] then Inl InvalidToken
      else if py_strip name = [] then Inl InvalidApiKeyName
      else if (case rate_limit_rpm of None \<Rightarrow> False | Some r \<Rightarrow> r \<le> 0) then Inl InvalidRateLimit
      else if (case monthly_token_quota of None \<Rightarrow> False | Some q \<Rightarrow> q \<le> 0) then Inl InvalidTokenQuota
      else Inr \<lparr>ak_id = fresh_id, ak_key_hash = key_hash, ak_name = name,
                ak_rate_limit_rpm = rate_limit_rpm,
                ak_monthly_token_quota = monthly_token_quota, ak_is_active = True,
                ak_created_at = now\<rparr>)"

subsection \<open>Well-formedness of the entities\<close>

definition usage_record_wf :: "usage_record \<Rightarrow> bool" where
  "usage_record_wf r = (0 \<le> ur_tokens_in r \<and> 0 \<le> ur_tokens_out r \<and> 0 \<le> ur_cost r \<and>
     ur_finish_reason r \<in> set VALID_FINISH_REASONS)"

definition pricing_rate_wf :: "pricing_rate \<Rightarrow> bool" where
  "pricing_rate_wf r = (py_strip (pr_model r) \<noteq> [] \<and>
     0 \<le> pr_price_per_1k_input r \<and> 0 \<le> pr_price_per_1k_output r)"

definition api_key_wf :: "api_key \<Rightarrow> bool" where
  "api_key_wf k = (py_strip (ak_key_hash k) \<noteq> [] \<and> py_strip (ak_name k) \<noteq> [] \<and>
     (case ak_rate_limit_rpm k of None \<Rightarrow> True | Some r \<Rightarrow> 0 < r) \<and>
     (case ak_monthly_token_quota k of None \<Rightarrow> True | Some q \<Rightarrow> 0 < q))"

subsection \<open>Lemmas\<close>

lemma provider_roundtrip [simp]: "provider_of_value (provider_value p) = Some p"
  by (cases p) (simp_all add: provider_of_value_def)

lemma provider_of_value_Some: "provider_of_value s = Some p \<longleftrightarrow> s = provider_value p"
  by (cases p) (auto simp: provider_of_value_def split: if_splits)

lemma provider_value_inject [simp]: "provider_value p = provider_value q \<longleftrightarrow> p = q"
  by (cases p; cases q) simp_all

lemma idempotency_value_inject [simp]: "idempotency_value p = idempotency_value q \<longleftrightarrow> p = q"
  by (cases p; cases q) simp_all

text \<open>The two upstream classes are disjoint, and both are application errors.\<close>

lemma unavailable_not_ambiguous [exn_simps]:
  "is_UpstreamUnavailable e \<Longrightarrow> \<not> is_UpstreamAmbiguous e"
  by (cases e) auto

lemma unavailable_is_exception [exn_simps]: "is_UpstreamUnavailable e \<Longrightarrow> is_Exception e"
  by (cases e) auto

lemma ambiguous_is_exception [exn_simps]: "is_UpstreamAmbiguous e \<Longrightarrow> is_Exception e"
  by (cases e) auto

lemma upstream_is_app_error [exn_simps]:
  "is_UpstreamUnavailable e \<or> is_UpstreamAmbiguous e \<Longrightarrow> is_AppError e"
  by (cases e) (auto simp: is_AppError_def)

lemma app_error_is_exception [exn_simps]: "is_AppError e \<Longrightarrow> is_Exception e"
  by (cases e) (auto simp: is_AppError_def)

lemma app_error_status_range:
  "app_error e = Some (m, st, code) \<Longrightarrow> 400 \<le> st \<and> st \<le> 503"
  by (cases e) auto

lemma usage_record_create_Inr:
  "usage_record_create now k p m ti to c f rid = Inr r \<longleftrightarrow>
     usage_record_wf r \<and>
     r = \<lparr>ur_api_key_id = k, ur_provider = p, ur_model = m, ur_tokens_in = ti,
          ur_tokens_out = to, ur_cost = c, ur_finish_reason = f, ur_request_id = rid,
          ur_created_at = now\<rparr>"
  by (auto simp: usage_record_create_def usage_record_wf_def)

lemma pricing_rate_create_Inr:
  "pricing_rate_create p m cin cout t = Inr r \<longleftrightarrow>
     pricing_rate_wf r \<and>
     r = \<lparr>pr_provider = p, pr_model = m, pr_price_per_1k_input = cin,
          pr_price_per_1k_output = cout, pr_effective_from = t\<rparr>"
  by (auto simp: pricing_rate_create_def pricing_rate_wf_def)

lemma api_key_create_Inr:
  "api_key_create i now h n rl q = Inr k \<longleftrightarrow>
     api_key_wf k \<and>
     k = \<lparr>ak_id = i, ak_key_hash = h, ak_name = n, ak_rate_limit_rpm = rl,
          ak_monthly_token_quota = q, ak_is_active = True, ak_created_at = now\<rparr>"
  by (auto simp: api_key_create_def api_key_wf_def split: option.splits)

lemma calculate_cost_Inr:
  "calculate_cost rate ti to = Inr c \<longleftrightarrow>
     0 \<le> ti \<and> 0 \<le> to \<and>
     c = of_int ti / 1000 * pr_price_per_1k_input rate
       + of_int to / 1000 * pr_price_per_1k_output rate"
  by (auto simp: calculate_cost_def Let_def)

lemma calculate_cost_Inl:
  "calculate_cost rate ti to = Inl e \<longleftrightarrow> (ti < 0 \<or> to < 0) \<and> e = InvalidTokenQuantity"
  by (auto simp: calculate_cost_def Let_def)

lemma calculate_cost_nonneg:
  "pricing_rate_wf rate \<Longrightarrow> calculate_cost rate ti to = Inr c \<Longrightarrow> 0 \<le> c"
  by (auto simp: calculate_cost_Inr pricing_rate_wf_def intro!: add_nonneg_nonneg mult_nonneg_nonneg)

end
