(* ===== verification/Circuit_Breaker.thy ===== *)
theory Circuit_Breaker
  imports Relayix_Domain
begin

text \<open>
  The circuit breaker (\<open>app/core/resilience/circuit_breaker.py\<close>): its record, its four
  locked operations with the monotonic clock passed in, the interface the resilient
  adapter and the resilient rate limiter rely on (locale \<open>failure_gate\<close>), the
  transition system of many concurrent callers of one breaker with its invariant, and
  an abstract breaker without generations that the code refines.
\<close>

subsection \<open>State and operations\<close>

datatype circuit_state = CLOSED | OPEN | HALF_OPEN

record circuit_breaker =
  cb_fail_threshold :: int
  cb_reset_timeout_s :: seconds
  cb_state :: circuit_state
  cb_failures :: int
  cb_opened_at :: seconds
  cb_trial_in_flight :: bool
  cb_generation :: int

definition cb_init :: "int \<Rightarrow> seconds \<Rightarrow> circuit_breaker" where
  "cb_init fail_threshold reset_timeout_s =
     \<lparr>cb_fail_threshold = fail_threshold, cb_reset_timeout_s = reset_timeout_s,
      cb_state = CLOSED, cb_failures = 0, cb_opened_at = 0, cb_trial_in_flight = False,
      cb_generation = 0\<rparr>"

definition cb_enter :: "circuit_state \<Rightarrow> circuit_breaker \<Rightarrow> circuit_breaker" where
  "cb_enter st cb = cb\<lparr>cb_state := st, cb_generation := cb_generation cb + 1\<rparr>"

definition cb_allow :: "seconds \<Rightarrow> circuit_breaker \<Rightarrow> (bool \<times> int) \<times> circuit_breaker" where
  "cb_allow now cb =
     (if cb_state cb = CLOSED then ((True, cb_generation cb), cb)
      else if cb_state cb = OPEN then
        (if now - cb_opened_at cb \<ge> cb_reset_timeout_s cb then
           (let cb1 = (cb_enter HALF_OPEN cb)\<lparr>cb_trial_in_flight := True\<rparr>
            in ((True, cb_generation cb1), cb1))
         else ((False, cb_generation cb), cb))
      else if \<not> cb_trial_in_flight cb then
        ((True, cb_generation cb), cb\<lparr>cb_trial_in_flight := True\<rparr>)
      else ((False, cb_generation cb), cb))"

definition cb_record_success :: "int \<Rightarrow> circuit_breaker \<Rightarrow> circuit_breaker" where
  "cb_record_success g cb =
     (if g \<noteq> cb_generation cb then cb
      else let cb1 = cb\<lparr>cb_failures := 0, cb_trial_in_flight := False\<rparr>
           in if cb_state cb1 \<noteq> CLOSED then cb_enter CLOSED cb1 else cb1)"

definition cb_record_failure :: "seconds \<Rightarrow> int \<Rightarrow> circuit_breaker \<Rightarrow> circuit_breaker" where
  "cb_record_failure now g cb =
     (if g \<noteq> cb_generation cb then cb
      else let cb1 = cb\<lparr>cb_failures := cb_failures cb + 1, cb_trial_in_flight := False\<rparr>
           in if cb_state cb1 = HALF_OPEN \<or> cb_failures cb1 \<ge> cb_fail_threshold cb1
              then (cb_enter OPEN cb1)\<lparr>cb_opened_at := now\<rparr>
              else cb1)"

definition cb_record_abort :: "int \<Rightarrow> circuit_breaker \<Rightarrow> circuit_breaker" where
  "cb_record_abort g cb =
     (if g \<noteq> cb_generation cb then cb else cb\<lparr>cb_trial_in_flight := False\<rparr>)"

subsection \<open>Many callers of one breaker\<close>

text \<open>
  Every operation holds the breaker's \<open>asyncio.Lock\<close>, so concurrent callers interleave
  whole operations. \<open>calls\<close> maps a caller to the generation it was admitted under and
  still has to report; \<open>clock\<close> is \<open>time.monotonic()\<close>.
\<close>

record cb_system =
  brk :: circuit_breaker
  calls :: "nat \<Rightarrow> int option"
  mono_clock :: seconds

definition cb_system_init :: "int \<Rightarrow> seconds \<Rightarrow> cb_system" where
  "cb_system_init n t = \<lparr>brk = cb_init n t, calls = (\<lambda>_. None), mono_clock = 0\<rparr>"

inductive cb_step :: "cb_system \<Rightarrow> cb_system \<Rightarrow> bool" where
  tick: "0 \<le> d \<Longrightarrow> cb_step s (s\<lparr>mono_clock := mono_clock s + d\<rparr>)"
| admit: "calls s i = None \<Longrightarrow> cb_allow (mono_clock s) (brk s) = ((True, g), b) \<Longrightarrow>
     cb_step s (s\<lparr>brk := b, calls := (calls s)(i := Some g)\<rparr>)"
| reject: "cb_allow (mono_clock s) (brk s) = ((False, g), b) \<Longrightarrow> cb_step s (s\<lparr>brk := b\<rparr>)"
| succeed: "calls s i = Some g \<Longrightarrow>
     cb_step s (s\<lparr>brk := cb_record_success g (brk s), calls := (calls s)(i := None)\<rparr>)"
| fails: "calls s i = Some g \<Longrightarrow>
     cb_step s (s\<lparr>brk := cb_record_failure (mono_clock s) g (brk s),
                  calls := (calls s)(i := None)\<rparr>)"
| aborts: "calls s i = Some g \<Longrightarrow>
     cb_step s (s\<lparr>brk := cb_record_abort g (brk s), calls := (calls s)(i := None)\<rparr>)"

inductive cb_reachable :: "int \<Rightarrow> seconds \<Rightarrow> cb_system \<Rightarrow> bool" for n t where
  start: "cb_reachable n t (cb_system_init n t)"
| step: "cb_reachable n t s \<Longrightarrow> cb_step s s' \<Longrightarrow> cb_reachable n t s'"

subsection \<open>The abstract breaker\<close>

text \<open>
  What the class comment promises, without generations: closed with a count of
  consecutive failures, open since a time, or half open with or without a trial.
\<close>

datatype gate = Closed int | Open seconds | HalfOpen bool

fun gate_allow :: "seconds \<Rightarrow> seconds \<Rightarrow> gate \<Rightarrow> bool \<times> gate" where
  "gate_allow reset now (Closed n) = (True, Closed n)"
| "gate_allow reset now (Open t) =
     (if t + reset \<le> now then (True, HalfOpen True) else (False, Open t))"
| "gate_allow reset now (HalfOpen busy) = (\<not> busy, HalfOpen True)"

fun gate_success :: "gate \<Rightarrow> gate" where
  "gate_success g = Closed 0"

fun gate_failure :: "int \<Rightarrow> seconds \<Rightarrow> gate \<Rightarrow> gate" where
  "gate_failure limit now (Closed n) = (if limit \<le> n + 1 then Open now else Closed (n + 1))"
| "gate_failure limit now (Open t) = Open t"
| "gate_failure limit now (HalfOpen busy) = Open now"

fun gate_abort :: "gate \<Rightarrow> gate" where
  "gate_abort (HalfOpen busy) = HalfOpen False"
| "gate_abort g = g"

definition gate_of :: "circuit_breaker \<Rightarrow> gate" where
  "gate_of cb = (case cb_state cb of CLOSED \<Rightarrow> Closed (cb_failures cb)
     | OPEN \<Rightarrow> Open (cb_opened_at cb) | HALF_OPEN \<Rightarrow> HalfOpen (cb_trial_in_flight cb))"

text \<open>
  The steps of the abstract breaker. Outcomes are reported only while calls can be out:
  in the closed state, or by the one trial of the half-open state.
\<close>

inductive gate_step :: "int \<Rightarrow> seconds \<Rightarrow> seconds \<Rightarrow> gate \<Rightarrow> gate \<Rightarrow> bool"
  for limit reset now where
  gs_allow: "gate_step limit reset now g (snd (gate_allow reset now g))"
| gs_success_closed: "gate_step limit reset now (Closed n) (gate_success (Closed n))"
| gs_success_trial: "gate_step limit reset now (HalfOpen True) (gate_success (HalfOpen True))"
| gs_failure_closed: "gate_step limit reset now (Closed n) (gate_failure limit now (Closed n))"
| gs_failure_trial: "gate_step limit reset now (HalfOpen True) (gate_failure limit now (HalfOpen True))"
| gs_abort: "gate_step limit reset now g (gate_abort g)"

text \<open>Consecutive outcomes of calls made one after the other, all admitted.\<close>

fun cb_fail_run :: "seconds list \<Rightarrow> circuit_breaker \<Rightarrow> circuit_breaker" where
  "cb_fail_run [] cb = cb"
| "cb_fail_run (t # ts) cb = cb_fail_run ts (cb_record_failure t (cb_generation cb) cb)"

subsection \<open>Invariants\<close>

text \<open>What the breaker's own fields satisfy between operations.\<close>

definition cb_wf :: "circuit_breaker \<Rightarrow> bool" where
  "cb_wf cb = (0 \<le> cb_failures cb \<and>
     (cb_state cb = CLOSED \<longrightarrow> cb_failures cb < cb_fail_threshold cb) \<and>
     (cb_state cb \<noteq> HALF_OPEN \<longrightarrow> \<not> cb_trial_in_flight cb) \<and>
     (cb_state cb \<noteq> CLOSED \<longrightarrow> 0 < cb_failures cb) \<and> 0 < cb_fail_threshold cb)"

text \<open>How the breaker agrees with the callers that still owe it an outcome.\<close>

definition cb_inv :: "cb_system \<Rightarrow> bool" where
  "cb_inv s = (cb_wf (brk s) \<and>
     (\<forall>i g. calls s i = Some g \<longrightarrow> g \<le> cb_generation (brk s)) \<and>
     (cb_state (brk s) = OPEN \<longrightarrow>
        (\<forall>i g. calls s i = Some g \<longrightarrow> g < cb_generation (brk s)) \<and>
        cb_opened_at (brk s) \<le> mono_clock s) \<and>
     (cb_state (brk s) = HALF_OPEN \<longrightarrow>
        (cb_trial_in_flight (brk s) \<longleftrightarrow> (\<exists>i. calls s i = Some (cb_generation (brk s)))) \<and>
        (\<forall>i j. calls s i = Some (cb_generation (brk s)) \<and>
               calls s j = Some (cb_generation (brk s)) \<longrightarrow> i = j)))"

subsection \<open>Unfolding rules\<close>

lemmas cb_op_defs [breaker_simps] =
  cb_enter_def cb_allow_def cb_record_success_def cb_record_failure_def cb_record_abort_def

lemma cb_config [simp]:
  "cb_fail_threshold (cb_enter st cb) = cb_fail_threshold cb"
  "cb_fail_threshold (snd (cb_allow now cb)) = cb_fail_threshold cb"
  "cb_fail_threshold (cb_record_success g cb) = cb_fail_threshold cb"
  "cb_fail_threshold (cb_record_failure now g cb) = cb_fail_threshold cb"
  "cb_fail_threshold (cb_record_abort g cb) = cb_fail_threshold cb"
  "cb_reset_timeout_s (cb_enter st cb) = cb_reset_timeout_s cb"
  "cb_reset_timeout_s (snd (cb_allow now cb)) = cb_reset_timeout_s cb"
  "cb_reset_timeout_s (cb_record_success g cb) = cb_reset_timeout_s cb"
  "cb_reset_timeout_s (cb_record_failure now g cb) = cb_reset_timeout_s cb"
  "cb_reset_timeout_s (cb_record_abort g cb) = cb_reset_timeout_s cb"
  by (auto simp: breaker_simps Let_def)

lemma cb_stale [simp]:
  assumes "g \<noteq> cb_generation cb"
  shows "cb_record_success g cb = cb" "cb_record_failure now g cb = cb"
    "cb_record_abort g cb = cb"
  using assms by (simp_all add: breaker_simps)

lemma cb_wf_init: "0 < n \<Longrightarrow> cb_wf (cb_init n t)"
  by (simp add: cb_wf_def cb_init_def)

lemma cb_allow_cases:
  obtains (closed) "cb_state cb = CLOSED" "cb_allow now cb = ((True, cb_generation cb), cb)"
  | (opened) "cb_state cb = OPEN" "now - cb_opened_at cb < cb_reset_timeout_s cb"
      "cb_allow now cb = ((False, cb_generation cb), cb)"
  | (retry) "cb_state cb = OPEN" "cb_reset_timeout_s cb \<le> now - cb_opened_at cb"
      "cb_allow now cb = ((True, cb_generation cb + 1),
         cb\<lparr>cb_state := HALF_OPEN, cb_generation := cb_generation cb + 1,
            cb_trial_in_flight := True\<rparr>)"
  | (trial) "cb_state cb = HALF_OPEN" "\<not> cb_trial_in_flight cb"
      "cb_allow now cb = ((True, cb_generation cb), cb\<lparr>cb_trial_in_flight := True\<rparr>)"
  | (busy) "cb_state cb = HALF_OPEN" "cb_trial_in_flight cb"
      "cb_allow now cb = ((False, cb_generation cb), cb)"
proof (cases "cb_state cb")
  case OPEN
  then show ?thesis using that(2,3) by (cases "cb_reset_timeout_s cb \<le> now - cb_opened_at cb")
      (simp_all add: breaker_simps Let_def not_le)
next
  case HALF_OPEN
  then show ?thesis using that(4,5) by (cases "cb_trial_in_flight cb") (simp_all add: breaker_simps)
qed (use that(1) in \<open>simp add: breaker_simps\<close>)

lemma cb_wf_allow: "cb_wf cb \<Longrightarrow> cb_wf (snd (cb_allow now cb))"
  by (cases rule: cb_allow_cases [of cb now]) (auto simp: cb_wf_def)

lemma cb_wf_success: "cb_wf cb \<Longrightarrow> cb_wf (cb_record_success g cb)"
  by (auto simp: cb_wf_def breaker_simps Let_def)

lemma cb_wf_failure: "cb_wf cb \<Longrightarrow> cb_wf (cb_record_failure now g cb)"
  by (auto simp: cb_wf_def breaker_simps Let_def)

lemma cb_wf_abort: "cb_wf cb \<Longrightarrow> cb_wf (cb_record_abort g cb)"
  by (auto simp: cb_wf_def breaker_simps Let_def)

lemma cb_generation_mono:
  "cb_generation cb \<le> cb_generation (snd (cb_allow now cb))"
  "cb_generation cb \<le> cb_generation (cb_record_success g cb)"
  "cb_generation cb \<le> cb_generation (cb_record_failure now g cb)"
  "cb_generation cb \<le> cb_generation (cb_record_abort g cb)"
  by (auto simp: breaker_simps Let_def)

subsection \<open>The interface its clients rely on\<close>

text \<open>
  The contract the resilient adapter and the resilient rate limiter use: a rejected
  caller leaves the gate alone, an admitted one gets the gate's current generation,
  outcomes of an older generation are ignored, and every operation keeps the invariant.
\<close>

datatype call_outcome = Succeeded | Failed | Aborted

locale failure_gate =
  fixes allow :: "seconds \<Rightarrow> 'b \<Rightarrow> (bool \<times> int) \<times> 'b"
    and succeed :: "int \<Rightarrow> 'b \<Rightarrow> 'b"
    and fail :: "seconds \<Rightarrow> int \<Rightarrow> 'b \<Rightarrow> 'b"
    and abort :: "int \<Rightarrow> 'b \<Rightarrow> 'b"
    and gen :: "'b \<Rightarrow> int"
    and invar :: "'b \<Rightarrow> bool"
  assumes reject_same: "allow now b = ((False, g), b') \<Longrightarrow> b' = b"
    and admit_gen: "allow now b = ((ok, g), b') \<Longrightarrow> g = gen b'"
    and stale_succeed: "g \<noteq> gen b \<Longrightarrow> succeed g b = b"
    and stale_fail: "g \<noteq> gen b \<Longrightarrow> fail now g b = b"
    and stale_abort: "g \<noteq> gen b \<Longrightarrow> abort g b = b"
    and gen_allow: "gen b \<le> gen (snd (allow now b))"
    and gen_succeed: "gen b \<le> gen (succeed g b)"
    and gen_fail: "gen b \<le> gen (fail now g b)"
    and gen_abort: "gen b \<le> gen (abort g b)"
    and invar_allow: "invar b \<Longrightarrow> invar (snd (allow now b))"
    and invar_succeed: "invar b \<Longrightarrow> invar (succeed g b)"
    and invar_fail: "invar b \<Longrightarrow> invar (fail now g b)"
    and invar_abort: "invar b \<Longrightarrow> invar (abort g b)"
begin

definition report :: "seconds \<Rightarrow> int \<Rightarrow> call_outcome \<Rightarrow> 'b \<Rightarrow> 'b" where
  "report now g oc b = (case oc of Succeeded \<Rightarrow> succeed g b | Failed \<Rightarrow> fail now g b
     | Aborted \<Rightarrow> abort g b)"

lemma report_stale: "g \<noteq> gen b \<Longrightarrow> report now g oc b = b"
  by (cases oc) (simp_all add: report_def stale_succeed stale_fail stale_abort)

lemma report_gen: "gen b \<le> gen (report now g oc b)"
  by (cases oc) (simp_all add: report_def gen_succeed gen_fail gen_abort)

lemma report_invar: "invar b \<Longrightarrow> invar (report now g oc b)"
  by (cases oc) (simp_all add: report_def invar_succeed invar_fail invar_abort)

text \<open>A whole guarded call, with anything that keeps the gate's contract in between.\<close>

lemma guarded_call_invar:
  assumes "invar b" and "allow t b = ((True, g), b1)"
    and "\<And>x. invar x \<Longrightarrow> invar (env x)"
  shows "invar (report t' g oc (env b1))"
  using assms invar_allow [of b t] by (auto intro: report_invar)

text \<open>Once the gate has moved on, the outcome of the call changes nothing.\<close>

lemma guarded_call_overtaken:
  assumes "allow t b = ((True, g), b1)" and "gen b1 < gen (env b1)"
  shows "report t' g oc (env b1) = env b1"
  using assms admit_gen [OF assms(1)] by (intro report_stale) simp

end

interpretation cbg: failure_gate cb_allow cb_record_success cb_record_failure cb_record_abort
  cb_generation cb_wf
proof unfold_locales
  fix now b ok g b'
  show "cb_allow now b = ((False, g), b') \<Longrightarrow> b' = b"
    by (cases rule: cb_allow_cases [of b now]) simp_all
  show "cb_allow now b = ((ok, g), b') \<Longrightarrow> g = cb_generation b'"
    by (cases rule: cb_allow_cases [of b now]) auto
qed (simp_all add: cb_generation_mono cb_wf_allow cb_wf_success cb_wf_failure cb_wf_abort)

subsection \<open>The invariant of the system\<close>

inductive_cases cb_stepE: "cb_step s s'"

lemma cb_inv_init: "0 < n \<Longrightarrow> cb_inv (cb_system_init n t)"
  by (simp add: cb_inv_def cb_system_init_def cb_init_def cb_wf_def)

lemma cb_inv_admit:
  assumes inv: "cb_inv s" and free: "calls s i = None"
    and al: "cb_allow (mono_clock s) (brk s) = ((True, g), b)"
  shows "cb_inv (s\<lparr>brk := b, calls := (calls s)(i := Some g)\<rparr>)"
proof -
  have wf: "cb_wf b" using cbg.invar_allow [of "brk s" "mono_clock s"] inv al
    by (simp add: cb_inv_def)
  show ?thesis
  proof (cases rule: cb_allow_cases [of "brk s" "mono_clock s"])
    case retry
    then have lt: "calls s j = Some h \<Longrightarrow> h < cb_generation (brk s)" for j h
      using inv by (auto simp: cb_inv_def)
    then have "calls s j = Some h \<Longrightarrow> h \<noteq> cb_generation (brk s) + 1" for j h
      by fastforce
    with retry al wf lt show ?thesis by (force simp: cb_inv_def)
  qed (use inv free al wf in \<open>auto simp: cb_inv_def\<close>)
qed

lemma cb_inv_record:
  assumes inv: "cb_inv s" and c: "calls s i = Some g"
  shows "cb_inv (s\<lparr>brk := cbg.report (mono_clock s) g oc (brk s), calls := (calls s)(i := None)\<rparr>)"
proof (cases "g = cb_generation (brk s)")
  case False
  then have "cbg.report (mono_clock s) g oc (brk s) = brk s" by (rule cbg.report_stale)
  moreover have "j \<noteq> i" if "calls s j = Some (cb_generation (brk s))" for j
    using that c False by auto
  ultimately show ?thesis using inv by (auto simp: cb_inv_def)
next
  case True
  have wf: "cb_wf (cbg.report (mono_clock s) g oc (brk s))"
    using inv by (intro cbg.report_invar) (simp add: cb_inv_def)
  have le: "\<forall>j h. calls s j = Some h \<longrightarrow> h \<le> cb_generation (brk s)"
    and no: "cb_state (brk s) \<noteq> OPEN"
    and uniq: "\<forall>j. cb_state (brk s) = HALF_OPEN \<and> calls s j = Some g \<longrightarrow> j = i"
    using inv c True by (auto simp: cb_inv_def)
  have lt: "\<forall>j h. j \<noteq> i \<and> calls s j = Some h \<longrightarrow> h < cb_generation (brk s) + 1"
    and le1: "\<forall>j h. j \<noteq> i \<and> calls s j = Some h \<longrightarrow> h \<le> cb_generation (brk s) + 1"
    using le by fastforce+
  show ?thesis
    using wf le le1 lt no uniq True
    by (cases oc; cases "cb_state (brk s)")
      (auto simp: cb_inv_def cbg.report_def breaker_simps Let_def)
qed

lemma cb_inv_step: "cb_step s s' \<Longrightarrow> cb_inv s \<Longrightarrow> cb_inv s'"
proof (induction rule: cb_step.induct)
  case (tick d s)
  then show ?case by (force simp: cb_inv_def)
next
  case (admit s i g b)
  then show ?case by (blast intro: cb_inv_admit)
next
  case (reject s g b)
  then have "b = brk s" by (blast intro: cbg.reject_same)
  with reject show ?case by simp
next
  case (succeed s i g)
  then show ?case using cb_inv_record [of s i g Succeeded] by (simp add: cbg.report_def)
next
  case (fails s i g)
  then show ?case using cb_inv_record [of s i g Failed] by (simp add: cbg.report_def)
next
  case (aborts s i g)
  then show ?case using cb_inv_record [of s i g Aborted] by (simp add: cbg.report_def)
qed

lemma cb_inv_reachable: "cb_reachable n t s \<Longrightarrow> 0 < n \<Longrightarrow> cb_inv s"
  by (induction rule: cb_reachable.induct) (auto intro: cb_inv_init cb_inv_step)

subsection \<open>Refinement of the abstract breaker\<close>

lemma gate_of_allow:
  "gate_of (snd (cb_allow now cb)) = snd (gate_allow (cb_reset_timeout_s cb) now (gate_of cb))"
  "fst (fst (cb_allow now cb)) = fst (gate_allow (cb_reset_timeout_s cb) now (gate_of cb))"
  by (cases rule: cb_allow_cases [of cb now]; simp add: gate_of_def; linarith)+

lemma gate_of_success:
  "g = cb_generation cb \<Longrightarrow> gate_of (cb_record_success g cb) = gate_success (gate_of cb)"
  by (auto simp: gate_of_def breaker_simps Let_def)

lemma gate_of_failure:
  assumes "cb_state cb \<noteq> OPEN" and "g = cb_generation cb"
  shows "gate_of (cb_record_failure now g cb)
    = gate_failure (cb_fail_threshold cb) now (gate_of cb)"
  using assms by (cases "cb_state cb") (auto simp: gate_of_def breaker_simps Let_def)

lemma gate_of_abort:
  "g = cb_generation cb \<Longrightarrow> gate_of (cb_record_abort g cb) = gate_abort (gate_of cb)"
  by (cases "cb_state cb") (auto simp: gate_of_def breaker_simps)

lemma cb_current_call:
  assumes "cb_inv s" and "calls s i = Some (cb_generation (brk s))"
  shows "(\<exists>n. gate_of (brk s) = Closed n) \<or> gate_of (brk s) = HalfOpen True"
  using assms by (cases "cb_state (brk s)") (auto simp: cb_inv_def gate_of_def)

lemma cb_report_refines:
  assumes inv: "cb_inv s" and c: "calls s i = Some g"
  shows "gate_of (cbg.report (mono_clock s) g oc (brk s)) = gate_of (brk s) \<or>
    gate_step (cb_fail_threshold (brk s)) (cb_reset_timeout_s (brk s)) (mono_clock s)
      (gate_of (brk s)) (gate_of (cbg.report (mono_clock s) g oc (brk s)))"
proof (cases "g = cb_generation (brk s)")
  case True
  have no: "cb_state (brk s) \<noteq> OPEN" using inv c True by (auto simp: cb_inv_def)
  have "(\<exists>n. gate_of (brk s) = Closed n) \<or> gate_of (brk s) = HalfOpen True"
    using cb_current_call [OF inv, of i] c True by simp
  with True no show ?thesis
    by (cases oc)
      (auto simp: cbg.report_def gate_of_success gate_of_failure gate_of_abort
         simp del: gate_success.simps gate_failure.simps gate_abort.simps
         intro: gate_step.intros)
qed (simp add: cbg.report_stale)

subsection \<open>Staying open\<close>

lemma cb_open_owes_nothing:
  "cb_inv s \<Longrightarrow> cb_state (brk s) = OPEN \<Longrightarrow> calls s i = Some g \<Longrightarrow> g \<noteq> cb_generation (brk s)"
  by (auto simp: cb_inv_def)

lemma cb_open_step:
  assumes "cb_step s s'" and "cb_inv s" and "cb_state (brk s) = OPEN"
    and "mono_clock s' < cb_opened_at (brk s) + cb_reset_timeout_s (brk s)"
  shows "brk s' = brk s"
  using assms
proof (induction rule: cb_step.induct)
  case (admit s i g b)
  then show ?case by (auto simp: cb_allow_def)
next
  case (reject s g b)
  then show ?case by (auto dest: cbg.reject_same)
qed (auto dest: cb_open_owes_nothing)

lemma cb_clock_mono: "cb_step s s' \<Longrightarrow> mono_clock s \<le> mono_clock s'"
  by (induction rule: cb_step.induct) auto

lemma cb_open_steps:
  assumes "cb_step\<^sup>*\<^sup>* s s'" and "cb_inv s" and "cb_state (brk s) = OPEN"
    and "mono_clock s' < cb_opened_at (brk s) + cb_reset_timeout_s (brk s)"
  shows "brk s' = brk s \<and> cb_inv s'"
  using assms
proof (induction rule: rtranclp_induct)
  case (step y z)
  then have "mono_clock y < cb_opened_at (brk s) + cb_reset_timeout_s (brk s)"
    using cb_clock_mono [of y z] by linarith
  with step have "brk y = brk s" "cb_inv y" by auto
  with step show ?case using cb_open_step [of y z] cb_inv_step [of y z] by auto
qed simp

lemma cb_fail_run_closed:
  assumes "cb_state cb = CLOSED" and "cb_failures cb + int (length ts) < cb_fail_threshold cb"
  shows "cb_fail_run ts cb = cb\<lparr>cb_failures := cb_failures cb + int (length ts),
    cb_trial_in_flight := (if ts = [] then cb_trial_in_flight cb else False)\<rparr>"
  using assms by (induction ts arbitrary: cb) (simp_all add: breaker_simps Let_def)

lemma cb_fail_run_append: "cb_fail_run (ts @ us) cb = cb_fail_run us (cb_fail_run ts cb)"
  by (induction ts arbitrary: cb) simp_all

subsection \<open>Correctness properties\<close>

text \<open>
  C11. While the circuit is half open, exactly one admitted call owes the breaker an outcome
  when the trial flag is set, and none does when it is clear, whatever the interleaving of
  the callers: a half-open provider is never probed by two requests at once, and the trial
  flag is never held by nobody as long as every admitted call reports.
\<close>

theorem cb_half_open_single_trial:
  assumes "0 < n" and "cb_reachable n t s" and "cb_state (brk s) = HALF_OPEN"
  shows "if cb_trial_in_flight (brk s)
         then \<exists>!i. calls s i = Some (cb_generation (brk s))
         else \<forall>i. calls s i \<noteq> Some (cb_generation (brk s))"
  using cb_inv_reachable [OF assms(2,1)] assms(3) by (auto simp: cb_inv_def)

text \<open>
  Once open, the breaker stays exactly as it is (state, opening time, generation,
  counters) through any interleaving of callers until the reset timeout has elapsed on the
  monotonic clock: outcomes of calls admitted before the trip can neither close it nor
  postpone its recovery, and nobody is admitted.
\<close>

theorem cb_stays_open:
  assumes "0 < n" and "cb_reachable n t s" and "cb_state (brk s) = OPEN"
    and "cb_step\<^sup>*\<^sup>* s s'" and "mono_clock s' < cb_opened_at (brk s) + cb_reset_timeout_s (brk s)"
  shows "brk s' = brk s \<and> fst (cb_allow (mono_clock s') (brk s')) = (False, cb_generation (brk s))"
proof -
  have "brk s' = brk s"
    using cb_open_steps [OF assms(4) cb_inv_reachable [OF assms(2,1)] assms(3,5)] by simp
  with assms(3,5) show ?thesis by (simp add: cb_allow_def)
qed

text \<open>
  C12. Refinement: every step of the concurrent system, projected to the abstract breaker of
  the class comment (closed with a failure count, open since a time, half open with or
  without a trial), is a step of that abstract breaker or leaves it alone.
\<close>

theorem cb_refines_gate:
  assumes "0 < n" and "cb_reachable n t s" and "cb_step s s'"
  shows "gate_of (brk s') = gate_of (brk s) \<or>
    gate_step (cb_fail_threshold (brk s)) (cb_reset_timeout_s (brk s)) (mono_clock s)
      (gate_of (brk s)) (gate_of (brk s'))"
  using assms(3) cb_inv_reachable [OF assms(2,1)]
proof (induction rule: cb_step.induct)
  case (admit s i g b)
  then show ?case using gate_of_allow(1) [of "mono_clock s" "brk s"]
    by (auto intro: gs_allow)
next
  case (reject s g b)
  then show ?case using cbg.reject_same by fastforce
next
  case (succeed s i g)
  then show ?case using cb_report_refines [of s i g Succeeded] by (simp add: cbg.report_def)
next
  case (fails s i g)
  then show ?case using cb_report_refines [of s i g Failed] by (simp add: cbg.report_def)
next
  case (aborts s i g)
  then show ?case using cb_report_refines [of s i g Aborted] by (simp add: cbg.report_def)
qed simp

text \<open>
  A fresh breaker trips exactly at the threshold: after fewer consecutive failures it is
  still closed and has counted them, at the last of \<open>fail_threshold\<close> failures it opens
  and stamps the time of that failure.
\<close>

theorem cb_trips_at_threshold:
  assumes "int (length ts) < n"
  shows "cb_state (cb_fail_run ts (cb_init n r)) = CLOSED
    \<and> cb_failures (cb_fail_run ts (cb_init n r)) = int (length ts)
    \<and> (int (length ts) = n - 1 \<longrightarrow>
         cb_state (cb_fail_run (ts @ [now]) (cb_init n r)) = OPEN
         \<and> cb_opened_at (cb_fail_run (ts @ [now]) (cb_init n r)) = now)"
proof -
  have "cb_fail_run ts (cb_init n r) = (cb_init n r)\<lparr>cb_failures := int (length ts)\<rparr>"
    using cb_fail_run_closed [of "cb_init n r" ts] assms by (simp add: cb_init_def)
  then show ?thesis
    by (simp add: cb_fail_run_append breaker_simps Let_def cb_init_def)
qed

text \<open>
  C33. Recovery: an open breaker whose reset timeout has elapsed admits the next caller as
  its trial and rejects everybody else until it reports; if the trial succeeds the breaker
  is closed with a clean count, if it fails the breaker is open again from that time on,
  and if it is aborted the next caller is admitted as a new trial.
\<close>

theorem cb_recovery:
  assumes "cb_state cb = OPEN" and "cb_reset_timeout_s cb \<le> now - cb_opened_at cb"
    and "cb_allow now cb = ((ok, g), cb1)"
  shows "ok \<and> fst (fst (cb_allow now' cb1)) = False
    \<and> gate_of (cb_record_success g cb1) = Closed 0
    \<and> gate_of (cb_record_failure now' g cb1) = Open now'
    \<and> fst (cb_allow now' (cb_record_abort g cb1)) = (True, g)"
  using assms by (auto simp: breaker_simps Let_def gate_of_def)

subsection \<open>A concrete run\<close>

text \<open>
  A breaker with threshold 1 and a reset timeout of 10 seconds: caller 0 fails at time 0,
  the clock advances by 10 seconds, and caller 1 becomes the trial.
\<close>

definition run_open :: cb_system where
  "run_open = \<lparr>brk = \<lparr>cb_fail_threshold = 1, cb_reset_timeout_s = 10, cb_state = OPEN,
     cb_failures = 1, cb_opened_at = 0, cb_trial_in_flight = False, cb_generation = 1\<rparr>,
     calls = (\<lambda>_. None), mono_clock = 0\<rparr>"

definition run_half_open :: cb_system where
  "run_half_open = \<lparr>brk = \<lparr>cb_fail_threshold = 1, cb_reset_timeout_s = 10,
     cb_state = HALF_OPEN, cb_failures = 1, cb_opened_at = 0, cb_trial_in_flight = True,
     cb_generation = 2\<rparr>, calls = (\<lambda>_. None)(1 := Some 2), mono_clock = 10\<rparr>"

lemma run_open_reachable: "cb_reachable 1 10 run_open"
proof -
  let ?i = "cb_system_init 1 10"
  let ?a = "?i\<lparr>calls := (calls ?i)(0 := Some 0)\<rparr>"
  have "cb_step ?i (?i\<lparr>brk := brk ?i, calls := (calls ?i)(0 := Some 0)\<rparr>)"
    by (rule cb_step.admit) (simp_all add: cb_system_init_def cb_init_def cb_allow_def)
  then have "cb_reachable 1 10 ?a" by (auto intro: cb_reachable.intros)
  moreover have "cb_step ?a (?a\<lparr>brk := cb_record_failure (mono_clock ?a) 0 (brk ?a),
      calls := (calls ?a)(0 := None)\<rparr>)"
    by (rule cb_step.fails) simp
  ultimately have "cb_reachable 1 10 (?a\<lparr>brk := cb_record_failure (mono_clock ?a) 0 (brk ?a),
      calls := (calls ?a)(0 := None)\<rparr>)" by (rule cb_reachable.step)
  then show ?thesis
    by (simp add: run_open_def cb_system_init_def cb_init_def breaker_simps fun_upd_idem)
qed

lemma run_half_open_reachable: "cb_reachable 1 10 run_half_open"
proof -
  let ?o = "run_open\<lparr>mono_clock := 10\<rparr>"
  have "cb_step run_open (run_open\<lparr>mono_clock := mono_clock run_open + 10\<rparr>)"
    by (rule cb_step.tick) simp
  then have o: "cb_reachable 1 10 ?o"
    using run_open_reachable by (auto simp: run_open_def intro: cb_reachable.step)
  have "cb_step ?o (?o\<lparr>brk := brk run_half_open, calls := (calls ?o)(1 := Some 2)\<rparr>)"
    by (rule cb_step.admit) (simp_all add: run_open_def run_half_open_def breaker_simps Let_def)
  with o have "cb_reachable 1 10 (?o\<lparr>brk := brk run_half_open, calls := (calls ?o)(1 := Some 2)\<rparr>)"
    by (rule cb_reachable.step)
  then show ?thesis by (simp add: run_open_def run_half_open_def)
qed

theorem cb_half_open_single_trial_witness:
  "\<exists>!i. calls run_half_open i = Some (cb_generation (brk run_half_open))"
proof -
  have h: "cb_state (brk run_half_open) = HALF_OPEN" "cb_trial_in_flight (brk run_half_open)"
    by (simp_all add: run_half_open_def)
  show ?thesis
    using cb_half_open_single_trial [OF _ run_half_open_reachable h(1)] h(2) by simp
qed

theorem cb_stays_open_witness:
  "fst (cb_allow 9 (brk (run_open\<lparr>mono_clock := 9\<rparr>))) = (False, 1)"
proof -
  have st: "cb_step\<^sup>*\<^sup>* run_open (run_open\<lparr>mono_clock := mono_clock run_open + 9\<rparr>)"
    by (rule r_into_rtranclp, rule cb_step.tick) simp
  have h: "cb_state (brk run_open) = OPEN"
    "mono_clock (run_open\<lparr>mono_clock := mono_clock run_open + 9\<rparr>)
       < cb_opened_at (brk run_open) + cb_reset_timeout_s (brk run_open)"
    by (simp_all add: run_open_def)
  show ?thesis
    using cb_stays_open [OF _ run_open_reachable h(1) st h(2)] by (simp add: run_open_def)
qed

theorem cb_refines_gate_witness:
  "gate_of (brk (run_open\<lparr>mono_clock := 10\<rparr>)) = Open 0 \<and>
   (gate_of (brk run_half_open) = Open 0 \<or>
    gate_step 1 10 10 (Open 0) (gate_of (brk run_half_open)))"
proof -
  let ?o = "run_open\<lparr>mono_clock := mono_clock run_open + 10\<rparr>"
  have o: "cb_reachable 1 10 ?o"
    by (rule cb_reachable.step [OF run_open_reachable], rule cb_step.tick) simp
  have "cb_step ?o (?o\<lparr>brk := brk run_half_open, calls := (calls ?o)(1 := Some 2)\<rparr>)"
    by (rule cb_step.admit) (simp_all add: run_open_def run_half_open_def breaker_simps Let_def)
  from cb_refines_gate [OF _ o this] show ?thesis
    by (simp add: run_open_def run_half_open_def gate_of_def)
qed

theorem cb_trips_at_threshold_witness:
  "cb_state (cb_fail_run [1, 2, 3, 4] (cb_init 5 30)) = CLOSED \<and>
   cb_state (cb_fail_run ([1, 2, 3, 4] @ [7]) (cb_init 5 30)) = OPEN"
proof -
  have h: "int (length [1, 2, 3, 4 :: rat]) < 5" by simp
  from cb_trips_at_threshold [OF h, of 30 7] show ?thesis by simp
qed

theorem cb_recovery_witness:
  "gate_of (cb_record_success 2 (brk run_half_open)) = Closed 0"
proof -
  have h: "cb_state (brk run_open) = OPEN"
    "cb_reset_timeout_s (brk run_open) \<le> 10 - cb_opened_at (brk run_open)"
    "cb_allow 10 (brk run_open) = ((True, 2), brk run_half_open)"
    by (simp_all add: run_open_def run_half_open_def breaker_simps Let_def)
  from cb_recovery [OF h] show ?thesis by blast
qed

end
