(* ===== verification/Rate_Limit.thy ===== *)
theory Rate_Limit
  imports Circuit_Breaker
begin

text \<open>
  Rate limiting: the in-memory token bucket (\<open>app/core/ratelimit/token_bucket.py\<close>), the
  Redis token bucket with its Lua script (\<open>app/infra/ratelimit/redis_limiter.py\<close>), and
  the composition of the two behind a circuit breaker
  (\<open>app/core/ratelimit/resilient.py\<close>). The interface of a limiter
  (\<open>app/core/ratelimit/base.py\<close>) is the locale \<open>token_limiter\<close>, interpreted on both
  buckets; its lemmas bound what a caller can be admitted over any period.
\<close>

subsection \<open>The in-memory bucket\<close>

record bucket =
  bk_tokens :: rat
  bk_last_refill :: seconds

type_synonym buckets = "uuid \<Rightarrow> bucket option"

text \<open>
  \<open>InMemoryRateLimiter.check\<close>: the body under the lock, with the reading of
  \<open>time.monotonic()\<close> passed in. The bucket object is refilled in place before the
  decision, so a denial is stored as well. A zero \<open>rpm\<close> divides by zero.
\<close>

definition in_memory_check :: "seconds \<Rightarrow> uuid \<Rightarrow> int \<Rightarrow> buckets \<Rightarrow> unit result \<times> buckets" where
  "in_memory_check now key rpm bs =
     (let capacity = of_int rpm;
          refill_rate = of_int rpm / 60;
          bucket = (case bs key of
                      None \<Rightarrow> \<lparr>bk_tokens = capacity, bk_last_refill = now\<rparr>
                    | Some b \<Rightarrow> b);
          elapsed = now - bk_last_refill bucket;
          tokens = min capacity (bk_tokens bucket + elapsed * refill_rate)
      in if tokens \<ge> 1 then
           (Inr (), bs(key \<mapsto> \<lparr>bk_tokens = tokens - 1, bk_last_refill = now\<rparr>))
         else if refill_rate = 0 then
           (Inl (OtherException [Lit ''float division by zero'']),
            bs(key \<mapsto> \<lparr>bk_tokens = tokens, bk_last_refill = now\<rparr>))
         else
           (Inl (RateLimitExceeded (Fin ((1 - tokens) / refill_rate))),
            bs(key \<mapsto> \<lparr>bk_tokens = tokens, bk_last_refill = now\<rparr>)))"

subsection \<open>The Redis bucket\<close>

text \<open>
  The Lua script. Its state is the hash stored under the key, \<open>(tokens, ts)\<close> or nothing;
  it returns the reply, the hash it writes and the time to live it sets. A Lua division by
  zero is infinite.
\<close>

type_synonym lua_hash = "rat \<times> seconds"
type_synonym lua_script = "lua_hash option \<Rightarrow> (int \<times> pyfloat) \<times> lua_hash \<times> seconds"

definition token_bucket_lua :: "rat \<Rightarrow> rat \<Rightarrow> seconds \<Rightarrow> seconds \<Rightarrow> lua_script" where
  "token_bucket_lua capacity rate now ttl state =
     (let (tokens0, ts) = (case state of None \<Rightarrow> (capacity, now) | Some h \<Rightarrow> h);
          elapsed0 = now - ts;
          elapsed = (if elapsed0 < 0 then 0 else elapsed0);
          tokens = min capacity (tokens0 + elapsed * rate)
      in if tokens \<ge> 1 then ((1, Fin 0), (tokens - 1, now), ttl)
         else ((0, if rate = 0 then PosInf else Fin ((1 - tokens) / rate)), (tokens, now), ttl))"

text \<open>
  \<open>RedisRateLimiter.check\<close>. The Redis client is a parameter: \<open>script_call key script\<close>
  runs a registered script on the hash of a key and yields its reply or the exception the
  client library raises.
\<close>

type_synonym 'r script_call = "string \<Rightarrow> lua_script \<Rightarrow> 'r \<Rightarrow> (int \<times> pyfloat) result \<times> 'r"

definition redis_bucket_key :: "uuid \<Rightarrow> string" where
  "redis_bucket_key key = ''ratelimit:'' @ uuid_str key"

definition redis_check ::
  "'r script_call \<Rightarrow> seconds \<Rightarrow> uuid \<Rightarrow> int \<Rightarrow> 'r \<Rightarrow> unit result \<times> 'r" where
  "redis_check script_call now key rpm r =
     (let capacity = of_int rpm;
          refill_rate = of_int rpm / 60;
          ttl_s = 120
      in case script_call (redis_bucket_key key) (token_bucket_lua capacity refill_rate now ttl_s) r of
           (Inl e, r') \<Rightarrow>
             (if is_redis_failure e then (Inl RateLimiterUnavailable, r') else (Inl e, r'))
         | (Inr (allowed, retry_after_raw), r') \<Rightarrow>
             (if allowed = 0 then (Inl (RateLimitExceeded retry_after_raw), r')
              else (Inr (), r')))"

subsection \<open>The resilient composition\<close>

text \<open>
  \<open>ResilientRateLimiter.check\<close>. The breaker is shared with every other request, so the
  primary and the fallback act on the pair of breaker and world: whatever other tasks do
  to the breaker while this one awaits is part of that action. An exception of the primary
  other than the two it expects passes through without reporting to the breaker.
\<close>

type_synonym 'w check = "uuid \<Rightarrow> int \<Rightarrow> circuit_breaker \<times> 'w \<Rightarrow> unit result \<times> (circuit_breaker \<times> 'w)"

definition resilient_check ::
  "('w \<Rightarrow> seconds) \<Rightarrow> 'w check \<Rightarrow> 'w check \<Rightarrow> 'w check" where
  "resilient_check clock primary fallback key rpm s =
     (let (cb, w) = s;
          ((allowed, generation), cb1) = cb_allow (clock w) cb
      in if \<not> allowed then fallback key rpm (cb1, w)
         else case primary key rpm (cb1, w) of
             (Inr u, (cb2, w2)) \<Rightarrow> (Inr (), (cb_record_success generation cb2, w2))
           | (Inl e, (cb2, w2)) \<Rightarrow>
               (case e of
                  RateLimitExceeded r \<Rightarrow> (Inl e, (cb_record_success generation cb2, w2))
                | RateLimiterUnavailable \<Rightarrow>
                    fallback key rpm (cb_record_failure (clock w2) generation cb2, w2)
                | _ \<Rightarrow> (Inl e, (cb2, w2))))"

subsection \<open>Runs of checks\<close>

text \<open>
  A sequence of checks at given clock readings, for any keys; \<open>decisions\<close> lists the
  answers, \<open>admitted\<close> counts how often one key was admitted.
\<close>

fun decisions ::
  "(seconds \<Rightarrow> uuid \<Rightarrow> int \<Rightarrow> 's \<Rightarrow> unit result \<times> 's) \<Rightarrow> (uuid \<Rightarrow> int)
   \<Rightarrow> (seconds \<times> uuid) list \<Rightarrow> 's \<Rightarrow> unit result list" where
  "decisions chk rpm_of [] s = []"
| "decisions chk rpm_of ((t, k) # es) s =
     (case chk t k (rpm_of k) s of (r, s') \<Rightarrow> r # decisions chk rpm_of es s')"

definition admitted :: "uuid \<Rightarrow> (seconds \<times> uuid) list \<Rightarrow> unit result list \<Rightarrow> nat" where
  "admitted k es rs = length (filter (\<lambda>((t, k'), r). k' = k \<and> r = Inr ()) (zip es rs))"

text \<open>Clock readings that never go back.\<close>

definition clock_ordered :: "(seconds \<times> uuid) list \<Rightarrow> bool" where
  "clock_ordered es = sorted (map fst es)"

subsection \<open>A Redis server\<close>

text \<open>
  The documented behaviour of a reachable Redis server whose clock agrees with the caller's:
  a script runs atomically on the hash of its key, a key past its expiry is gone. It
  instantiates the parameter \<open>script_call\<close>.
\<close>

type_synonym redis_hashes = "string \<Rightarrow> (lua_hash \<times> seconds) option"

definition live_hash :: "seconds \<Rightarrow> redis_hashes \<Rightarrow> string \<Rightarrow> lua_hash option" where
  "live_hash now hs k = (case hs k of None \<Rightarrow> None
     | Some (h, expiry) \<Rightarrow> if expiry \<le> now then None else Some h)"

definition server_script_call :: "seconds \<Rightarrow> redis_hashes script_call" where
  "server_script_call now k script hs =
     (case script (live_hash now hs k) of
        (reply, h, ttl) \<Rightarrow> (Inr reply, hs(k \<mapsto> (h, now + ttl))))"

definition redis_limiter_check :: "seconds \<Rightarrow> uuid \<Rightarrow> int \<Rightarrow> redis_hashes \<Rightarrow> unit result \<times> redis_hashes" where
  "redis_limiter_check now key rpm hs = redis_check (server_script_call now) now key rpm hs"

subsection \<open>Fill levels\<close>

text \<open>The tokens a caller would find at a given time.\<close>

definition bucket_level :: "buckets \<Rightarrow> uuid \<Rightarrow> int \<Rightarrow> seconds \<Rightarrow> rat" where
  "bucket_level bs key rpm now = (case bs key of None \<Rightarrow> of_int rpm
     | Some b \<Rightarrow> min (of_int rpm) (bk_tokens b + (now - bk_last_refill b) * (of_int rpm / 60)))"

definition redis_level :: "redis_hashes \<Rightarrow> uuid \<Rightarrow> int \<Rightarrow> seconds \<Rightarrow> rat" where
  "redis_level hs key rpm now = (case live_hash now hs (redis_bucket_key key) of
       None \<Rightarrow> of_int rpm
     | Some (tokens, ts) \<Rightarrow> min (of_int rpm) (tokens + max 0 (now - ts) * (of_int rpm / 60)))"

text \<open>What the script leaves behind: a non-negative fill and an expiry 120 seconds later.\<close>

definition redis_hashes_wf :: "redis_hashes \<Rightarrow> bool" where
  "redis_hashes_wf hs = (\<forall>k. case hs k of None \<Rightarrow> True
     | Some ((tokens, ts), expiry) \<Rightarrow> 0 \<le> tokens \<and> expiry = ts + 120)"

definition buckets_wf :: "buckets \<Rightarrow> bool" where
  "buckets_wf bs = (\<forall>k. case bs k of None \<Rightarrow> True | Some b \<Rightarrow> 0 \<le> bk_tokens b)"

subsection \<open>The interface of a token limiter\<close>

text \<open>
  \<open>level s k rpm t\<close> is the fill of a caller's bucket at time \<open>t\<close>; \<open>ok t s\<close> says that
  the state was last touched no later than \<open>t\<close>. A check admits exactly when a token is
  there, takes it, tells a denied caller how long to wait for it, and touches no other
  caller; in between the bucket refills at \<open>rpm / 60\<close> tokens a second up to \<open>rpm\<close>.
\<close>

locale token_limiter =
  fixes chk :: "seconds \<Rightarrow> uuid \<Rightarrow> int \<Rightarrow> 's \<Rightarrow> unit result \<times> 's"
    and level :: "'s \<Rightarrow> uuid \<Rightarrow> int \<Rightarrow> seconds \<Rightarrow> rat"
    and ok :: "seconds \<Rightarrow> 's \<Rightarrow> bool"
  assumes ok_check: "ok t s \<Longrightarrow> t \<le> now \<Longrightarrow> 0 < rpm \<Longrightarrow> ok now (snd (chk now k rpm s))"
    and level_cap: "level s k rpm t \<le> of_int rpm"
    and level_nonneg: "ok t s \<Longrightarrow> 0 < rpm \<Longrightarrow> 0 \<le> level s k rpm t"
    and level_grow: "ok t s \<Longrightarrow> t \<le> t' \<Longrightarrow> 0 < rpm \<Longrightarrow>
      level s k rpm t' = min (of_int rpm) (level s k rpm t + (t' - t) * (of_int rpm / 60))"
    and decide: "ok t s \<Longrightarrow> t \<le> now \<Longrightarrow> 0 < rpm \<Longrightarrow> fst (chk now k rpm s) =
      (if 1 \<le> level s k rpm now then Inr ()
       else Inl (RateLimitExceeded (Fin ((1 - level s k rpm now) / (of_int rpm / 60)))))"
    and take_token: "ok t s \<Longrightarrow> t \<le> now \<Longrightarrow> 0 < rpm \<Longrightarrow> level (snd (chk now k rpm s)) k rpm now =
      (if 1 \<le> level s k rpm now then level s k rpm now - 1 else level s k rpm now)"
    and other_keys: "k' \<noteq> k \<Longrightarrow> level (snd (chk now k rpm s)) k' rpm' t' = level s k' rpm' t'"
begin

lemma level_rate:
  assumes "ok t s" "t \<le> t'" "0 < rpm"
  shows "level s k rpm t' \<le> level s k rpm t + (t' - t) * (of_int rpm / 60)"
  using level_grow [OF assms] by simp

text \<open>The admission bound: tokens present at the start plus what is refilled.\<close>

lemma admission_bound:
  assumes "ok t0 s" and "\<And>k. 0 < rpm_of k" and "clock_ordered es"
    and "\<forall>(t, k') \<in> set es. t0 \<le> t \<and> t \<le> t1" and "t0 \<le> t1"
  shows "of_nat (admitted k es (decisions chk rpm_of es s))
    \<le> level s k (rpm_of k) t0 + (t1 - t0) * (of_int (rpm_of k) / 60)"
  using assms(1,3,4,5)
proof (induction es arbitrary: s t0)
  case Nil
  have "0 \<le> level s k (rpm_of k) t0" using level_nonneg [OF Nil(1) assms(2)] .
  moreover have "0 \<le> (t1 - t0) * (of_int (rpm_of k) / 60)"
    using Nil(4) assms(2) [of k] by simp
  ultimately show ?case by (simp add: admitted_def)
next
  case (Cons e es)
  obtain t k' where e: "e = (t, k')" by (cases e)
  obtain r s' where c: "chk t k' (rpm_of k') s = (r, s')" by (cases "chk t k' (rpm_of k') s")
  have t: "t0 \<le> t" "t \<le> t1" using Cons.prems e by auto
  have ok': "ok t s'" using ok_check [OF Cons.prems(1) t(1) assms(2), of k' k'] c by simp
  have "\<forall>(t', k') \<in> set es. t \<le> t' \<and> t' \<le> t1" "clock_ordered es"
    using Cons.prems e by (auto simp: clock_ordered_def)
  from Cons.IH [OF ok' this(2,1) t(2)]
  have rest: "of_nat (admitted k es (decisions chk rpm_of es s'))
    \<le> level s' k (rpm_of k) t + (t1 - t) * (of_int (rpm_of k) / 60)" .
  have here: "(if k' = k \<and> r = Inr () then 1 else 0) + level s' k (rpm_of k) t
    \<le> level s k (rpm_of k) t"
    using take_token [OF Cons.prems(1) t(1) assms(2), of k k]
      decide [OF Cons.prems(1) t(1) assms(2), of k k] other_keys [of k k' t "rpm_of k'" s] c
    by (cases "k' = k") auto
  have grow: "level s k (rpm_of k) t \<le> level s k (rpm_of k) t0 + (t - t0) * (of_int (rpm_of k) / 60)"
    by (rule level_rate [OF Cons.prems(1) t(1) assms(2)])
  have step: "(of_nat (admitted k (e # es) (decisions chk rpm_of (e # es) s)) :: rat)
    = (if k' = k \<and> r = Inr () then 1 else 0) + of_nat (admitted k es (decisions chk rpm_of es s'))"
    using e c by (simp add: admitted_def)
  have "(t - t0) * (of_int (rpm_of k) / 60) + (t1 - t) * (of_int (rpm_of k) / 60)
    = (t1 - t0) * (of_int (rpm_of k) / 60 :: rat)" by (simp flip: distrib_right)
  with step rest here grow show ?case by linarith
qed

text \<open>A denied caller that waits as told is admitted, and not a moment earlier.\<close>

lemma retry_after_exact:
  assumes "ok t s" "t \<le> now" "0 < rpm"
    and d: "chk now k rpm s = (Inl (RateLimitExceeded (Fin wait)), s')"
    and "now \<le> now'"
  shows "fst (chk now' k rpm s') = Inr () \<longleftrightarrow> now + wait \<le> now'"
proof -
  let ?r = "of_int rpm / 60 :: rat" and ?l = "level s k rpm now"
  have r: "0 < ?r" using assms(3) by simp
  have l: "?l < 1" and w: "wait = (1 - ?l) / ?r" and l': "level s' k rpm now = ?l"
    using decide [OF assms(1-3), of k] take_token [OF assms(1-3), of k] d
    by (auto split: if_splits)
  have ok': "ok now s'" using ok_check [OF assms(1-3), of k] d by simp
  have "1 \<le> level s' k rpm now' \<longleftrightarrow> 1 \<le> ?l + (now' - now) * ?r"
    using level_grow [OF ok' assms(5,3), of k] l' assms(3) by simp
  also have "\<dots> \<longleftrightarrow> now + wait \<le> now'"
    using r by (simp add: w field_simps)
  finally show ?thesis
    using decide [OF ok' assms(5,3), of k] by simp
qed

end

text \<open>Two limiters with the same levels give the same answers for ever.\<close>

locale limiter_pair =
  a: token_limiter chk level ok + b: token_limiter chk' level' ok'
  for chk :: "seconds \<Rightarrow> uuid \<Rightarrow> int \<Rightarrow> 's \<Rightarrow> unit result \<times> 's" and level ok
    and chk' :: "seconds \<Rightarrow> uuid \<Rightarrow> int \<Rightarrow> 't \<Rightarrow> unit result \<times> 't" and level' ok'
begin

lemma same_decisions:
  assumes "ok t0 s" "ok' t0 s'" and "\<And>k. 0 < rpm_of k"
    and "\<And>k. level s k (rpm_of k) t0 = level' s' k (rpm_of k) t0"
    and "clock_ordered es" and "\<forall>(t, k') \<in> set es. t0 \<le> t"
  shows "decisions chk rpm_of es s = decisions chk' rpm_of es s'"
  using assms(1,2,4-6)
proof (induction es arbitrary: s s' t0)
  case (Cons e es)
  obtain t k where e: "e = (t, k)" by (cases e)
  obtain r u where c: "chk t k (rpm_of k) s = (r, u)" by (cases "chk t k (rpm_of k) s")
  obtain r' u' where c': "chk' t k (rpm_of k) s' = (r', u')" by (cases "chk' t k (rpm_of k) s'")
  have t: "t0 \<le> t" using Cons.prems e by auto
  have same: "level s j (rpm_of j) t = level' s' j (rpm_of j) t" for j
    using a.level_grow [OF Cons.prems(1) t assms(3)] b.level_grow [OF Cons.prems(2) t assms(3)]
      Cons.prems(3) by simp
  have r: "r = r'"
    using a.decide [OF Cons.prems(1) t assms(3), of k k] c
      b.decide [OF Cons.prems(2) t assms(3), of k k] c' same by simp
  have after: "level u j (rpm_of j) t = level' u' j (rpm_of j) t" for j
    using a.take_token [OF Cons.prems(1) t assms(3), of k k] c
      b.take_token [OF Cons.prems(2) t assms(3), of k k] c' same
      a.other_keys [of j k t "rpm_of k" s] b.other_keys [of j k t "rpm_of k" s']
    by (cases "j = k") auto
  have "ok t u" "ok' t u'"
    using a.ok_check [OF Cons.prems(1) t assms(3), of k k] c
      b.ok_check [OF Cons.prems(2) t assms(3), of k k] c' by simp_all
  then have "decisions chk rpm_of es u = decisions chk' rpm_of es u'"
    by (rule Cons.IH) (use after Cons.prems e in \<open>auto simp: clock_ordered_def\<close>)
  with e c c' r show ?case by simp
qed simp

end

subsection \<open>Both buckets implement it\<close>

definition buckets_ok :: "seconds \<Rightarrow> buckets \<Rightarrow> bool" where
  "buckets_ok t bs = (buckets_wf bs \<and>
     (\<forall>k. case bs k of None \<Rightarrow> True | Some b \<Rightarrow> bk_last_refill b \<le> t))"

definition redis_ok :: "seconds \<Rightarrow> redis_hashes \<Rightarrow> bool" where
  "redis_ok t hs = (redis_hashes_wf hs \<and>
     (\<forall>k. case hs k of None \<Rightarrow> True | Some ((tokens, ts), expiry) \<Rightarrow> ts \<le> t))"

text \<open>Refilling in two steps is refilling at once.\<close>

lemma refill_twice:
  fixes c r x d d' :: rat
  assumes "0 \<le> r" "0 \<le> d'"
  shows "min c (min c (x + d * r) + d' * r) = min c (x + (d + d') * r)"
proof -
  have "0 \<le> d' * r" using assms by simp
  then show ?thesis by (simp add: min_def distrib_right)
qed

lemma refill_split:
  fixes c r x a b ts :: rat
  assumes "0 \<le> r" "a \<le> b"
  shows "min c (min c (x + (a - ts) * r) + (b - a) * r) = min c (x + (b - ts) * r)"
  using refill_twice [of r "b - a" c x "a - ts"] assms by simp

lemma refill_full:
  fixes c r a b :: rat
  assumes "0 \<le> r" "a \<le> b"
  shows "min c (c + (b - a) * r) = c"
  using assms by (simp add: min_def)

lemma in_memory_check_level:
  "in_memory_check now key rpm bs =
     (let l = bucket_level bs key rpm now; b = \<lambda>x. \<lparr>bk_tokens = x, bk_last_refill = now\<rparr>
      in if 1 \<le> l then (Inr (), bs(key \<mapsto> b (l - 1)))
         else if rpm = 0 then (Inl (OtherException [Lit ''float division by zero'']), bs(key \<mapsto> b l))
         else (Inl (RateLimitExceeded (Fin ((1 - l) / (of_int rpm / 60)))), bs(key \<mapsto> b l)))"
  by (simp add: in_memory_check_def bucket_level_def Let_def split: option.splits)

lemma bucket_level_nonneg:
  assumes "buckets_ok t bs" "0 < rpm"
  shows "0 \<le> bucket_level bs k rpm t"
  using assms
  by (auto simp: buckets_ok_def buckets_wf_def bucket_level_def split: option.splits
      dest!: spec [of _ k])

lemma buckets_ok_update:
  assumes "buckets_ok t bs" "t \<le> now" "0 \<le> x"
  shows "buckets_ok now (bs(k \<mapsto> \<lparr>bk_tokens = x, bk_last_refill = now\<rparr>))"
  using assms by (fastforce simp: buckets_ok_def buckets_wf_def split: option.splits)

lemma buckets_ok_mono: "buckets_ok t bs \<Longrightarrow> t \<le> t' \<Longrightarrow> buckets_ok t' bs"
  by (fastforce simp: buckets_ok_def split: option.splits)

lemma bucket_level_upd:
  "x \<le> of_int rpm \<Longrightarrow>
    bucket_level (bs(k \<mapsto> \<lparr>bk_tokens = x, bk_last_refill = now\<rparr>)) k rpm now = x"
  by (simp add: bucket_level_def)

lemma bucket_level_cap: "bucket_level bs k rpm t \<le> of_int rpm"
  by (simp add: bucket_level_def split: option.splits)

interpretation mem: token_limiter in_memory_check bucket_level buckets_ok
proof unfold_locales
  fix t now t' :: seconds and s k k' and rpm rpm' :: int
  show "bucket_level s k rpm t \<le> of_int rpm" by (rule bucket_level_cap)
  show "buckets_ok t s \<Longrightarrow> 0 < rpm \<Longrightarrow> 0 \<le> bucket_level s k rpm t"
    by (rule bucket_level_nonneg)
  show "k' \<noteq> k \<Longrightarrow> bucket_level (snd (in_memory_check now k rpm s)) k' rpm' t' =
      bucket_level s k' rpm' t'"
    by (simp add: in_memory_check_level Let_def) (simp add: bucket_level_def)
  show "bucket_level s k rpm t' =
      min (of_int rpm) (bucket_level s k rpm t + (t' - t) * (of_int rpm / 60))"
    if "buckets_ok t s" "t \<le> t'" "0 < rpm"
    using that by (cases "s k")
      (simp_all add: bucket_level_def refill_split refill_full del: times_divide_eq_right)
  assume a: "buckets_ok t s" "t \<le> now" "0 < rpm"
  have nn: "0 \<le> bucket_level s k rpm now"
    using a bucket_level_nonneg buckets_ok_mono by blast
  show "buckets_ok now (snd (in_memory_check now k rpm s))"
    using a nn by (auto simp: in_memory_check_level Let_def intro: buckets_ok_update)
  show "fst (in_memory_check now k rpm s) = (if 1 \<le> bucket_level s k rpm now then Inr ()
      else Inl (RateLimitExceeded (Fin ((1 - bucket_level s k rpm now) / (of_int rpm / 60)))))"
    using a by (simp add: in_memory_check_level Let_def)
  show "bucket_level (snd (in_memory_check now k rpm s)) k rpm now =
      (if 1 \<le> bucket_level s k rpm now then bucket_level s k rpm now - 1
       else bucket_level s k rpm now)"
    using a bucket_level_cap [of s k rpm now]
    by (simp add: in_memory_check_level Let_def bucket_level_upd)
qed

lemma redis_limiter_check_level:
  assumes "0 < rpm"
  shows "redis_limiter_check now key rpm hs =
     (let l = redis_level hs key rpm now; h = \<lambda>x. ((x, now), now + 120)
      in if 1 \<le> l then (Inr (), hs(redis_bucket_key key \<mapsto> h (l - 1)))
         else (Inl (RateLimitExceeded (Fin ((1 - l) / (of_int rpm / 60)))),
               hs(redis_bucket_key key \<mapsto> h l)))"
proof -
  have m: "(if now - ts < 0 then 0 else now - ts) = max 0 (now - ts)" for ts :: rat
    by (simp add: max_def)
  show ?thesis
    using assms
    by (cases "live_hash now hs (redis_bucket_key key)")
      (auto simp: redis_limiter_check_def redis_check_def server_script_call_def
        token_bucket_lua_def redis_level_def Let_def m simp del: times_divide_eq_right)
qed

lemma redis_bucket_key_inject [simp]: "redis_bucket_key k = redis_bucket_key k' \<longleftrightarrow> k = k'"
  by (simp add: redis_bucket_key_def)

lemma redis_level_cap: "redis_level hs k rpm t \<le> of_int rpm"
  by (simp add: redis_level_def split: option.splits prod.splits)

lemma redis_entry_ok:
  assumes "redis_ok t hs" "hs k = Some ((tokens, ts), expiry)"
  shows "0 \<le> tokens" "ts \<le> t" "expiry = ts + 120"
  using assms by (auto simp: redis_ok_def redis_hashes_wf_def dest!: spec [of _ k])

lemma redis_ok_mono: "redis_ok t hs \<Longrightarrow> t \<le> t' \<Longrightarrow> redis_ok t' hs"
  by (fastforce simp: redis_ok_def split: option.splits)

lemma redis_ok_update:
  assumes "redis_ok t hs" "t \<le> now" "0 \<le> x"
  shows "redis_ok now (hs(k \<mapsto> ((x, now), now + 120)))"
  using assms by (fastforce simp: redis_ok_def redis_hashes_wf_def split: option.splits)

lemma redis_level_nonneg:
  assumes "redis_ok t hs" "0 < rpm"
  shows "0 \<le> redis_level hs k rpm t"
proof (cases "hs (redis_bucket_key k)")
  case (Some e)
  then obtain tokens ts expiry where e: "hs (redis_bucket_key k) = Some ((tokens, ts), expiry)"
    by (metis prod.collapse)
  have "0 \<le> max 0 (t - ts) * (of_int rpm / 60)" using assms(2) by simp
  with e redis_entry_ok [OF assms(1) e] assms(2) show ?thesis
    by (simp add: redis_level_def live_hash_def)
qed (use assms in \<open>simp add: redis_level_def live_hash_def\<close>)

text \<open>
  An expired bucket would have been full: 120 seconds refill twice the capacity. So the
  expiry is never seen, and the level grows as if there were none.
\<close>

lemma redis_level_unexpired:
  assumes "redis_ok t hs" "t \<le> t'" "0 < rpm" and e: "hs (redis_bucket_key k) = Some ((tokens, ts), expiry)"
  shows "redis_level hs k rpm t' = min (of_int rpm) (tokens + (t' - ts) * (of_int rpm / 60))"
proof (cases "expiry \<le> t'")
  case True
  with redis_entry_ok [OF assms(1) e] have "120 \<le> t' - ts" "0 \<le> tokens" by auto
  have "of_int rpm \<le> 120 * (of_int rpm / 60 :: rat)" using assms(3) by simp
  also have "\<dots> \<le> (t' - ts) * (of_int rpm / 60)"
    using \<open>120 \<le> t' - ts\<close> assms(3) by (intro mult_right_mono) auto
  also have "\<dots> \<le> tokens + (t' - ts) * (of_int rpm / 60)" using \<open>0 \<le> tokens\<close> by simp
  finally have "of_int rpm \<le> tokens + (t' - ts) * (of_int rpm / 60)" .
  with True e show ?thesis by (simp add: redis_level_def live_hash_def)
next
  case False
  with redis_entry_ok [OF assms(1) e] assms(2) e show ?thesis
    by (simp add: redis_level_def live_hash_def)
qed

interpretation red: token_limiter redis_limiter_check redis_level redis_ok
proof unfold_locales
  fix t now t' :: seconds and s k k' and rpm rpm' :: int
  show "redis_level s k rpm t \<le> of_int rpm" by (rule redis_level_cap)
  show "redis_ok t s \<Longrightarrow> 0 < rpm \<Longrightarrow> 0 \<le> redis_level s k rpm t"
    by (rule redis_level_nonneg)
  show "redis_level (snd (redis_limiter_check now k rpm s)) k' rpm' t' = redis_level s k' rpm' t'"
    if "k' \<noteq> k"
  proof -
    have "\<exists>h. snd (redis_limiter_check now k rpm s) = s(redis_bucket_key k \<mapsto> h)"
      by (auto simp: redis_limiter_check_def redis_check_def server_script_call_def Let_def
          split: prod.splits)
    with that show ?thesis by (auto simp: redis_level_def live_hash_def)
  qed
  show "redis_level s k rpm t' =
      min (of_int rpm) (redis_level s k rpm t + (t' - t) * (of_int rpm / 60))"
    if a: "redis_ok t s" "t \<le> t'" "0 < rpm"
  proof (cases "s (redis_bucket_key k)")
    case None
    with a show ?thesis
      by (simp add: redis_level_def live_hash_def refill_full del: times_divide_eq_right)
  next
    case (Some e)
    then obtain tokens ts expiry where "s (redis_bucket_key k) = Some ((tokens, ts), expiry)"
      by (metis prod.collapse)
    from redis_level_unexpired [OF a this] redis_level_unexpired [OF a(1) order_refl a(3) this]
    show ?thesis using a by (simp add: refill_split del: times_divide_eq_right)
  qed
  assume a: "redis_ok t s" "t \<le> now" "0 < rpm"
  have nn: "0 \<le> redis_level s k rpm now"
    using a redis_level_nonneg redis_ok_mono by blast
  show "redis_ok now (snd (redis_limiter_check now k rpm s))"
    using a nn by (auto simp: redis_limiter_check_level Let_def intro: redis_ok_update)
  show "fst (redis_limiter_check now k rpm s) = (if 1 \<le> redis_level s k rpm now then Inr ()
      else Inl (RateLimitExceeded (Fin ((1 - redis_level s k rpm now) / (of_int rpm / 60)))))"
    using a by (simp add: redis_limiter_check_level Let_def)
  show "redis_level (snd (redis_limiter_check now k rpm s)) k rpm now =
      (if 1 \<le> redis_level s k rpm now then redis_level s k rpm now - 1
       else redis_level s k rpm now)"
    using a redis_level_cap [of s k rpm now]
    by (simp add: redis_limiter_check_level Let_def)
      (simp add: redis_level_def live_hash_def)
qed

interpretation mem_red: limiter_pair in_memory_check bucket_level buckets_ok
  redis_limiter_check redis_level redis_ok
  by unfold_locales

subsection \<open>The composition during an outage\<close>

text \<open>
  A world for the composition: how often the primary was called, the clock, the fallback's
  buckets. Redis is down: every call of the primary fails.
\<close>

type_synonym outage_world = "nat \<times> seconds \<times> buckets"

definition down_primary :: "outage_world check" where
  "down_primary key rpm s = (case s of (cb, n, c, bs) \<Rightarrow>
     (Inl RateLimiterUnavailable, (cb, n + 1, c, bs)))"

definition memory_fallback :: "outage_world check" where
  "memory_fallback key rpm s = (case s of (cb, n, c, bs) \<Rightarrow>
     (case in_memory_check c key rpm bs of (r, bs') \<Rightarrow> (r, (cb, n, c, bs'))))"

definition outage_check ::
  "seconds \<Rightarrow> uuid \<Rightarrow> int \<Rightarrow> circuit_breaker \<times> nat \<times> buckets
   \<Rightarrow> unit result \<times> (circuit_breaker \<times> nat \<times> buckets)" where
  "outage_check now key rpm s = (case s of (cb, n, bs) \<Rightarrow>
     (case resilient_check (\<lambda>w. fst (snd w)) down_primary memory_fallback key rpm (cb, n, now, bs) of
        (r, (cb', n', c', bs')) \<Rightarrow> (r, (cb', n', bs'))))"

fun outage_calls :: "(uuid \<Rightarrow> int) \<Rightarrow> (seconds \<times> uuid) list \<Rightarrow> circuit_breaker \<times> nat \<times> buckets \<Rightarrow> nat" where
  "outage_calls rpm_of [] s = fst (snd s)"
| "outage_calls rpm_of ((t, k) # es) s =
     outage_calls rpm_of es (snd (outage_check t k (rpm_of k) s))"

lemma outage_check_eq:
  "outage_check now key rpm (cb, n, bs) =
     (case cb_allow now cb of ((allowed, g), cb1) \<Rightarrow>
        (case in_memory_check now key rpm bs of (r, bs') \<Rightarrow>
           (if allowed then (r, (cb_record_failure now g cb1, n + 1, bs'))
            else (r, (cb1, n, bs')))))"
  by (simp add: outage_check_def resilient_check_def down_primary_def memory_fallback_def
      split: prod.splits)

lemma outage_decisions:
  "decisions outage_check rpm_of es (cb, n, bs) = decisions in_memory_check rpm_of es bs"
proof (induction es arbitrary: cb n bs)
  case (Cons e es)
  obtain t k where "e = (t, k)" by (cases e)
  then show ?case using Cons by (simp add: outage_check_eq split: prod.splits)
qed simp

lemma outage_open_calls:
  assumes "cb_state cb = OPEN"
    and "\<forall>(t, k) \<in> set es. t < cb_opened_at cb + cb_reset_timeout_s cb"
  shows "outage_calls rpm_of es (cb, n, bs) = n"
  using assms
proof (induction es arbitrary: bs)
  case (Cons e es)
  obtain t k where e: "e = (t, k)" by (cases e)
  obtain r bs' where m: "in_memory_check t k (rpm_of k) bs = (r, bs')"
    by (cases "in_memory_check t k (rpm_of k) bs")
  have "cb_allow t cb = ((False, cb_generation cb), cb)"
    using Cons.prems e by (simp add: cb_allow_def)
  with Cons e m show ?case by (simp add: outage_check_eq)
qed simp

lemma outage_closed_calls:
  assumes "cb_state cb = CLOSED" "cb_failures cb < cb_fail_threshold cb"
    and "\<forall>(t, k) \<in> set es. t0 \<le> t \<and> t < t0 + cb_reset_timeout_s cb"
  shows "int (outage_calls rpm_of es (cb, n, bs)) \<le> int n + cb_fail_threshold cb - cb_failures cb"
  using assms
proof (induction es arbitrary: cb n bs)
  case (Cons e es)
  obtain t k where e: "e = (t, k)" by (cases e)
  obtain r bs' where m: "in_memory_check t k (rpm_of k) bs = (r, bs')"
    by (cases "in_memory_check t k (rpm_of k) bs")
  let ?cb = "cb_record_failure t (cb_generation cb) cb"
  have step: "outage_calls rpm_of (e # es) (cb, n, bs) = outage_calls rpm_of es (?cb, n + 1, bs')"
    using Cons.prems e m by (simp add: outage_check_eq cb_allow_def)
  show ?case
  proof (cases "cb_fail_threshold cb \<le> cb_failures cb + 1")
    case True
    then have "cb_state ?cb = OPEN" "cb_opened_at ?cb = t" by (simp_all add: breaker_simps Let_def)
    moreover have "\<forall>(t', k') \<in> set es. t' < t + cb_reset_timeout_s cb"
      using Cons.prems e by fastforce
    ultimately show ?thesis
      using step outage_open_calls [of ?cb es rpm_of "n + 1" bs'] Cons.prems by simp
  next
    case False
    then have c: "cb_state ?cb = CLOSED" "cb_failures ?cb = cb_failures cb + 1"
      using Cons.prems by (simp_all add: breaker_simps Let_def)
    with False Cons.prems have
      "int (outage_calls rpm_of es (?cb, n + 1, bs')) \<le> int (n + 1) + cb_fail_threshold ?cb - cb_failures ?cb"
      by (intro Cons.IH) auto
    with step c show ?thesis by simp
  qed
qed simp

subsection \<open>Workers with different clocks\<close>

text \<open>
  Two workers whose wall clocks differ by \<open>d\<close> seconds check the same caller in turn, at
  server time \<open>st\<close>. The pair of checks spends two tokens, and the script credits
  \<open>d\<close> seconds of refill because it stores the slow worker's reading as the last refill.
\<close>

definition skewed_check :: "seconds \<Rightarrow> seconds \<Rightarrow> uuid \<Rightarrow> int \<Rightarrow> redis_hashes \<Rightarrow> unit result \<times> redis_hashes" where
  "skewed_check st now key rpm hs = redis_check (server_script_call st) now key rpm hs"

definition skew_state :: "seconds \<Rightarrow> seconds \<Rightarrow> uuid \<Rightarrow> redis_hashes \<Rightarrow> bool" where
  "skew_state st slow k hs = (hs (redis_bucket_key k) = None \<or>
     (\<exists>tokens. hs (redis_bucket_key k) = Some ((tokens, slow), st + 120) \<and> 0 \<le> tokens))"

lemma skewed_check_step:
  assumes "0 < rpm"
    and "live_hash st hs (redis_bucket_key k) = Some (tokens, ts)"
    and "1 \<le> min (of_int rpm) (tokens + max 0 (now - ts) * (of_int rpm / 60))"
  shows "skewed_check st now k rpm hs = (Inr (), hs(redis_bucket_key k \<mapsto>
    ((min (of_int rpm) (tokens + max 0 (now - ts) * (of_int rpm / 60)) - 1, now), st + 120)))"
  using assms by (auto simp: skewed_check_def redis_check_def server_script_call_def
      token_bucket_lua_def Let_def max_def simp del: times_divide_eq_right)

lemma skewed_check_new:
  assumes "1 \<le> rpm" and "hs (redis_bucket_key k) = None"
  shows "skewed_check st now k rpm hs =
    (Inr (), hs(redis_bucket_key k \<mapsto> ((of_int rpm - 1, now), st + 120)))"
  using assms by (simp add: skewed_check_def redis_check_def server_script_call_def
      token_bucket_lua_def live_hash_def)

lemma skewed_pair:
  assumes rpm: "2 \<le> rpm" and d: "2 \<le> d * (of_int rpm / 60)" and st: "skew_state st (T - d) k hs"
  shows "\<exists>hs'. skewed_check st T k rpm hs = (Inr (), hs') \<and>
    (\<exists>hs''. skewed_check st (T - d) k rpm hs' = (Inr (), hs'') \<and> skew_state st (T - d) k hs'')"
proof -
  let ?key = "redis_bucket_key k"
  have r: "0 < of_int rpm / (60::rat)" using rpm by simp
  have "0 < d * (of_int rpm / 60)" using d by linarith
  then have dpos: "0 < d" using r zero_less_mult_pos2 by blast
  have rpm2: "2 \<le> (of_int rpm :: rat)" using rpm by (metis of_int_le_iff of_int_numeral)
  obtain x hs' where x: "1 \<le> x" "x \<le> of_int rpm"
    and one: "skewed_check st T k rpm hs = (Inr (), hs')"
    and hs': "hs' = hs(?key \<mapsto> ((x, T), st + 120))"
  proof (cases "hs ?key")
    case None
    with rpm rpm2 that [of "of_int rpm - 1"] show ?thesis by (simp add: skewed_check_new)
  next
    case (Some e)
    with st obtain tokens where e: "hs ?key = Some ((tokens, T - d), st + 120)" and t: "0 \<le> tokens"
      by (auto simp: skew_state_def)
    have live: "live_hash st hs ?key = Some (tokens, T - d)" using e by (simp add: live_hash_def)
    let ?y = "min (of_int rpm) (tokens + max 0 (T - (T - d)) * (of_int rpm / 60))"
    have "tokens + max 0 (T - (T - d)) * (of_int rpm / 60) = tokens + d * (of_int rpm / 60)"
      using dpos by simp
    then have y: "2 \<le> ?y" using t d rpm2 by (simp del: times_divide_eq_right)
    show ?thesis
      using that [of "?y - 1"] skewed_check_step [OF _ live, of rpm T] rpm y by simp
  qed
  have live': "live_hash st hs' ?key = Some (x, T)" by (simp add: hs' live_hash_def)
  have z: "min (of_int rpm) (x + max 0 (T - d - T) * (of_int rpm / 60)) = x"
    using dpos x by simp
  have two: "skewed_check st (T - d) k rpm hs' = (Inr (), hs'(?key \<mapsto> ((x - 1, T - d), st + 120)))"
    using skewed_check_step [OF _ live', of rpm "T - d"] rpm x unfolding z by simp
  have "skew_state st (T - d) k (hs'(?key \<mapsto> ((x - 1, T - d), st + 120)))"
    using x by (simp add: skew_state_def)
  with one two show ?thesis by blast
qed

subsection \<open>Correctness properties\<close>

text \<open>
  C13. Over any period in which the clock does not go back, the in-memory limiter admits a
  caller at most as often as it had tokens at the start plus what the period refills:
  at most \<open>rpm\<close> plus \<open>rpm / 60\<close> per second, whatever other callers do.
\<close>

theorem in_memory_admission_bound:
  assumes "buckets_ok t0 bs" and "\<And>k. 0 < rpm_of k" and "clock_ordered es"
    and "\<forall>(t, k') \<in> set es. t0 \<le> t \<and> t \<le> t1" and "t0 \<le> t1"
  shows "of_nat (admitted k es (decisions in_memory_check rpm_of es bs))
    \<le> of_int (rpm_of k) + (t1 - t0) * (of_int (rpm_of k) / 60 :: rat)"
  using mem.admission_bound [of t0 bs rpm_of es t1 k] assms mem.level_cap [of bs k "rpm_of k" t0]
  by fastforce

text \<open>
  C14. The Redis limiter and the in-memory limiter are the same limiter: on any sequence of
  checks of any callers, at clock readings that do not go back, the Lua script on a working
  server gives exactly the answers of the in-memory bucket, retry times included. In
  particular the 120 second expiry of idle buckets is never observable.
\<close>

theorem redis_equals_in_memory:
  assumes "\<And>k. 0 < rpm_of k" and "clock_ordered es"
  shows "decisions redis_limiter_check rpm_of es Map.empty
    = decisions in_memory_check rpm_of es Map.empty"
proof (cases es)
  case (Cons e es')
  have "buckets_ok (fst e) Map.empty" "redis_ok (fst e) Map.empty"
    by (simp_all add: buckets_ok_def buckets_wf_def redis_ok_def redis_hashes_wf_def)
  moreover have "bucket_level Map.empty k r t = redis_level Map.empty k r t" for k r t
    by (simp add: bucket_level_def redis_level_def live_hash_def)
  moreover have "\<forall>(t, k') \<in> set es. fst e \<le> t"
    using assms(2) Cons by (auto simp: clock_ordered_def)
  ultimately show ?thesis
    using mem_red.same_decisions assms by metis
qed simp

text \<open>
  The wait reported with a denial by the Redis limiter is exact: a caller that comes
  back after it, with no check of its own in between, is admitted, and one that comes back
  earlier is denied again.
\<close>

theorem redis_retry_after_exact:
  assumes "redis_ok t hs" "t \<le> now" "0 < rpm"
    and "redis_limiter_check now k rpm hs = (Inl (RateLimitExceeded (Fin wait)), hs')"
    and "now \<le> now'"
  shows "fst (redis_limiter_check now' k rpm hs') = Inr () \<longleftrightarrow> now + wait \<le> now'"
  by (rule red.retry_after_exact [OF assms])


text \<open>
  The composed limiter never surfaces \<open>RateLimiterUnavailable\<close> to the request
  when its fallback does not, and it keeps the breaker well formed, whatever the primary
  answers and whatever well-formed interference the breaker sees meanwhile.
\<close>

theorem resilient_check_available:
  assumes "\<And>k r s. fst (fallback k r s) \<noteq> Inl RateLimiterUnavailable"
    and "\<And>k r s. cb_wf (fst s) \<Longrightarrow> cb_wf (fst (snd (primary k r s)))"
    and "\<And>k r s. cb_wf (fst s) \<Longrightarrow> cb_wf (fst (snd (fallback k r s)))"
    and "cb_wf cb"
  shows "fst (resilient_check clock primary fallback key rpm (cb, w)) \<noteq> Inl RateLimiterUnavailable
    \<and> cb_wf (fst (snd (resilient_check clock primary fallback key rpm (cb, w))))"
proof -
  obtain ok g cb1 where al: "cb_allow (clock w) cb = ((ok, g), cb1)"
    by (metis prod.collapse)
  have wf1: "cb_wf cb1" using cbg.invar_allow [OF assms(4), of "clock w"] al by simp
  obtain r cb2 w2 where p: "primary key rpm (cb1, w) = (r, (cb2, w2))"
    by (metis prod.collapse)
  have wf2: "cb_wf cb2" using assms(2) [of "(cb1, w)" key rpm] wf1 p by simp
  show ?thesis
    using al p wf1 wf2 assms(1,3)
    by (auto simp: resilient_check_def cb_wf_success cb_wf_failure split: sum.splits exn.splits)
qed

text \<open>
  A request that is cancelled while it probes Redis as the half-open trial leaks the
  trial: \<open>ResilientRateLimiter.check\<close> reports only the two exceptions it expects, so the
  breaker stays half open with its trial in flight and, whatever time passes and whatever
  the primary would answer, no later check ever reaches Redis again.
\<close>

theorem cancelled_probe_disables_redis:
  assumes "cb_state cb = OPEN" and "cb_reset_timeout_s cb \<le> clock w - cb_opened_at cb"
    and "\<And>s. primary key rpm s = (Inl CancelledError, s)"
    and "resilient_check clock primary fallback key rpm (cb, w) = (res, (cb', w'))"
  shows "res = Inl CancelledError \<and> cb_state cb' = HALF_OPEN \<and>
    resilient_check clock2 primary2 fallback key2 rpm2 (cb', w2) = fallback key2 rpm2 (cb', w2)"
  using assms by (auto simp: resilient_check_def breaker_simps Let_def)

text \<open>
  With workers whose wall clocks differ, the shared Redis bucket does not limit at all:
  when the difference refills two tokens or more, a caller whose requests alternate between
  the two workers is admitted every time, any number of times at the same instant.
\<close>

theorem redis_clock_skew_unbounded:
  assumes "2 \<le> rpm" and "2 \<le> d * (of_int rpm / 60)"
  shows "decisions (skewed_check st) (\<lambda>_. rpm) (concat (replicate n [(T, k), (T - d, k)])) Map.empty
    = replicate (2 * n) (Inr ())"
proof -
  have "skew_state st (T - d) k hs \<Longrightarrow>
      decisions (skewed_check st) (\<lambda>_. rpm) (concat (replicate n [(T, k), (T - d, k)])) hs
        = replicate (2 * n) (Inr ())" for hs
  proof (induction n arbitrary: hs)
    case (Suc n)
    obtain hs' hs'' where "skewed_check st T k rpm hs = (Inr (), hs')"
      "skewed_check st (T - d) k rpm hs' = (Inr (), hs'')" "skew_state st (T - d) k hs''"
      using skewed_pair [OF assms Suc.prems] by blast
    with Suc.IH show ?case by simp
  qed simp
  then show ?thesis by (simp add: skew_state_def)
qed

subsection \<open>Concrete instances\<close>

theorem in_memory_admission_bound_witness:
  "of_nat (admitted 7 [(0, 7), (0, 8), (0, 7), (30, 7)]
     (decisions in_memory_check (\<lambda>_. 1) [(0, 7), (0, 8), (0, 7), (30, 7)] Map.empty))
   \<le> of_int 1 + (30 - 0) * (of_int 1 / 60 :: rat)"
proof -
  have h: "buckets_ok 0 Map.empty" "clock_ordered [(0, 7), (0, 8), (0, 7), (30, 7 :: uuid)]"
    by (simp_all add: buckets_ok_def buckets_wf_def clock_ordered_def)
  show ?thesis
    using in_memory_admission_bound [OF h(1) _ h(2), of "\<lambda>_. 1" 30 7] by simp
qed

theorem redis_equals_in_memory_witness:
  "decisions redis_limiter_check (\<lambda>_. 1) [(0, 5), (10, 5), (200, 5)] Map.empty
     = decisions in_memory_check (\<lambda>_. 1) [(0, 5), (10, 5), (200, 5)] Map.empty"
  by (rule redis_equals_in_memory) (simp_all add: clock_ordered_def)

theorem redis_retry_after_exact_witness:
  "redis_limiter_check 10 5 60 [redis_bucket_key 5 \<mapsto> ((1/2, 10), 130)] =
     (Inl (RateLimitExceeded (Fin (1/2))), [redis_bucket_key 5 \<mapsto> ((1/2, 10), 130)]) \<and>
   fst (redis_limiter_check (21/2) 5 60 [redis_bucket_key 5 \<mapsto> ((1/2, 10), 130)]) = Inr ()"
proof -
  let ?hs = "[redis_bucket_key 5 \<mapsto> ((1/2, 10), 130)]"
  have ok: "redis_ok 10 ?hs" by (simp add: redis_ok_def redis_hashes_wf_def)
  have d: "redis_limiter_check 10 5 60 ?hs = (Inl (RateLimitExceeded (Fin (1/2))), ?hs)"
    by (simp add: redis_limiter_check_level redis_level_def live_hash_def Let_def)
  from redis_retry_after_exact [OF ok _ _ d, of "21/2"] d show ?thesis by simp
qed


theorem resilient_check_available_witness:
  "fst (resilient_check (\<lambda>w. fst (snd w)) down_primary memory_fallback 5 60
      (cb_init 3 10, 0, 0, Map.empty)) \<noteq> Inl RateLimiterUnavailable"
proof -
  have nf: "fst (memory_fallback k r s) \<noteq> Inl RateLimiterUnavailable" for k r s
    by (simp add: memory_fallback_def in_memory_check_level Let_def split: prod.splits)
  have p: "cb_wf (fst s) \<Longrightarrow> cb_wf (fst (snd (down_primary k r s)))" for k r s
    by (auto simp: down_primary_def split: prod.splits)
  have f: "cb_wf (fst s) \<Longrightarrow> cb_wf (fst (snd (memory_fallback k r s)))" for k r s
    by (auto simp: memory_fallback_def split: prod.splits)
  show ?thesis
    by (rule conjunct1 [OF resilient_check_available]) (simp_all add: nf p f cb_wf_init)
qed

theorem cancelled_probe_disables_redis_witness:
  "cb_state (brk run_half_open) = HALF_OPEN \<and>
   resilient_check (\<lambda>_. 1000000) (\<lambda>key rpm s. (Inr (), s)) (\<lambda>key rpm s. (Inl Unauthorized, s)) 5 60
     (brk run_half_open, ()) = (Inl Unauthorized, (brk run_half_open, ()))"
proof -
  let ?p = "\<lambda>key rpm s. (Inl CancelledError, s)" and ?f = "\<lambda>key rpm s. (Inl Unauthorized, s)"
  have o: "cb_state (brk run_open) = OPEN"
    "cb_reset_timeout_s (brk run_open) \<le> (\<lambda>_. 10) () - cb_opened_at (brk run_open)"
    by (simp_all add: run_open_def)
  have c: "resilient_check (\<lambda>_. 10) ?p ?f 5 60 (brk run_open, ())
      = (Inl CancelledError, (brk run_half_open, ()))"
    by (simp add: resilient_check_def run_open_def run_half_open_def breaker_simps Let_def)
  from cancelled_probe_disables_redis [OF o _ c, of "\<lambda>_. 1000000" "\<lambda>key rpm s. (Inr (), s)" 5 60 "()"]
  show ?thesis by auto
qed

theorem redis_clock_skew_unbounded_witness:
  "decisions (skewed_check 500) (\<lambda>_. 60) (concat (replicate 1000 [(502, 5), (502 - 2, 5)])) Map.empty
     = replicate (2 * 1000) (Inr ())"
  by (rule redis_clock_skew_unbounded) simp_all

end
