(* ===== verification/Routing.thy ===== *)
theory Routing
  imports Relayix_Domain
begin

text \<open>
  Routing (\<open>app/core/routing/strategies.py\<close>, \<open>app/core/routing/router.py\<close>): candidates,
  model metadata, the ranking strategies, the catalog and registry with their start-up
  validation, and the service that turns a tier into an ordered list of candidates.
  The interface of a strategy is the locale \<open>ranking\<close>, interpreted on every strategy.
\<close>

subsection \<open>Strategies\<close>

record candidate =
  cand_provider :: provider_enum
  cand_model :: string

record model_metadata =
  mm_provider :: provider_enum
  mm_input_cost :: rat
  mm_output_cost :: rat
  mm_reasoning_score :: int
  mm_latency_score :: int

type_synonym registry = "string \<Rightarrow> model_metadata option"

text \<open>
  \<open>{provider: index for index, provider in enumerate(order)}\<close>: a later duplicate
  overwrites an earlier one; \<open>len\<close> counts the distinct providers.
\<close>

definition priority_rank :: "provider_enum list \<Rightarrow> provider_enum \<Rightarrow> nat option" where
  "priority_rank order = map_of (rev (zip order [0..<length order]))"

definition priority_key :: "provider_enum list \<Rightarrow> candidate \<Rightarrow> nat" where
  "priority_key order c =
     (case priority_rank order (cand_provider c) of
        None \<Rightarrow> length (remdups order) | Some i \<Rightarrow> i)"

definition priority_strategy_rank :: "provider_enum list \<Rightarrow> candidate list \<Rightarrow> candidate list" where
  "priority_strategy_rank order cs = py_sorted (priority_key order) False cs"

text \<open>\<open>MetadataStrategy.rank\<close>, for a metric and a direction.\<close>

definition metadata_key ::
  "bool \<Rightarrow> (model_metadata \<Rightarrow> rat) \<Rightarrow> registry \<Rightarrow> candidate \<Rightarrow> pyfloat" where
  "metadata_key higher_is_better metric registry c =
     (let worst = (if higher_is_better then NegInf else PosInf)
      in case registry (cand_model c) of None \<Rightarrow> worst | Some meta \<Rightarrow> Fin (metric meta))"

definition metadata_strategy_rank ::
  "bool \<Rightarrow> (model_metadata \<Rightarrow> rat) \<Rightarrow> registry \<Rightarrow> candidate list \<Rightarrow> candidate list" where
  "metadata_strategy_rank higher_is_better metric registry cs =
     py_sorted (metadata_key higher_is_better metric registry) higher_is_better cs"

definition cost_metric :: "model_metadata \<Rightarrow> rat" where
  "cost_metric meta = mm_input_cost meta + mm_output_cost meta"

definition reasoning_metric :: "model_metadata \<Rightarrow> rat" where
  "reasoning_metric meta = of_int (mm_reasoning_score meta)"

definition latency_metric :: "model_metadata \<Rightarrow> rat" where
  "latency_metric meta = of_int (mm_latency_score meta)"

datatype routing_strategy =
    PriorityStrategy "provider_enum list"
  | CostStrategy registry
  | ReasoningStrategy registry
  | LatencyStrategy registry

fun rank :: "routing_strategy \<Rightarrow> candidate list \<Rightarrow> candidate list" where
  "rank (PriorityStrategy order) cs = priority_strategy_rank order cs"
| "rank (CostStrategy reg) cs = metadata_strategy_rank False cost_metric reg cs"
| "rank (ReasoningStrategy reg) cs = metadata_strategy_rank True reasoning_metric reg cs"
| "rank (LatencyStrategy reg) cs = metadata_strategy_rank True latency_metric reg cs"

subsection \<open>Catalog, registry and their validation\<close>

type_synonym catalog = "(string \<times> candidate list) list"

abbreviation Candidate :: "provider_enum \<Rightarrow> string \<Rightarrow> candidate" where
  "Candidate p m \<equiv> \<lparr>cand_provider = p, cand_model = m\<rparr>"

abbreviation ModelMetadata ::
  "provider_enum \<Rightarrow> rat \<Rightarrow> rat \<Rightarrow> int \<Rightarrow> int \<Rightarrow> model_metadata" where
  "ModelMetadata p i out r l \<equiv> \<lparr>mm_provider = p, mm_input_cost = i, mm_output_cost = out,
     mm_reasoning_score = r, mm_latency_score = l\<rparr>"

definition DEFAULT_CATALOG :: catalog where
  "DEFAULT_CATALOG =
     [(''default'', [Candidate OPENAI ''gpt-4o'', Candidate ANTHROPIC ''claude-sonnet-5'']),
      (''reasoning'', [Candidate OPENAI ''o3'', Candidate ANTHROPIC ''claude-opus-4-8'']),
      (''low_cost'', [Candidate OPENAI ''gpt-4o-mini'', Candidate ANTHROPIC ''claude-haiku-4-5''])]"

definition MODEL_REGISTRY :: registry where
  "MODEL_REGISTRY = map_of
     [(''gpt-4o'', ModelMetadata OPENAI (25/10000) (10/1000) 80 70),
      (''gpt-4o-mini'', ModelMetadata OPENAI (15/100000) (6/10000) 55 95),
      (''o3'', ModelMetadata OPENAI (10/1000) (40/1000) 98 30),
      (''claude-sonnet-5'', ModelMetadata ANTHROPIC (3/1000) (15/1000) 88 68),
      (''claude-opus-4-8'', ModelMetadata ANTHROPIC (5/1000) (25/1000) 97 45),
      (''claude-haiku-4-5'', ModelMetadata ANTHROPIC (1/1000) (5/1000) 70 92)]"

definition DEFAULT_PRIORITY :: "provider_enum list" where
  "DEFAULT_PRIORITY = [OPENAI, ANTHROPIC]"

text \<open>The two nested loops of \<open>validate_registry\<close>; the first mismatch raises.\<close>

fun validate_tier :: "string \<Rightarrow> candidate list \<Rightarrow> registry \<Rightarrow> unit result" where
  "validate_tier tier [] registry = Inr ()"
| "validate_tier tier (c # cs) registry =
     (case registry (cand_model c) of
        None \<Rightarrow> Inl (ValueError [Lit ''tier '', ReprS tier, Lit '': model '',
          ReprS (cand_model c), Lit '' has no entry in MODEL_REGISTRY''])
      | Some meta \<Rightarrow>
          if mm_provider meta \<noteq> cand_provider c then
            Inl (ValueError [Lit ''tier '', ReprS tier, Lit '': model '', ReprS (cand_model c),
              Lit '' is registered under '', StrP (mm_provider meta),
              Lit '' but the catalog lists it under '', StrP (cand_provider c)])
          else validate_tier tier cs registry)"

fun validate_registry :: "catalog \<Rightarrow> registry \<Rightarrow> unit result" where
  "validate_registry [] registry = Inr ()"
| "validate_registry ((tier, cs) # rest) registry =
     (case validate_tier tier cs registry of
        Inl e \<Rightarrow> Inl e | Inr u \<Rightarrow> validate_registry rest registry)"

subsection \<open>The routing service\<close>

record routing_service =
  rs_catalog :: catalog
  rs_strategies :: "(string \<times> routing_strategy) list"
  rs_default_strategy :: routing_strategy

definition candidates_for :: "routing_service \<Rightarrow> string \<Rightarrow> candidate list result" where
  "candidates_for svc model =
     (case map_of (rs_catalog svc) model of
        None \<Rightarrow> Inl (ProviderNotAvailable [Lit ''unknown routing tier '', ReprS model])
      | Some [] \<Rightarrow> Inl (ProviderNotAvailable [Lit ''unknown routing tier '', ReprS model])
      | Some (c # cs) \<Rightarrow>
          (let strategy = (case map_of (rs_strategies svc) model of
                             None \<Rightarrow> rs_default_strategy svc | Some st \<Rightarrow> st)
           in Inr (rank strategy (c # cs))))"

definition build_router ::
  "catalog option \<Rightarrow> provider_enum list option \<Rightarrow> registry option
   \<Rightarrow> (string \<times> routing_strategy) list option \<Rightarrow> routing_service result" where
  "build_router catalog_arg priority_arg registry_arg strategies_arg =
     (let catalog = (case catalog_arg of None \<Rightarrow> DEFAULT_CATALOG | Some c \<Rightarrow> c);
          registry = (case registry_arg of None \<Rightarrow> MODEL_REGISTRY | Some r \<Rightarrow> r)
      in case validate_registry catalog registry of
           Inl e \<Rightarrow> Inl e
         | Inr u \<Rightarrow>
             Inr \<lparr>rs_catalog = catalog,
                  rs_strategies = (case strategies_arg of
                     None \<Rightarrow> [(''reasoning'', ReasoningStrategy registry),
                              (''low_cost'', CostStrategy registry)]
                   | Some s \<Rightarrow> s),
                  rs_default_strategy = PriorityStrategy
                    (case priority_arg of None \<Rightarrow> DEFAULT_PRIORITY | Some p \<Rightarrow> p)\<rparr>)"

subsection \<open>The interface of a strategy\<close>

text \<open>
  What a strategy prefers: \<open>strategy_better st a b\<close> when \<open>a\<close> has to be tried before \<open>b\<close>.
\<close>

fun strategy_better :: "routing_strategy \<Rightarrow> candidate \<Rightarrow> candidate \<Rightarrow> bool" where
  "strategy_better (PriorityStrategy order) a b = (priority_key order a < priority_key order b)"
| "strategy_better (CostStrategy reg) a b =
     (metadata_key False cost_metric reg a < metadata_key False cost_metric reg b)"
| "strategy_better (ReasoningStrategy reg) a b =
     (metadata_key True reasoning_metric reg b < metadata_key True reasoning_metric reg a)"
| "strategy_better (LatencyStrategy reg) a b =
     (metadata_key True latency_metric reg b < metadata_key True latency_metric reg a)"

text \<open>
  A ranking reorders the candidates, puts none after one it is preferred to, and keeps the
  catalog's order among candidates it does not distinguish.
\<close>

locale ranking =
  fixes rk :: "candidate list \<Rightarrow> candidate list"
    and better :: "candidate \<Rightarrow> candidate \<Rightarrow> bool"
  assumes rank_mset: "mset (rk cs) = mset cs"
    and rank_order: "sorted_wrt (\<lambda>a b. \<not> better b a) (rk cs)"
    and rank_ties: "(\<And>a b. a \<in> set cs \<Longrightarrow> b \<in> set cs \<Longrightarrow> \<not> better a b) \<Longrightarrow> rk cs = cs"
begin

lemma rank_set: "set (rk cs) = set cs"
  using rank_mset mset_eq_setD by blast

lemma rank_nonempty: "rk cs = [] \<longleftrightarrow> cs = []"
  using rank_mset [of cs] by (metis mset_zero_iff)

lemma rank_distinct: "distinct (rk cs) = distinct cs"
  using rank_mset [of cs] mset_eq_imp_distinct_iff by blast

lemma rank_best_first:
  assumes "rk cs = c # rest" and "d \<in> set cs" and "d \<noteq> c"
  shows "\<not> better d c"
  using rank_order [of cs] assms rank_set [of cs] by auto

lemma rank_singleton: "rk [c] = [c]"
  using rank_mset [of "[c]"] by simp

end

lemma sorted_wrt_key:
  "sorted (map f xs) \<longleftrightarrow> sorted_wrt (\<lambda>a b. \<not> f b < f a) xs"
  by (simp add: sorted_map not_less)

lemma py_sorted_ties:
  assumes "\<And>a b. a \<in> set xs \<Longrightarrow> b \<in> set xs \<Longrightarrow> \<not> f a < f b"
  shows "py_sorted f r xs = xs"
proof (cases xs)
  case (Cons x ys)
  have "\<forall>a \<in> set xs. f a = f x"
    using assms Cons by (metis antisym_conv3 list.set_intros(1))
  then have "filter (\<lambda>a. f a = f x) xs = xs"
    and "filter (\<lambda>a. f a = f x) (py_sorted f r xs) = py_sorted f r xs"
    by (auto simp: filter_id_conv)
  then show ?thesis using py_sorted_stable [of f "f x" r xs] by simp
qed (simp add: py_sorted_def)

lemma py_sorted_ranking_asc: "ranking (py_sorted f False) (\<lambda>a b. f a < f b)"
  using py_sorted_asc [of f] by unfold_locales (auto simp: sorted_wrt_key intro: py_sorted_ties)

lemma py_sorted_ranking_desc: "ranking (py_sorted f True) (\<lambda>a b. f b < f a)"
proof unfold_locales
  fix cs
  have "sorted_wrt (\<lambda>a b. \<not> f b < f a) (rev (py_sorted f True cs))"
    using py_sorted_desc [of f cs] by (simp add: sorted_wrt_key rev_map)
  then show "sorted_wrt (\<lambda>a b. \<not> f a < f b) (py_sorted f True cs)"
    by (simp add: sorted_wrt_rev)
qed (auto intro: py_sorted_ties)

interpretation strat: ranking "rank st" "strategy_better st" for st
proof (cases st)
  case (PriorityStrategy order)
  then show "ranking (rank st) (strategy_better st)"
    using py_sorted_ranking_asc [of "priority_key order"]
    by (simp add: ranking_def priority_strategy_rank_def)
next
  case (CostStrategy reg)
  then show "ranking (rank st) (strategy_better st)"
    using py_sorted_ranking_asc [of "metadata_key False cost_metric reg"]
    by (simp add: ranking_def metadata_strategy_rank_def)
next
  case (ReasoningStrategy reg)
  then show "ranking (rank st) (strategy_better st)"
    using py_sorted_ranking_desc [of "metadata_key True reasoning_metric reg"]
    by (simp add: ranking_def metadata_strategy_rank_def)
next
  case (LatencyStrategy reg)
  then show "ranking (rank st) (strategy_better st)"
    using py_sorted_ranking_desc [of "metadata_key True latency_metric reg"]
    by (simp add: ranking_def metadata_strategy_rank_def)
qed

subsection \<open>Validation\<close>

definition candidate_registered :: "registry \<Rightarrow> candidate \<Rightarrow> bool" where
  "candidate_registered registry c =
     (case registry (cand_model c) of None \<Rightarrow> False
      | Some meta \<Rightarrow> mm_provider meta = cand_provider c)"

lemma validate_tier_ok:
  "validate_tier tier cs registry = Inr () \<longleftrightarrow> (\<forall>c \<in> set cs. candidate_registered registry c)"
  by (induction cs) (auto simp: candidate_registered_def split: option.splits)

lemma validate_tier_Inl:
  "validate_tier tier cs registry = Inl e \<Longrightarrow> \<exists>m. e = ValueError m"
  by (induction cs) (auto split: option.splits if_splits)

lemma validate_registry_ok:
  "validate_registry catalog registry = Inr () \<longleftrightarrow>
     (\<forall>(tier, cs) \<in> set catalog. \<forall>c \<in> set cs. candidate_registered registry c)"
proof (induction catalog)
  case (Cons entry rest)
  obtain tier cs where e: "entry = (tier, cs)" by (cases entry)
  with Cons validate_tier_ok [of tier cs registry] show ?case
    by (cases "validate_tier tier cs registry") auto
qed simp

lemma candidates_for_Inr:
  "candidates_for svc tier = Inr cs \<longleftrightarrow>
     (\<exists>listed. map_of (rs_catalog svc) tier = Some listed \<and> listed \<noteq> [] \<and>
        cs = rank (case map_of (rs_strategies svc) tier of
                     None \<Rightarrow> rs_default_strategy svc | Some st \<Rightarrow> st) listed)"
  by (auto simp: candidates_for_def split: option.splits list.splits)

lemma build_router_valid:
  assumes "build_router cat prio reg strats = Inr svc"
  shows "validate_registry (rs_catalog svc) (case reg of None \<Rightarrow> MODEL_REGISTRY | Some r \<Rightarrow> r) = Inr ()"
  using assms by (auto simp: build_router_def Let_def split: sum.splits)

lemma metadata_key_registered:
  assumes "candidate_registered reg a" and "candidate_registered reg b"
  shows "metadata_key h metric reg a < metadata_key h metric reg b \<longleftrightarrow>
    metric (the (reg (cand_model a))) < metric (the (reg (cand_model b)))"
  using assms by (auto simp: metadata_key_def candidate_registered_def less_pyfloat_def
      split: option.splits)

lemma sorted_wrt_cong_set:
  assumes "sorted_wrt P xs" and "\<And>a b. a \<in> set xs \<Longrightarrow> b \<in> set xs \<Longrightarrow> P a b \<Longrightarrow> Q a b"
  shows "sorted_wrt Q xs"
  using assms by (induction xs) auto

lemma build_router_candidates:
  assumes b: "build_router cat prio (Some reg) strats = Inr svc"
    and c: "candidates_for svc tier = Inr cs"
  shows "\<forall>c \<in> set cs. candidate_registered reg c"
proof -
  obtain listed where l: "map_of (rs_catalog svc) tier = Some listed"
    and cs: "set cs = set listed"
    using c by (auto simp: candidates_for_Inr strat.rank_set)
  have "validate_registry (rs_catalog svc) reg = Inr ()"
    using build_router_valid [OF b] by simp
  with map_of_SomeD [OF l] cs show ?thesis by (auto simp: validate_registry_ok)
qed

subsection \<open>Correctness properties\<close>


text \<open>
  The start-up validation succeeds exactly when every candidate of every tier has a
  registry entry under its own provider, and otherwise raises \<open>ValueError\<close>.
\<close>

theorem validate_registry_iff:
  "(validate_registry catalog registry = Inr () \<longleftrightarrow>
      list_all (\<lambda>(tier, cs). list_all (candidate_registered registry) cs) catalog)
   \<and> (\<forall>e. validate_registry catalog registry = Inl e \<longrightarrow> (\<exists>m. e = ValueError m))"
proof -
  have "validate_registry catalog registry = Inl e \<Longrightarrow> \<exists>m. e = ValueError m" for e
    by (induction catalog registry rule: validate_registry.induct)
      (auto split: sum.splits dest: validate_tier_Inl)
  then show ?thesis by (auto simp: validate_registry_ok list_all_iff)
qed

text \<open>
  In a router built with the default per-tier strategies over any catalog and registry
  that pass validation, the candidates of the \<open>low_cost\<close> tier come back in ascending
  order of their real input plus output price, and those of the \<open>reasoning\<close> tier in
  descending order of their reasoning score; the missing-metadata fallback never applies.
\<close>

theorem built_router_order:
  assumes "build_router cat prio (Some reg) None = Inr svc"
  shows "(candidates_for svc ''low_cost'' = Inr cs \<longrightarrow>
      sorted (map (\<lambda>c. cost_metric (the (reg (cand_model c)))) cs)) \<and>
    (candidates_for svc ''reasoning'' = Inr cs \<longrightarrow>
      sorted (rev (map (\<lambda>c. mm_reasoning_score (the (reg (cand_model c)))) cs)))"
proof -
  have st: "rs_strategies svc = [(''reasoning'', ReasoningStrategy reg), (''low_cost'', CostStrategy reg)]"
    using assms by (auto simp: build_router_def Let_def split: sum.splits)
  have reg: "\<forall>c \<in> set cs. candidate_registered reg c"
    if "candidates_for svc tier = Inr cs" for tier
    using build_router_candidates [OF assms that] .
  have low: "sorted (map (\<lambda>c. cost_metric (the (reg (cand_model c)))) cs)"
    if l: "candidates_for svc ''low_cost'' = Inr cs"
  proof -
    have "sorted_wrt (\<lambda>a b. \<not> strategy_better (CostStrategy reg) b a) cs"
      using l by (auto simp: candidates_for_Inr st strat.rank_order
          simp del: rank.simps strategy_better.simps)
    then have "sorted_wrt (\<lambda>a b. cost_metric (the (reg (cand_model a)))
        \<le> cost_metric (the (reg (cand_model b)))) cs"
      by (rule sorted_wrt_cong_set) (use reg [OF l] in \<open>auto simp: metadata_key_registered not_less\<close>)
    then show ?thesis by (simp add: sorted_map)
  qed
  have hi: "sorted (rev (map (\<lambda>c. mm_reasoning_score (the (reg (cand_model c)))) cs))"
    if l: "candidates_for svc ''reasoning'' = Inr cs"
  proof -
    have "sorted_wrt (\<lambda>a b. \<not> strategy_better (ReasoningStrategy reg) b a) cs"
      using l by (auto simp: candidates_for_Inr st strat.rank_order
          simp del: rank.simps strategy_better.simps)
    then have "sorted_wrt (\<lambda>a b. mm_reasoning_score (the (reg (cand_model b)))
        \<le> mm_reasoning_score (the (reg (cand_model a)))) cs"
      by (rule sorted_wrt_cong_set)
        (use reg [OF l] in \<open>auto simp: metadata_key_registered not_less reasoning_metric_def\<close>)
    then show ?thesis by (simp add: sorted_map rev_map sorted_wrt_rev)
  qed
  from low hi show ?thesis by blast
qed

text \<open>
  The shipped catalog and registry pass validation, and the shipped router resolves its
  three tiers to the orders the documentation lists; any other tier is unavailable.
\<close>

theorem default_router_tiers:
  "\<exists>svc. build_router None None None None = Inr svc \<and>
     candidates_for svc ''default'' =
       Inr [Candidate OPENAI ''gpt-4o'', Candidate ANTHROPIC ''claude-sonnet-5''] \<and>
     candidates_for svc ''reasoning'' =
       Inr [Candidate OPENAI ''o3'', Candidate ANTHROPIC ''claude-opus-4-8''] \<and>
     candidates_for svc ''low_cost'' =
       Inr [Candidate OPENAI ''gpt-4o-mini'', Candidate ANTHROPIC ''claude-haiku-4-5''] \<and>
     candidates_for svc ''gpt-4o'' =
       Inl (ProviderNotAvailable [Lit ''unknown routing tier '', ReprS ''gpt-4o''])"
proof -
  let ?svc = "\<lparr>rs_catalog = DEFAULT_CATALOG,
    rs_strategies = [(''reasoning'', ReasoningStrategy MODEL_REGISTRY),
                     (''low_cost'', CostStrategy MODEL_REGISTRY)],
    rs_default_strategy = PriorityStrategy DEFAULT_PRIORITY\<rparr>"
  have "validate_registry DEFAULT_CATALOG MODEL_REGISTRY = Inr ()"
    by (simp add: DEFAULT_CATALOG_def MODEL_REGISTRY_def)
  then have "build_router None None None None = Inr ?svc" by (simp add: build_router_def)
  then show ?thesis
    by (intro exI [of _ ?svc])
      (simp add: DEFAULT_CATALOG_def MODEL_REGISTRY_def candidates_for_def
        priority_strategy_rank_def metadata_strategy_rank_def py_sorted_def priority_key_def
        priority_rank_def DEFAULT_PRIORITY_def metadata_key_def cost_metric_def
        reasoning_metric_def less_pyfloat_def)
qed


theorem validate_registry_iff_witness:
  "list_all (\<lambda>(tier, cs). list_all (candidate_registered MODEL_REGISTRY) cs) DEFAULT_CATALOG \<and>
   (\<exists>m. validate_registry DEFAULT_CATALOG Map.empty = Inl (ValueError m))"
proof -
  have ok: "validate_registry DEFAULT_CATALOG MODEL_REGISTRY = Inr ()"
    by (simp add: DEFAULT_CATALOG_def MODEL_REGISTRY_def)
  obtain e where bad: "validate_registry DEFAULT_CATALOG Map.empty = Inl e"
    by (simp add: DEFAULT_CATALOG_def)
  show ?thesis
    using validate_registry_iff [of DEFAULT_CATALOG MODEL_REGISTRY] ok
      validate_registry_iff [of DEFAULT_CATALOG Map.empty] bad by blast
qed

text \<open>Two swapped candidates of a tier are put back in price order.\<close>

theorem built_router_order_witness:
  "\<exists>svc cs. build_router (Some [(''low_cost'', [Candidate ANTHROPIC ''claude-haiku-4-5'',
        Candidate OPENAI ''gpt-4o-mini''])]) None (Some MODEL_REGISTRY) None = Inr svc \<and>
     candidates_for svc ''low_cost'' = Inr cs \<and>
     sorted (map (\<lambda>c. cost_metric (the (MODEL_REGISTRY (cand_model c)))) cs)"
proof -
  obtain svc where b: "build_router (Some [(''low_cost'', [Candidate ANTHROPIC ''claude-haiku-4-5'',
        Candidate OPENAI ''gpt-4o-mini''])]) None (Some MODEL_REGISTRY) None = Inr svc"
    by (auto simp: build_router_def MODEL_REGISTRY_def Let_def)
  then have "map_of (rs_catalog svc) ''low_cost'' =
      Some [Candidate ANTHROPIC ''claude-haiku-4-5'', Candidate OPENAI ''gpt-4o-mini'']"
    by (auto simp: build_router_def Let_def split: sum.splits)
  then obtain cs where c: "candidates_for svc ''low_cost'' = Inr cs"
    by (auto simp: candidates_for_def)
  from built_router_order [OF b, of cs] b c show ?thesis by blast
qed

end
