(* ===== verification/Accounting.thy ===== *)
theory Accounting
  imports Relayix_Domain
begin

text \<open>
  Accounting (\<open>app/core/accounting\<close>): the prompt-token counters and their registry, the
  pricing table with its history of rates, and the recorder that prices a finished response
  and saves it. Tiktoken is a parameter of the OpenAI counter; the repository port is the
  parameter \<open>save\<close> of the recorder, and its contract is the locale \<open>usage_sink\<close>.
\<close>

subsection \<open>Token counters\<close>

definition TOKENS_PER_MESSAGE :: int where "TOKENS_PER_MESSAGE = 3"
definition TOKENS_PER_REPLY :: int where "TOKENS_PER_REPLY = 3"
definition CHARS_PER_TOKEN :: rat where "CHARS_PER_TOKEN = 7 / 2"

fun anthropic_count_loop :: "int \<Rightarrow> message list \<Rightarrow> int" where
  "anthropic_count_loop acc [] = acc"
| "anthropic_count_loop acc (m # ms) =
     anthropic_count_loop
       (acc + TOKENS_PER_MESSAGE
          + \<lceil>of_nat (length (msg_content m)) / CHARS_PER_TOKEN\<rceil>
          + \<lceil>of_nat (length (msg_role m)) / CHARS_PER_TOKEN\<rceil>) ms"

definition anthropic_count :: "chat_request \<Rightarrow> int" where
  "anthropic_count request = anthropic_count_loop 0 (req_messages request) + TOKENS_PER_REPLY"

text \<open>
  Tiktoken: \<open>encoding_for_model\<close> is \<open>None\<close> where it raises \<open>KeyError\<close>;
  \<open>encode\<close> may raise on disallowed special tokens.
\<close>

record 'enc tiktoken =
  encoding_for_model :: "string \<Rightarrow> 'enc option"
  get_encoding :: "string \<Rightarrow> 'enc"
  encode :: "'enc \<Rightarrow> string \<Rightarrow> int list result"

definition FALLBACK_ENCODING :: string where "FALLBACK_ENCODING = ''o200k_base''"

fun openai_count_loop :: "(string \<Rightarrow> int list result) \<Rightarrow> int \<Rightarrow> message list \<Rightarrow> int result" where
  "openai_count_loop enc acc [] = Inr acc"
| "openai_count_loop enc acc (m # ms) =
     (case enc (msg_role m) of Inl e \<Rightarrow> Inl e
      | Inr role_toks \<Rightarrow>
          (case enc (msg_content m) of Inl e \<Rightarrow> Inl e
           | Inr content_toks \<Rightarrow>
               openai_count_loop enc (acc + TOKENS_PER_MESSAGE + int (length role_toks)
                 + int (length content_toks)) ms))"

definition openai_count :: "'enc tiktoken \<Rightarrow> chat_request \<Rightarrow> int result" where
  "openai_count tk request =
     (let enc = (case encoding_for_model tk (req_model request) of
                   Some e \<Rightarrow> e | None \<Rightarrow> get_encoding tk FALLBACK_ENCODING)
      in case openai_count_loop (encode tk enc) 0 (req_messages request) of
           Inl e \<Rightarrow> Inl e | Inr acc \<Rightarrow> Inr (acc + TOKENS_PER_REPLY))"

datatype counter = OpenAICounter | AnthropicCounter

type_synonym counter_registry = "provider_enum \<Rightarrow> counter option"

definition counter_register :: "provider_enum \<Rightarrow> counter \<Rightarrow> counter_registry \<Rightarrow> counter_registry" where
  "counter_register p c reg = reg(p \<mapsto> c)"

definition counter_get :: "counter_registry \<Rightarrow> provider_enum \<Rightarrow> counter result" where
  "counter_get reg p = (case reg p of
       Some c \<Rightarrow> Inr c
     | None \<Rightarrow> Inl (CounterNotRegistered [Lit ''no counter registered for provider '', ReprP p]))"

definition build_counter_registry :: counter_registry where
  "build_counter_registry =
     counter_register ANTHROPIC AnthropicCounter
       (counter_register OPENAI OpenAICounter Map.empty)"

fun counter_count :: "'enc tiktoken \<Rightarrow> counter \<Rightarrow> chat_request \<Rightarrow> int result" where
  "counter_count tk OpenAICounter request = openai_count tk request"
| "counter_count tk AnthropicCounter request = Inr (anthropic_count request)"

subsection \<open>Pricing\<close>

type_synonym pricing_table = "provider_enum \<times> string \<Rightarrow> pricing_rate list option"

definition pricing_register :: "pricing_rate \<Rightarrow> pricing_table \<Rightarrow> pricing_table" where
  "pricing_register rate table =
     (let key = (pr_provider rate, pr_model rate);
          history = (case table key of None \<Rightarrow> [] | Some h \<Rightarrow> h)
      in table(key \<mapsto> history @ [rate]))"

definition pricing_get ::
  "datetime \<Rightarrow> pricing_table \<Rightarrow> provider_enum \<Rightarrow> string \<Rightarrow> datetime option \<Rightarrow> pricing_rate result" where
  "pricing_get now table provider model as_of_arg =
     (let as_of = (case as_of_arg of None \<Rightarrow> now | Some t \<Rightarrow> t);
          history = (case table (provider, model) of None \<Rightarrow> [] | Some h \<Rightarrow> h);
          effective = filter (\<lambda>rate. pr_effective_from rate \<le> as_of) history
      in case effective of
           [] \<Rightarrow> Inl (PricingRateNotFound [Lit ''no pricing rate in effect for provider '',
                   ReprP provider, Lit '' model '', ReprS model, Lit '' as of '', IsoS as_of])
         | r # rs \<Rightarrow> Inr (py_max_by pr_effective_from r rs))"

definition cost_for ::
  "datetime \<Rightarrow> pricing_table \<Rightarrow> provider_enum \<Rightarrow> string \<Rightarrow> int \<Rightarrow> int \<Rightarrow> datetime option
   \<Rightarrow> decimal result" where
  "cost_for now table provider model tokens_in tokens_out as_of =
     (case pricing_get now table provider model as_of of
        Inl e \<Rightarrow> Inl e | Inr rate \<Rightarrow> calculate_cost rate tokens_in tokens_out)"

fun register_all :: "pricing_rate list \<Rightarrow> pricing_table \<Rightarrow> pricing_table" where
  "register_all [] table = table"
| "register_all (rate # rates) table = register_all rates (pricing_register rate table)"

definition build_pricing_table :: "pricing_rate list \<Rightarrow> pricing_table" where
  "build_pricing_table rates = register_all rates Map.empty"

subsection \<open>The usage recorder\<close>

text \<open>
  \<open>now\<close> is the reading the pricing lookup takes, \<open>now'\<close> the one that stamps the record;
  \<open>save\<close> is the repository's.
\<close>

definition recorder_record ::
  "(usage_record \<Rightarrow> 'w \<Rightarrow> unit result \<times> 'w) \<Rightarrow> pricing_table \<Rightarrow> datetime \<Rightarrow> datetime
   \<Rightarrow> uuid \<Rightarrow> chat_response \<Rightarrow> 'w \<Rightarrow> usage_record result \<times> 'w" where
  "recorder_record save pricing now now' api_key_id response w =
     (case cost_for now pricing (resp_provider response) (resp_model response)
             (resp_tokens_in response) (resp_tokens_out response) None of
        Inl e \<Rightarrow> (Inl e, w)
      | Inr cost \<Rightarrow>
          (case usage_record_create now' api_key_id (resp_provider response)
                  (resp_model response) (resp_tokens_in response) (resp_tokens_out response)
                  cost (resp_finish_reason response) (resp_request_id response) of
             Inl e \<Rightarrow> (Inl e, w)
           | Inr record_ \<Rightarrow>
               (case save record_ w of
                  (Inl e, w') \<Rightarrow> (Inl e, w')
                | (Inr u, w') \<Rightarrow> (Inr record_, w'))))"

subsection \<open>The repository port\<close>

text \<open>
  What the recorder needs of \<open>UsageRepository\<close>: a successful save adds the record to
  what is stored, a failed one adds nothing.
\<close>

locale usage_sink =
  fixes save :: "usage_record \<Rightarrow> 'w \<Rightarrow> unit result \<times> 'w"
    and stored :: "'w \<Rightarrow> usage_record list"
  assumes save_ok: "save r w = (Inr (), w') \<Longrightarrow> stored w' = stored w @ [r]"
    and save_failed: "save r w = (Inl e, w') \<Longrightarrow> stored w' = stored w"
begin

lemma record_stores:
  assumes "recorder_record save pricing now now' k resp w = (Inr r, w')"
  shows "stored w' = stored w @ [r]"
  using assms by (auto simp: recorder_record_def save_ok split: sum.splits prod.splits)

lemma record_failed:
  assumes "recorder_record save pricing now now' k resp w = (Inl e, w')"
  shows "stored w' = stored w"
  using assms by (auto simp: recorder_record_def save_failed split: sum.splits prod.splits)

end

subsection \<open>Lemmas on the pricing table\<close>

definition history_of :: "pricing_table \<Rightarrow> provider_enum \<Rightarrow> string \<Rightarrow> pricing_rate list" where
  "history_of table p m = (case table (p, m) of None \<Rightarrow> [] | Some h \<Rightarrow> h)"

lemma history_of_register:
  "history_of (pricing_register r table) p m =
     history_of table p m @ (if pr_provider r = p \<and> pr_model r = m then [r] else [])"
  by (auto simp: history_of_def pricing_register_def Let_def)

lemma history_of_register_all:
  "history_of (register_all rates table) p m =
     history_of table p m @ filter (\<lambda>r. pr_provider r = p \<and> pr_model r = m) rates"
  by (induction rates arbitrary: table) (auto simp: history_of_register)

lemma history_of_build:
  "history_of (build_pricing_table rates) p m =
     filter (\<lambda>r. pr_provider r = p \<and> pr_model r = m) rates"
  by (simp add: build_pricing_table_def history_of_register_all) (simp add: history_of_def)

text \<open>The rates in effect at a time, and what the lookup makes of them.\<close>

definition effective_rates ::
  "pricing_table \<Rightarrow> provider_enum \<Rightarrow> string \<Rightarrow> datetime \<Rightarrow> pricing_rate list" where
  "effective_rates table p m t = filter (\<lambda>r. pr_effective_from r \<le> t) (history_of table p m)"

lemma pricing_get_effective:
  "pricing_get now table p m (Some t) =
     (case effective_rates table p m t of
        [] \<Rightarrow> Inl (PricingRateNotFound [Lit ''no pricing rate in effect for provider '',
                ReprP p, Lit '' model '', ReprS m, Lit '' as of '', IsoS t])
      | r # rs \<Rightarrow> Inr (py_max_by pr_effective_from r rs))"
  by (simp add: pricing_get_def effective_rates_def history_of_def)

lemma pricing_get_now: "pricing_get now table p m None = pricing_get now table p m (Some now)"
  by (simp add: pricing_get_def)

lemma pricing_get_Inr:
  assumes "pricing_get now table p m (Some t) = Inr r"
  shows "r \<in> set (effective_rates table p m t)"
    and "\<forall>r' \<in> set (effective_rates table p m t). pr_effective_from r' \<le> pr_effective_from r"
proof -
  obtain x xs where e: "effective_rates table p m t = x # xs"
    and r: "r = py_max_by pr_effective_from x xs"
    using assms by (auto simp: pricing_get_effective split: list.splits)
  show "r \<in> set (effective_rates table p m t)"
    using e r py_max_by_in [of pr_effective_from x xs] by simp
  show "\<forall>r' \<in> set (effective_rates table p m t). pr_effective_from r' \<le> pr_effective_from r"
    using e r py_max_by_ge [of _ x xs pr_effective_from] by simp
qed

lemma py_max_by_snoc:
  "py_max_by f m (xs @ [x]) = (if f (py_max_by f m xs) < f x then x else py_max_by f m xs)"
  by (induction xs arbitrary: m) auto

lemma ceiling_chars_bounds:
  fixes n :: nat
  shows "2 * int n \<le> 7 * \<lceil>of_nat n / CHARS_PER_TOKEN\<rceil>"
    and "7 * \<lceil>of_nat n / CHARS_PER_TOKEN\<rceil> < 2 * int n + 7"
proof -
  let ?c = "\<lceil>of_nat n / CHARS_PER_TOKEN\<rceil>"
  have q: "of_nat n / CHARS_PER_TOKEN = (of_int (2 * int n) / 7 :: rat)"
    by (simp add: CHARS_PER_TOKEN_def)
  have "of_int (2 * int n) / 7 \<le> (of_int ?c :: rat)" unfolding q [symmetric] by (rule le_of_int_ceiling)
  then have "(of_int (2 * int n) :: rat) \<le> of_int (7 * ?c)" by simp
  then show "2 * int n \<le> 7 * ?c" by (simp only: of_int_le_iff)
  have "of_int ?c - 1 < (of_int (2 * int n) / 7 :: rat)" unfolding q [symmetric]
    by (metis ceiling_correct)
  then have "(of_int (7 * ?c) :: rat) < of_int (2 * int n + 7)" by simp
  then show "7 * ?c < 2 * int n + 7" by (simp only: of_int_less_iff)
qed

definition anthropic_message_tokens :: "message \<Rightarrow> int" where
  "anthropic_message_tokens m = TOKENS_PER_MESSAGE
     + \<lceil>of_nat (length (msg_content m)) / CHARS_PER_TOKEN\<rceil>
     + \<lceil>of_nat (length (msg_role m)) / CHARS_PER_TOKEN\<rceil>"

lemma anthropic_count_loop_sum:
  "anthropic_count_loop acc ms = acc + sum_list (map anthropic_message_tokens ms)"
  by (induction ms arbitrary: acc) (simp_all add: anthropic_message_tokens_def)

text \<open>Characters of a prompt, roles included.\<close>

definition prompt_chars :: "message list \<Rightarrow> int" where
  "prompt_chars ms = sum_list (map (\<lambda>m. int (length (msg_content m) + length (msg_role m))) ms)"

lemma anthropic_sum_bounds:
  "2 * prompt_chars ms + 21 * int (length ms) \<le> 7 * sum_list (map anthropic_message_tokens ms)"
  "7 * sum_list (map anthropic_message_tokens ms) \<le> 2 * prompt_chars ms + 33 * int (length ms)"
proof (induction ms)
  case (Cons m ms)
  have t: "7 * anthropic_message_tokens m = 21 + 7 * \<lceil>of_nat (length (msg_content m)) / CHARS_PER_TOKEN\<rceil>
      + 7 * \<lceil>of_nat (length (msg_role m)) / CHARS_PER_TOKEN\<rceil>"
    by (simp add: anthropic_message_tokens_def TOKENS_PER_MESSAGE_def)
  note b = ceiling_chars_bounds [of "length (msg_content m)"] ceiling_chars_bounds [of "length (msg_role m)"]
  { case 1 show ?case using Cons(1) t b by (simp add: prompt_chars_def) }
  { case 2 show ?case using Cons(2) t b by (simp add: prompt_chars_def) }
qed (simp_all add: prompt_chars_def)

lemma pricing_get_wf:
  assumes "\<forall>r \<in> set rates. pricing_rate_wf r"
    and "pricing_get now (build_pricing_table rates) p m as_of = Inr rate"
  shows "pricing_rate_wf rate"
proof -
  have "rate \<in> set (effective_rates (build_pricing_table rates) p m
      (case as_of of None \<Rightarrow> now | Some t \<Rightarrow> t))"
    using assms(2) pricing_get_Inr(1) by (cases as_of) (auto simp: pricing_get_now)
  with assms(1) show ?thesis by (auto simp: effective_rates_def history_of_build)
qed

lemma openai_count_loop_append:
  "openai_count_loop enc acc (ms @ ns) =
     (case openai_count_loop enc acc ms of Inl e \<Rightarrow> Inl e | Inr t \<Rightarrow> openai_count_loop enc t ns)"
  by (induction ms arbitrary: acc) (auto split: sum.splits)

lemma openai_count_loop_shift:
  "openai_count_loop enc (acc + d) ms =
     (case openai_count_loop enc acc ms of Inl e \<Rightarrow> Inl e | Inr t \<Rightarrow> Inr (t + d))"
proof (induction ms arbitrary: acc)
  case (Cons m ms)
  show ?case
  proof (cases "enc (msg_role m)")
    case (Inr a)
    then show ?thesis
    proof (cases "enc (msg_content m)")
      case (Inr b)
      with \<open>enc (msg_role m) = Inr a\<close> show ?thesis
        using Cons.IH [of "acc + TOKENS_PER_MESSAGE + int (length a) + int (length b)"]
        by (simp add: ac_simps)
    qed simp
  qed simp
qed simp

subsection \<open>Correctness properties\<close>

text \<open>
  The lookup on a table built from any list of rates returns the rate in effect: one of
  the registered rates of that provider and model, not from the future, with none of the
  pair's rates coming into effect between it and the requested time. It raises
  \<open>PricingRateNotFound\<close> exactly when no rate of the pair is in effect yet.
\<close>

theorem pricing_get_in_effect:
  "(\<forall>r. pricing_get now (build_pricing_table rates) p m (Some t) = Inr r \<longrightarrow>
      r \<in> set rates \<and> pr_provider r = p \<and> pr_model r = m \<and> pr_effective_from r \<le> t \<and>
      (\<forall>r' \<in> set rates. pr_provider r' = p \<and> pr_model r' = m \<and> pr_effective_from r' \<le> t \<longrightarrow>
         pr_effective_from r' \<le> pr_effective_from r)) \<and>
   ((\<exists>e. pricing_get now (build_pricing_table rates) p m (Some t) = Inl e) \<longleftrightarrow>
      (\<forall>r \<in> set rates. pr_provider r = p \<and> pr_model r = m \<longrightarrow> t < pr_effective_from r))"
proof -
  let ?tab = "build_pricing_table rates"
  have eff: "set (effective_rates ?tab p m t) =
      {r \<in> set rates. pr_provider r = p \<and> pr_model r = m \<and> pr_effective_from r \<le> t}"
    by (auto simp: effective_rates_def history_of_build)
  have "(\<exists>e. pricing_get now ?tab p m (Some t) = Inl e) \<longleftrightarrow> set (effective_rates ?tab p m t) = {}"
    by (simp add: pricing_get_effective split: list.splits)
  moreover have "r \<in> set (effective_rates ?tab p m t) \<and>
      (\<forall>r' \<in> set (effective_rates ?tab p m t). pr_effective_from r' \<le> pr_effective_from r)"
    if "pricing_get now ?tab p m (Some t) = Inr r" for r
    using pricing_get_Inr [OF that] by blast
  ultimately show ?thesis unfolding eff by (simp add: Collect_empty_eq) (meson not_le)
qed

text \<open>
  Prices change without rewriting the past: registering a rate leaves every lookup at a
  time before the rate comes into effect as it was, and every lookup of another provider or
  model; once it is in effect and newer than the rates before it, it is the answer.
\<close>

theorem pricing_register_history:
  assumes "r = \<lparr>pr_provider = p, pr_model = m, pr_price_per_1k_input = a,
    pr_price_per_1k_output = b, pr_effective_from = from_time\<rparr>"
  shows "(t < from_time \<or> (p', m') \<noteq> (p, m) \<longrightarrow>
      pricing_get now (pricing_register r table) p' m' (Some t) = pricing_get now table p' m' (Some t)) \<and>
    (from_time \<le> t \<and> (\<forall>r' \<in> set (effective_rates table p m t). pr_effective_from r' < from_time) \<longrightarrow>
      pricing_get now (pricing_register r table) p m (Some t) = Inr r)"
proof -
  have e: "effective_rates (pricing_register r table) p' m' t =
      effective_rates table p' m' t @ (if p = p' \<and> m = m' \<and> from_time \<le> t then [r] else [])" for p' m'
    using assms by (simp add: effective_rates_def history_of_register)
  have new: "pricing_get now (pricing_register r table) p m (Some t) = Inr r"
    if le: "from_time \<le> t" and lt: "\<forall>r' \<in> set (effective_rates table p m t). pr_effective_from r' < from_time"
  proof (cases "effective_rates table p m t")
    case Nil
    with e [of p m] le show ?thesis by (simp add: pricing_get_effective)
  next
    case (Cons x xs)
    have "pr_effective_from (py_max_by pr_effective_from x xs) < from_time"
      using lt Cons py_max_by_in [of pr_effective_from x xs] by auto
    with e [of p m] le Cons assms show ?thesis by (simp add: pricing_get_effective py_max_by_snoc)
  qed
  show ?thesis using new e [of p' m'] by (auto simp: pricing_get_effective)
qed

text \<open>
  C29. Billing is total on normal responses: when a rate is in effect and the response has
  non-negative token counts and a normalized finish reason, none of the validations can
  fail; the recorder hands the repository one well-formed record with the caller, provider,
  model, tokens and request id of the response, at the cost its real token counts have
  under the rate in effect, and returns it unless the save itself fails.
\<close>

theorem recorder_record_bills:
  assumes "\<forall>r \<in> set rates. pricing_rate_wf r"
    and "pricing_get now (build_pricing_table rates) (resp_provider resp) (resp_model resp) None = Inr rate"
    and "0 \<le> resp_tokens_in resp" "0 \<le> resp_tokens_out resp"
    and "resp_finish_reason resp \<in> set VALID_FINISH_REASONS"
  shows "\<exists>rec. usage_record_wf rec \<and> ur_api_key_id rec = k \<and>
    ur_provider rec = resp_provider resp \<and> ur_model rec = resp_model resp \<and>
    ur_tokens_in rec = resp_tokens_in resp \<and> ur_tokens_out rec = resp_tokens_out resp \<and>
    ur_request_id rec = resp_request_id resp \<and>
    ur_cost rec = of_int (resp_tokens_in resp) / 1000 * pr_price_per_1k_input rate
      + of_int (resp_tokens_out resp) / 1000 * pr_price_per_1k_output rate \<and>
    recorder_record save (build_pricing_table rates) now now' k resp w =
      (case save rec w of (Inl e, w') \<Rightarrow> (Inl e, w') | (Inr u, w') \<Rightarrow> (Inr rec, w'))"
proof -
  obtain c where c: "calculate_cost rate (resp_tokens_in resp) (resp_tokens_out resp) = Inr c"
    and cost: "c = of_int (resp_tokens_in resp) / 1000 * pr_price_per_1k_input rate
      + of_int (resp_tokens_out resp) / 1000 * pr_price_per_1k_output rate"
    using assms(3,4) by (simp add: calculate_cost_Inr)
  let ?r = "\<lparr>ur_api_key_id = k, ur_provider = resp_provider resp, ur_model = resp_model resp,
    ur_tokens_in = resp_tokens_in resp, ur_tokens_out = resp_tokens_out resp, ur_cost = c,
    ur_finish_reason = resp_finish_reason resp, ur_request_id = resp_request_id resp,
    ur_created_at = now'\<rparr>"
  have "0 \<le> c" using calculate_cost_nonneg [OF pricing_get_wf [OF assms(1,2)] c] .
  then have wf: "usage_record_wf ?r" using assms(3-5) by (simp add: usage_record_wf_def)
  then have "usage_record_create now' k (resp_provider resp) (resp_model resp) (resp_tokens_in resp)
      (resp_tokens_out resp) c (resp_finish_reason resp) (resp_request_id resp) = Inr ?r"
    by (simp add: usage_record_create_Inr)
  with c assms(2) have "recorder_record save (build_pricing_table rates) now now' k resp w =
      (case save ?r w of (Inl e, w') \<Rightarrow> (Inl e, w') | (Inr u, w') \<Rightarrow> (Inr ?r, w'))"
    by (simp add: recorder_record_def cost_for_def)
  with wf cost show ?thesis by (intro exI [of _ ?r]) simp
qed

text \<open>
  The Anthropic estimate stays within the framing overhead of the exact ratio of two
  tokens per seven characters: never below it, and above it by less than two tokens per
  message, on top of three tokens per message and three for the reply.
\<close>

theorem anthropic_count_bounds:
  "2 * prompt_chars (req_messages req) + 21 * int (length (req_messages req)) + 21
     \<le> 7 * anthropic_count req \<and>
   7 * anthropic_count req
     \<le> 2 * prompt_chars (req_messages req) + 33 * int (length (req_messages req)) + 21"
  using anthropic_sum_bounds [of "req_messages req"]
  by (simp add: anthropic_count_def anthropic_count_loop_sum TOKENS_PER_REPLY_def)

text \<open>
  Both counters frame messages the same way: for either provider, counting a
  conversation in two parts counts the reply overhead twice and nothing else twice, and an
  encoder error in either part is an error of the whole.
\<close>

theorem counter_additive:
  "counter_count tk c (req\<lparr>req_messages := ms @ ns\<rparr>) =
     (case counter_count tk c (req\<lparr>req_messages := ms\<rparr>) of Inl e \<Rightarrow> Inl e
      | Inr x \<Rightarrow> (case counter_count tk c (req\<lparr>req_messages := ns\<rparr>) of Inl e \<Rightarrow> Inl e
                  | Inr y \<Rightarrow> Inr (x + y - TOKENS_PER_REPLY)))"
proof (cases c)
  case OpenAICounter
  let ?enc = "encode tk (case encoding_for_model tk (req_model req) of
      Some e \<Rightarrow> e | None \<Rightarrow> get_encoding tk FALLBACK_ENCODING)"
  show ?thesis
    using OpenAICounter openai_count_loop_shift [of ?enc 0 _ ns]
    by (cases "openai_count_loop ?enc 0 ms"; cases "openai_count_loop ?enc 0 ns")
      (simp_all add: openai_count_def openai_count_loop_append)
next
  case AnthropicCounter
  then show ?thesis by (simp add: anthropic_count_def anthropic_count_loop_sum)
qed

text \<open>A rate table with two rates for one model, and a response priced by the newer one.\<close>

definition sample_rates :: "pricing_rate list" where
  "sample_rates =
     [\<lparr>pr_provider = OPENAI, pr_model = ''gpt-4o'', pr_price_per_1k_input = 5/1000,
       pr_price_per_1k_output = 15/1000, pr_effective_from = 100\<rparr>,
      \<lparr>pr_provider = OPENAI, pr_model = ''gpt-4o'', pr_price_per_1k_input = 25/10000,
       pr_price_per_1k_output = 10/1000, pr_effective_from = 200\<rparr>]"

definition sample_response :: chat_response where
  "sample_response = \<lparr>resp_provider = OPENAI, resp_model = ''gpt-4o'', resp_content = ''hi'',
     resp_tokens_in = 1000, resp_tokens_out = 2000, resp_finish_reason = ''stop'',
     resp_request_id = ''r1''\<rparr>"

theorem pricing_get_in_effect_witness:
  "\<exists>r. pricing_get 0 (build_pricing_table sample_rates) OPENAI ''gpt-4o'' (Some 150) = Inr r \<and>
     pr_effective_from r \<le> 150"
proof -
  obtain r where r: "pricing_get 0 (build_pricing_table sample_rates) OPENAI ''gpt-4o'' (Some 150) = Inr r"
    by (simp add: sample_rates_def build_pricing_table_def pricing_register_def pricing_get_def)
  with pricing_get_in_effect [of 0 sample_rates OPENAI "''gpt-4o''" 150] show ?thesis by blast
qed

theorem pricing_register_history_witness:
  "pricing_get 0 (pricing_register (sample_rates ! 1) (build_pricing_table (take 1 sample_rates)))
     OPENAI ''gpt-4o'' (Some 250) = Inr (sample_rates ! 1)"
proof -
  have "sample_rates ! 1 = \<lparr>pr_provider = OPENAI, pr_model = ''gpt-4o'',
      pr_price_per_1k_input = 25/10000, pr_price_per_1k_output = 10/1000, pr_effective_from = 200\<rparr>"
    by (simp add: sample_rates_def)
  from pricing_register_history [OF this, of 250 OPENAI "''gpt-4o''" 0 "build_pricing_table (take 1 sample_rates)"]
  show ?thesis
    by (simp add: effective_rates_def history_of_build) (simp add: sample_rates_def)
qed

theorem recorder_record_bills_witness:
  "\<exists>rec. ur_cost rec = 225 / 10000 \<and>
     recorder_record (\<lambda>r w. (Inr (), w @ [r])) (build_pricing_table sample_rates) 300 300 1
       sample_response [] = (Inr rec, [rec])"
proof -
  let ?save = "\<lambda>r (w :: usage_record list). (Inr () :: unit result, w @ [r])"
  have wf: "\<forall>r \<in> set sample_rates. pricing_rate_wf r"
    by (simp add: sample_rates_def pricing_rate_wf_def py_strip_empty_iff py_space_def)
  have get: "pricing_get 300 (build_pricing_table sample_rates) (resp_provider sample_response)
      (resp_model sample_response) None = Inr (sample_rates ! 1)"
    by (simp add: sample_response_def sample_rates_def build_pricing_table_def pricing_register_def
        pricing_get_def)
  have "0 \<le> resp_tokens_in sample_response" "0 \<le> resp_tokens_out sample_response"
    "resp_finish_reason sample_response \<in> set VALID_FINISH_REASONS"
    by (simp_all add: sample_response_def VALID_FINISH_REASONS_def)
  from recorder_record_bills [OF wf get this, of 1 ?save 300 "[]"]
  show ?thesis by (auto simp: sample_response_def sample_rates_def)
qed

end
