(* ===== verification/Relayix_Config.thy ===== *)
theory Relayix_Config
  imports Relayix_Domain
begin

text \<open>
  The configuration (\<open>app/infra/config.py\<close>): the \<open>Settings\<close> model with its
  defaults. Reading the environment and the \<open>.env\<close> file is the pydantic library's; what
  it overrides is an update of the record.
\<close>

record settings =
  environment :: string
  debug :: bool
  database_url :: string
  db_echo :: bool
  db_pool_size :: int
  db_max_overflow :: int
  db_pool_timeout_s :: seconds
  db_pool_recycle_s :: int
  db_pool_pre_ping :: bool
  db_connect_timeout_s :: seconds
  db_command_timeout_s :: seconds
  db_statement_timeout_ms :: int
  db_ssl :: string
  admin_api_token :: string
  openai_api_key :: "string option"
  anthropic_api_key :: "string option"
  provider_timeout_s :: seconds
  health_check_timeout_s :: seconds
  default_rate_limit_rpm :: int
  redis_url :: string
  redis_connect_timeout_s :: seconds
  redis_command_timeout_s :: seconds
  redis_max_connections :: int
  ratelimit_breaker_fail_threshold :: int
  ratelimit_breaker_reset_timeout_s :: seconds
  idempotency_inflight_ttl_s :: int
  idempotency_ttl_s :: int
  circuit_breaker_fail_threshold :: int
  circuit_breaker_reset_timeout_s :: seconds
  otel_enabled :: bool
  otel_service_name :: string
  otel_exporter_otlp_endpoint :: string

text \<open>The two fields without a default are the arguments.\<close>

definition default_settings :: "string \<Rightarrow> string \<Rightarrow> settings" where
  "default_settings db_url admin_token =
     \<lparr>environment = ''development'', debug = False, database_url = db_url,
      db_echo = False, db_pool_size = 5, db_max_overflow = 10, db_pool_timeout_s = 30,
      db_pool_recycle_s = 1800, db_pool_pre_ping = True, db_connect_timeout_s = 10,
      db_command_timeout_s = 30, db_statement_timeout_ms = 30000, db_ssl = ''require'',
      admin_api_token = admin_token, openai_api_key = None, anthropic_api_key = None,
      provider_timeout_s = 40, health_check_timeout_s = 2, default_rate_limit_rpm = 60,
      redis_url = ''redis://localhost:6379/0'', redis_connect_timeout_s = 2,
      redis_command_timeout_s = 2, redis_max_connections = 20,
      ratelimit_breaker_fail_threshold = 3, ratelimit_breaker_reset_timeout_s = 10,
      idempotency_inflight_ttl_s = 120, idempotency_ttl_s = 86400,
      circuit_breaker_fail_threshold = 5, circuit_breaker_reset_timeout_s = 30,
      otel_enabled = False, otel_service_name = ''relayix'',
      otel_exporter_otlp_endpoint = ''http://localhost:4317''\<rparr>"

definition is_production :: "settings \<Rightarrow> bool" where
  "is_production s = (environment s = ''production'')"

text \<open>The truth value of an optional string: neither \<open>None\<close> nor empty.\<close>

definition opt_str_truthy :: "string option \<Rightarrow> bool" where
  "opt_str_truthy s = (case s of None \<Rightarrow> False | Some t \<Rightarrow> t \<noteq> [])"

end
