(* ===== verification/Provider_Adapters.thy ===== *)
theory Provider_Adapters
  imports Relayix_Domain
begin

text \<open>
  The provider adapters (\<open>app/core/adapters/openai_adapter.py\<close>,
  \<open>app/core/adapters/anthropic_adapter.py\<close>, \<open>app/core/adapters/base.py\<close>). The vendor
  SDKs are parameters: \<open>create\<close> is the SDK call, answering with a raw response or one of
  the SDK's exceptions; a streamed call is the script of chunks the SDK delivers, ending
  normally or in an exception (also when opening the stream fails). The interface of an
  adapter is the locale \<open>provider_adapter\<close>, interpreted on both adapters.
\<close>

subsection \<open>What the SDKs deliver\<close>

text \<open>
  The SDK exceptions in the order the \<open>except\<close> clauses test them, each with its text;
  \<open>SDKOther\<close> is an exception of Python's own (a cancellation, a deadline, a bug).
\<close>

datatype foreign = FCancelled | FTimeout | FError fstring

fun foreign_exn :: "foreign \<Rightarrow> exn" where
  "foreign_exn FCancelled = CancelledError"
| "foreign_exn FTimeout = TimeoutError"
| "foreign_exn (FError m) = OtherException m"

datatype sdk_exn =
    APITimeoutError string
  | APIConnectionError string
  | APIStatusError int string
  | SDKError string
  | SDKOther foreign

datatype 'c sdk_stream = SChunk 'c "'c sdk_stream" | SEnd | SFail sdk_exn

text \<open>An async generator: what each \<open>__anext__\<close> gives.\<close>

datatype 'e agen = Yield 'e "'e agen" | Return | Raise exn

type_synonym event_gen = "chat_stream_event agen"

definition DEFAULT_MAX_TOKENS :: int where "DEFAULT_MAX_TOKENS = 4096"

text \<open>\<open>request.max_tokens or _DEFAULT_MAX_TOKENS\<close>.\<close>

definition max_tokens_or_default :: "chat_request \<Rightarrow> int" where
  "max_tokens_or_default request = (case req_max_tokens request of
     None \<Rightarrow> DEFAULT_MAX_TOKENS | Some n \<Rightarrow> if n = 0 then DEFAULT_MAX_TOKENS else n)"

definition finish_reason_get :: "(string \<times> string) list \<Rightarrow> string option \<Rightarrow> string" where
  "finish_reason_get table raw = (case raw of None \<Rightarrow> ''stop''
     | Some r \<Rightarrow> (case map_of table r of None \<Rightarrow> ''stop'' | Some f \<Rightarrow> f))"

definition str_or_empty :: "string option \<Rightarrow> string" where
  "str_or_empty s = (case s of None \<Rightarrow> [] | Some t \<Rightarrow> t)"

definition truthy_str :: "string option \<Rightarrow> bool" where
  "truthy_str s = (str_or_empty s \<noteq> [])"

text \<open>The normalized error of an SDK failure, as both adapters classify it.\<close>

definition clean_error :: "string \<Rightarrow> sdk_exn \<Rightarrow> exn" where
  "clean_error name e = (case e of
       APITimeoutError m \<Rightarrow> UpstreamAmbiguous [Lit name, Lit '' timed out: '', Lit m]
     | APIConnectionError m \<Rightarrow> UpstreamUnavailable [Lit name, Lit '' connection failed: '', Lit m]
     | APIStatusError code m \<Rightarrow>
         (if code \<ge> 500
          then UpstreamAmbiguous [Lit name, Lit '' server error '', IntS code, Lit '': '', Lit m]
          else UpstreamUnavailable
            [Lit name, Lit '' rejected request '', IntS code, Lit '': '', Lit m])
     | SDKError m \<Rightarrow> UpstreamAmbiguous [Lit name, Lit '' request failed: '', Lit m]
     | SDKOther ex \<Rightarrow> foreign_exn ex)"

text \<open>\<open>_raise_stream_failure\<close>, the same in both adapters but for the provider; an exception of no SDK class is not caught.\<close>

fun sdk_exn_str :: "sdk_exn \<Rightarrow> fstring" where
  "sdk_exn_str (APITimeoutError m) = [Lit m]"
| "sdk_exn_str (APIConnectionError m) = [Lit m]"
| "sdk_exn_str (APIStatusError code m) = [Lit m]"
| "sdk_exn_str (SDKError m) = [Lit m]"
| "sdk_exn_str (SDKOther e) = exn_str (foreign_exn e)"

definition raise_stream_failure ::
  "provider_enum \<Rightarrow> sdk_exn \<Rightarrow> string list \<Rightarrow> int \<Rightarrow> int \<Rightarrow> string option \<Rightarrow> string \<Rightarrow> exn" where
  "raise_stream_failure prov e content_parts tokens_in tokens_out request_id model_name =
     (case e of
        SDKOther ex \<Rightarrow> foreign_exn ex
      | _ \<Rightarrow>
        if content_parts \<noteq> [] then
          UpstreamStreamInterrupted
            (Lit (provider_value prov) # Lit '' stream broke after partial output: '' # sdk_exn_str e)
            (Some \<lparr>resp_provider = prov, resp_model = model_name,
                   resp_content = concat content_parts, resp_tokens_in = tokens_in,
                   resp_tokens_out = tokens_out, resp_finish_reason = ''error'',
                   resp_request_id = str_or_empty request_id\<rparr>)
        else clean_error (provider_value prov) e)"

definition openai_raise_stream_failure :: "sdk_exn \<Rightarrow> string list \<Rightarrow> int \<Rightarrow> int \<Rightarrow> string option \<Rightarrow> string \<Rightarrow> exn" where
  [simp]: "openai_raise_stream_failure = raise_stream_failure OPENAI"

definition anthropic_raise_stream_failure :: "sdk_exn \<Rightarrow> string list \<Rightarrow> int \<Rightarrow> int \<Rightarrow> string option \<Rightarrow> string \<Rightarrow> exn" where
  [simp]: "anthropic_raise_stream_failure = raise_stream_failure ANTHROPIC"

text \<open>The texts of the Python errors a malformed response runs into.\<close>

definition single_quoted :: "string \<Rightarrow> string" where
  "single_quoted s = CHR 0x27 # s @ [CHR 0x27]"

definition no_attribute :: "string \<Rightarrow> string" where
  "no_attribute a = single_quoted ''NoneType'' @ '' object has no attribute '' @ single_quoted a"

subsection \<open>OpenAI\<close>

definition OPENAI_FINISH_REASON_MAP :: "(string \<times> string) list" where
  "OPENAI_FINISH_REASON_MAP =
     [(''stop'', ''stop''), (''length'', ''length''), (''tool_calls'', ''tool_use''),
      (''content_filter'', ''content_filter'')]"

record openai_params =
  oap_model :: string
  oap_max_completion_tokens :: int
  oap_messages :: "(string \<times> string) list"

text \<open>
  Raw responses are what the parsing code can meet: every field it dereferences may be
  missing (\<open>None\<close>).
\<close>

record openai_choice =
  och_message :: "string option option"
  och_finish_reason :: "string option"

record openai_raw =
  oar_id :: string
  oar_model :: string
  oar_choices :: "openai_choice list option"
  oar_usage :: "(int \<times> int) option"

definition openai_params_of :: "chat_request \<Rightarrow> openai_params" where
  "openai_params_of request =
     \<lparr>oap_model = req_model request,
      oap_max_completion_tokens = max_tokens_or_default request,
      oap_messages = map (\<lambda>m. (msg_role m, msg_content m)) (req_messages request)\<rparr>"

definition openai_malformed :: "string \<Rightarrow> exn" where
  "openai_malformed m = UpstreamAmbiguous [Lit ''openai returned a malformed response: '', Lit m]"

definition openai_parse :: "openai_raw \<Rightarrow> chat_response result" where
  "openai_parse raw =
     (case oar_choices raw of
        None \<Rightarrow> Inl (openai_malformed (single_quoted ''NoneType'' @ '' object is not subscriptable''))
      | Some [] \<Rightarrow> Inl (openai_malformed ''list index out of range'')
      | Some (choice # _) \<Rightarrow>
          (case och_message choice of
             None \<Rightarrow> Inl (openai_malformed (no_attribute ''content''))
           | Some content \<Rightarrow>
               (case oar_usage raw of
                  None \<Rightarrow> Inl (openai_malformed (no_attribute ''prompt_tokens''))
                | Some (prompt_tokens, completion_tokens) \<Rightarrow>
                    Inr \<lparr>resp_provider = OPENAI, resp_model = oar_model raw,
                         resp_content = str_or_empty content, resp_tokens_in = prompt_tokens,
                         resp_tokens_out = completion_tokens,
                         resp_finish_reason =
                           finish_reason_get OPENAI_FINISH_REASON_MAP (och_finish_reason choice),
                         resp_request_id = oar_id raw\<rparr>)))"

definition openai_complete ::
  "(openai_params \<Rightarrow> 'w \<Rightarrow> (sdk_exn + openai_raw) \<times> 'w) \<Rightarrow> chat_request \<Rightarrow> 'w
   \<Rightarrow> chat_response result \<times> 'w" where
  "openai_complete create request w =
     (case create (openai_params_of request) w of
        (Inl e, w') \<Rightarrow> (Inl (clean_error ''openai'' e), w')
      | (Inr raw, w') \<Rightarrow> (openai_parse raw, w'))"

record openai_chunk =
  ock_id :: string
  ock_model :: string
  ock_usage :: "(int \<times> int) option"
  ock_choices :: "(string option \<times> string option) list" \<comment> \<open>delta content, finish reason\<close>

record openai_acc =
  oac_parts :: "string list"
  oac_request_id :: "string option"
  oac_model :: string
  oac_tokens_in :: int
  oac_tokens_out :: int
  oac_finish_raw :: "string option"

text \<open>The assignments one chunk makes before its delta is yielded.\<close>

definition openai_chunk_update :: "openai_chunk \<Rightarrow> openai_acc \<Rightarrow> openai_acc" where
  "openai_chunk_update c acc =
     (let acc1 = acc\<lparr>oac_request_id := Some (ock_id c), oac_model := ock_model c\<rparr>
      in case ock_usage c of None \<Rightarrow> acc1
         | Some (p, q) \<Rightarrow> acc1\<lparr>oac_tokens_in := p, oac_tokens_out := q\<rparr>)"

definition openai_finish_update :: "string option \<Rightarrow> openai_acc \<Rightarrow> openai_acc" where
  "openai_finish_update fr acc = (if truthy_str fr then acc\<lparr>oac_finish_raw := fr\<rparr> else acc)"

fun openai_stream_loop :: "openai_acc \<Rightarrow> openai_chunk sdk_stream \<Rightarrow> event_gen" where
  "openai_stream_loop acc (SChunk c rest) =
     (let acc1 = openai_chunk_update c acc
      in case ock_choices c of
           [] \<Rightarrow> openai_stream_loop acc1 rest
         | (content, fr) # _ \<Rightarrow>
             (if truthy_str content then
                Yield (ChatStreamDelta (str_or_empty content))
                  (openai_stream_loop (openai_finish_update fr
                     (acc1\<lparr>oac_parts := oac_parts acc1 @ [str_or_empty content]\<rparr>)) rest)
              else openai_stream_loop (openai_finish_update fr acc1) rest))"
| "openai_stream_loop acc SEnd =
     Yield (ChatStreamResponse
       \<lparr>resp_provider = OPENAI, resp_model = oac_model acc,
        resp_content = concat (oac_parts acc), resp_tokens_in = oac_tokens_in acc,
        resp_tokens_out = oac_tokens_out acc,
        resp_finish_reason = finish_reason_get OPENAI_FINISH_REASON_MAP (oac_finish_raw acc),
        resp_request_id = str_or_empty (oac_request_id acc)\<rparr>) Return"
| "openai_stream_loop acc (SFail e) =
     Raise (openai_raise_stream_failure e (oac_parts acc) (oac_tokens_in acc)
       (oac_tokens_out acc) (oac_request_id acc) (oac_model acc))"

text \<open>\<open>OpenAIAdapter.stream\<close>; \<open>script\<close> is what the SDK delivers for the parameters.\<close>

definition openai_stream ::
  "(openai_params \<Rightarrow> openai_chunk sdk_stream) \<Rightarrow> chat_request \<Rightarrow> event_gen" where
  "openai_stream script request =
     openai_stream_loop
       \<lparr>oac_parts = [], oac_request_id = None, oac_model = req_model request,
        oac_tokens_in = 0, oac_tokens_out = 0, oac_finish_raw = None\<rparr>
       (script (openai_params_of request))"

subsection \<open>Anthropic\<close>

definition ANTHROPIC_FINISH_REASON_MAP :: "(string \<times> string) list" where
  "ANTHROPIC_FINISH_REASON_MAP =
     [(''end_turn'', ''stop''), (''stop_sequence'', ''stop''), (''max_tokens'', ''length''),
      (''tool_use'', ''tool_use''), (''refusal'', ''content_filter'')]"

record anthropic_params =
  anp_model :: string
  anp_max_tokens :: int
  anp_system :: string
  anp_messages :: "(string \<times> string) list"

definition anthropic_params_of :: "chat_request \<Rightarrow> anthropic_params" where
  "anthropic_params_of request =
     \<lparr>anp_model = req_model request,
      anp_max_tokens = max_tokens_or_default request,
      anp_system = py_join [CHR 0x0A] (map msg_content
        (filter (\<lambda>m. msg_role m = ''system'') (req_messages request))),
      anp_messages = map (\<lambda>m. (msg_role m, msg_content m))
        (filter (\<lambda>m. msg_role m \<noteq> ''system'') (req_messages request))\<rparr>"

record anthropic_block =
  anb_type :: string
  anb_text :: "string option"

record anthropic_raw =
  anr_id :: string
  anr_model :: string
  anr_content :: "anthropic_block list option"
  anr_usage :: "(int \<times> int) option"
  anr_stop_reason :: "string option"

definition anthropic_malformed :: "fstring \<Rightarrow> exn" where
  "anthropic_malformed m =
     UpstreamAmbiguous (Lit ''anthropic returned a malformed response: '' # m)"

text \<open>\<open>"".join(block.text for block in content if block.type == "text")\<close>.\<close>

fun anthropic_join :: "int \<Rightarrow> anthropic_block list \<Rightarrow> fstring + string" where
  "anthropic_join i [] = Inr []"
| "anthropic_join i (b # bs) =
     (if anb_type b \<noteq> ''text'' then anthropic_join i bs
      else case anb_text b of
          None \<Rightarrow> Inl [Lit ''sequence item '', IntS i, Lit '': expected str instance, NoneType found'']
        | Some t \<Rightarrow> (case anthropic_join (i + 1) bs of Inl m \<Rightarrow> Inl m | Inr ts \<Rightarrow> Inr (t @ ts)))"

definition anthropic_parse :: "anthropic_raw \<Rightarrow> chat_response result" where
  "anthropic_parse raw =
     (case anr_content raw of
        None \<Rightarrow> Inl (anthropic_malformed [Lit (single_quoted ''NoneType'' @ '' object is not iterable'')])
      | Some blocks \<Rightarrow>
          (case anthropic_join 0 blocks of
             Inl m \<Rightarrow> Inl (anthropic_malformed m)
           | Inr joined \<Rightarrow>
               (case anr_usage raw of
                  None \<Rightarrow> Inl (anthropic_malformed
                    [Lit (no_attribute ''input_tokens'')])
                | Some (input_tokens, output_tokens) \<Rightarrow>
                    Inr \<lparr>resp_provider = ANTHROPIC, resp_model = anr_model raw,
                         resp_content = joined, resp_tokens_in = input_tokens,
                         resp_tokens_out = output_tokens,
                         resp_finish_reason =
                           finish_reason_get ANTHROPIC_FINISH_REASON_MAP (anr_stop_reason raw),
                         resp_request_id = anr_id raw\<rparr>)))"

definition anthropic_complete ::
  "(anthropic_params \<Rightarrow> 'w \<Rightarrow> (sdk_exn + anthropic_raw) \<times> 'w) \<Rightarrow> chat_request \<Rightarrow> 'w
   \<Rightarrow> chat_response result \<times> 'w" where
  "anthropic_complete create request w =
     (case create (anthropic_params_of request) w of
        (Inl e, w') \<Rightarrow> (Inl (clean_error ''anthropic'' e), w')
      | (Inr raw, w') \<Rightarrow> (anthropic_parse raw, w'))"

datatype anthropic_event =
    MessageStart string string int           \<comment> \<open>id, model, input tokens\<close>
  | ContentBlockDelta string "string option" \<comment> \<open>delta type, delta text\<close>
  | MessageDelta int "string option"         \<comment> \<open>output tokens, stop reason\<close>
  | OtherEvent string

record anthropic_acc =
  aac_parts :: "string list"
  aac_request_id :: "string option"
  aac_model :: string
  aac_tokens_in :: int
  aac_tokens_out :: int
  aac_stop_reason :: "string option"

fun anthropic_stream_loop :: "anthropic_acc \<Rightarrow> anthropic_event sdk_stream \<Rightarrow> event_gen" where
  "anthropic_stream_loop acc (SChunk (MessageStart i m n) rest) =
     anthropic_stream_loop
       (acc\<lparr>aac_request_id := Some i, aac_model := m, aac_tokens_in := n\<rparr>) rest"
| "anthropic_stream_loop acc (SChunk (ContentBlockDelta ty txt) rest) =
     (if ty = ''text_delta'' \<and> truthy_str txt then
        Yield (ChatStreamDelta (str_or_empty txt))
          (anthropic_stream_loop (acc\<lparr>aac_parts := aac_parts acc @ [str_or_empty txt]\<rparr>) rest)
      else anthropic_stream_loop acc rest)"
| "anthropic_stream_loop acc (SChunk (MessageDelta n sr) rest) =
     anthropic_stream_loop
       (let acc1 = acc\<lparr>aac_tokens_out := n\<rparr>
        in if truthy_str sr then acc1\<lparr>aac_stop_reason := sr\<rparr> else acc1) rest"
| "anthropic_stream_loop acc (SChunk (OtherEvent ty) rest) = anthropic_stream_loop acc rest"
| "anthropic_stream_loop acc SEnd =
     Yield (ChatStreamResponse
       \<lparr>resp_provider = ANTHROPIC, resp_model = aac_model acc,
        resp_content = concat (aac_parts acc), resp_tokens_in = aac_tokens_in acc,
        resp_tokens_out = aac_tokens_out acc,
        resp_finish_reason = finish_reason_get ANTHROPIC_FINISH_REASON_MAP (aac_stop_reason acc),
        resp_request_id = str_or_empty (aac_request_id acc)\<rparr>) Return"
| "anthropic_stream_loop acc (SFail e) =
     Raise (anthropic_raise_stream_failure e (aac_parts acc) (aac_tokens_in acc)
       (aac_tokens_out acc) (aac_request_id acc) (aac_model acc))"

definition anthropic_stream ::
  "(anthropic_params \<Rightarrow> anthropic_event sdk_stream) \<Rightarrow> chat_request \<Rightarrow> event_gen" where
  "anthropic_stream script request =
     anthropic_stream_loop
       \<lparr>aac_parts = [], aac_request_id = None, aac_model = req_model request,
        aac_tokens_in = 0, aac_tokens_out = 0, aac_stop_reason = None\<rparr>
       (script (anthropic_params_of request))"

subsection \<open>The contract of an adapter\<close>

text \<open>
  \<open>ProviderAdapter.stream\<close> promises deltas and then exactly one response with their
  accumulated text. \<open>stream_ok prov sent g\<close>: the generator keeps that promise after
  \<open>sent\<close> has been delivered; once text is out, an upstream failure is an interruption
  that carries the text sent as partial usage, and before that it is not an interruption.
\<close>

fun stream_ok :: "provider_enum \<Rightarrow> string \<Rightarrow> event_gen \<Rightarrow> bool" where
  "stream_ok prov sent (Yield (ChatStreamDelta t) g) = (t \<noteq> [] \<and> stream_ok prov (sent @ t) g)"
| "stream_ok prov sent (Yield (ChatStreamResponse r) g) =
     (g = Return \<and> resp_provider r = prov \<and> resp_content r = sent \<and>
      resp_finish_reason r \<in> set VALID_FINISH_REASONS)"
| "stream_ok prov sent Return = False"
| "stream_ok prov sent (Raise e) =
     (case e of
        UpstreamStreamInterrupted m p \<Rightarrow> sent \<noteq> [] \<and>
          (case p of None \<Rightarrow> False
           | Some r \<Rightarrow> resp_provider r = prov \<and> resp_content r = sent \<and>
               resp_finish_reason r \<in> set VALID_FINISH_REASONS)
      | _ \<Rightarrow> sent \<noteq> [] \<longrightarrow> \<not> is_UpstreamUnavailable e \<and> \<not> is_UpstreamAmbiguous e)"

fun gen_events :: "'e agen \<Rightarrow> 'e list" where
  "gen_events (Yield e g) = e # gen_events g"
| "gen_events Return = []"
| "gen_events (Raise x) = []"

fun gen_end :: "'e agen \<Rightarrow> exn option" where
  "gen_end (Yield e g) = gen_end g"
| "gen_end Return = None"
| "gen_end (Raise x) = Some x"

lemma stream_ok_finished:
  "stream_ok prov sent g \<Longrightarrow> gen_end g = None \<Longrightarrow>
    \<exists>ds r. gen_events g = map ChatStreamDelta ds @ [ChatStreamResponse r] \<and>
      resp_content r = sent @ concat ds \<and> resp_provider r = prov \<and>
      resp_finish_reason r \<in> set VALID_FINISH_REASONS"
proof (induction prov sent g rule: stream_ok.induct)
  case (1 prov sent t g)
  then obtain ds r where "gen_events g = map ChatStreamDelta ds @ [ChatStreamResponse r]"
    "resp_content r = (sent @ t) @ concat ds" "resp_provider r = prov"
    "resp_finish_reason r \<in> set VALID_FINISH_REASONS"
    by auto
  then show ?case by (intro exI [of _ "t # ds"] exI [of _ r]) simp
qed auto

lemma stream_ok_raised:
  "stream_ok prov sent g \<Longrightarrow> gen_end g = Some e \<Longrightarrow>
    \<exists>ds. gen_events g = map ChatStreamDelta ds \<and> [] \<notin> set ds \<and>
      (sent @ concat ds \<noteq> [] \<longrightarrow> is_UpstreamUnavailable e \<or> is_UpstreamAmbiguous e \<longrightarrow>
        (\<exists>m r. e = UpstreamStreamInterrupted m (Some r) \<and> resp_content r = sent @ concat ds \<and>
           resp_provider r = prov \<and> resp_finish_reason r \<in> set VALID_FINISH_REASONS))"
proof (induction prov sent g rule: stream_ok.induct)
  case (1 prov sent t g)
  then obtain ds where "gen_events g = map ChatStreamDelta ds" "[] \<notin> set ds"
    and "is_UpstreamUnavailable e \<or> is_UpstreamAmbiguous e \<longrightarrow>
      (\<exists>m r. e = UpstreamStreamInterrupted m (Some r) \<and> resp_content r = (sent @ t) @ concat ds \<and>
         resp_provider r = prov \<and> resp_finish_reason r \<in> set VALID_FINISH_REASONS)"
    by auto
  with "1.prems" show ?case by (intro exI [of _ "t # ds"]) auto
qed (auto split: exn.splits option.splits)

locale provider_adapter =
  fixes complete :: "chat_request \<Rightarrow> 'w \<Rightarrow> chat_response result \<times> 'w"
    and stream :: "chat_request \<Rightarrow> event_gen"
    and prov :: provider_enum
  assumes complete_normal: "complete req w = (Inr r, w') \<Longrightarrow>
      resp_provider r = prov \<and> resp_finish_reason r \<in> set VALID_FINISH_REASONS"
    and complete_error: "complete req w = (Inl e, w') \<Longrightarrow>
      (\<forall>m p. e \<noteq> UpstreamStreamInterrupted m p) \<and>
      (is_UpstreamUnavailable e \<or> is_UpstreamAmbiguous e \<or> \<not> is_AppError e)"
    and stream_contract: "stream_ok prov [] (stream req)"
begin

lemma stream_finished:
  assumes "gen_end (stream req) = None"
  obtains ds r where "gen_events (stream req) = map ChatStreamDelta ds @ [ChatStreamResponse r]"
    and "resp_content r = concat ds" and "resp_provider r = prov"
    and "resp_finish_reason r \<in> set VALID_FINISH_REASONS"
  using stream_ok_finished [OF stream_contract assms] by auto

lemma stream_raised:
  assumes "gen_end (stream req) = Some e" and "is_UpstreamUnavailable e \<or> is_UpstreamAmbiguous e"
  obtains ds where "gen_events (stream req) = map ChatStreamDelta ds"
    and "ds = [] \<or> (\<exists>m r. e = UpstreamStreamInterrupted m (Some r) \<and> resp_content r = concat ds \<and>
      resp_provider r = prov \<and> resp_finish_reason r \<in> set VALID_FINISH_REASONS)"
proof -
  obtain ds where ds: "gen_events (stream req) = map ChatStreamDelta ds" "[] \<notin> set ds"
    and i: "concat ds \<noteq> [] \<longrightarrow> (\<exists>m r. e = UpstreamStreamInterrupted m (Some r) \<and>
      resp_content r = concat ds \<and> resp_provider r = prov \<and>
      resp_finish_reason r \<in> set VALID_FINISH_REASONS)"
    using stream_ok_raised [OF stream_contract assms(1)] assms(2) by auto
  have "concat ds = [] \<Longrightarrow> ds = []" using ds(2) by (cases ds) auto
  with ds i that show ?thesis by blast
qed

end

subsection \<open>Both adapters keep it\<close>

lemma finish_reason_get_valid:
  assumes "\<forall>f \<in> snd ` set table. f \<in> set VALID_FINISH_REASONS"
  shows "finish_reason_get table raw \<in> set VALID_FINISH_REASONS"
proof -
  have "''stop'' \<in> set VALID_FINISH_REASONS" by (simp add: VALID_FINISH_REASONS_def)
  with assms show ?thesis
    by (auto simp: finish_reason_get_def split: option.splits dest!: map_of_SomeD)
qed

lemma openai_finish_valid [simp]:
  "finish_reason_get OPENAI_FINISH_REASON_MAP raw \<in> set VALID_FINISH_REASONS"
  by (rule finish_reason_get_valid) (simp add: OPENAI_FINISH_REASON_MAP_def VALID_FINISH_REASONS_def)

lemma anthropic_finish_valid [simp]:
  "finish_reason_get ANTHROPIC_FINISH_REASON_MAP raw \<in> set VALID_FINISH_REASONS"
  by (rule finish_reason_get_valid) (simp add: ANTHROPIC_FINISH_REASON_MAP_def VALID_FINISH_REASONS_def)

lemma foreign_not_app [simp]:
  "\<not> is_UpstreamUnavailable (foreign_exn f)" "\<not> is_UpstreamAmbiguous (foreign_exn f)"
  "\<not> is_AppError (foreign_exn f)" "foreign_exn f \<noteq> UpstreamStreamInterrupted m p"
  "foreign_exn f \<noteq> UpstreamUnavailable m" "foreign_exn f \<noteq> UpstreamAmbiguous m"
  "foreign_exn f \<noteq> CircuitOpen m"
  by (cases f; simp add: is_AppError_def)+

lemma clean_error_not_interrupted [simp]: "clean_error name e \<noteq> UpstreamStreamInterrupted m p"
  by (auto simp: clean_error_def split: sdk_exn.splits)

lemma clean_error_class:
  "is_AppError (clean_error name e) \<Longrightarrow>
    is_UpstreamUnavailable (clean_error name e) \<or> is_UpstreamAmbiguous (clean_error name e)"
  by (auto simp: clean_error_def split: sdk_exn.splits)

lemma raise_stream_failure_ok:
  assumes "[] \<notin> set parts"
  shows "stream_ok prov (concat parts) (Raise (raise_stream_failure prov e parts ti to rid m))"
proof (cases "parts = []")
  case True
  then show ?thesis
    by (auto simp: raise_stream_failure_def split: sdk_exn.splits exn.splits)
next
  case False
  with assms have "concat parts \<noteq> []" by (cases parts) auto
  with False show ?thesis
    by (auto simp: raise_stream_failure_def VALID_FINISH_REASONS_def simp del: concat_eq_Nil_conv
        split: sdk_exn.splits exn.splits)
qed

lemma openai_chunk_update_parts [simp]: "oac_parts (openai_chunk_update c acc) = oac_parts acc"
  by (simp add: openai_chunk_update_def Let_def split: option.splits prod.splits)

lemma openai_finish_update_parts [simp]: "oac_parts (openai_finish_update fr acc) = oac_parts acc"
  by (simp add: openai_finish_update_def)

lemma openai_stream_loop_ok:
  "[] \<notin> set (oac_parts acc) \<Longrightarrow> stream_ok OPENAI (concat (oac_parts acc)) (openai_stream_loop acc s)"
proof (induction acc s rule: openai_stream_loop.induct)
  case (1 acc c rest)
  show ?case
  proof (cases "ock_choices c")
    case Nil
    with 1 show ?thesis by (simp add: Let_def)
  next
    case (Cons ch chs)
    obtain content fr where ch: "ch = (content, fr)" by (cases ch)
    show ?thesis
      using 1(2,3) [OF refl Cons ch [symmetric]] 1(4) Cons ch
      by (cases "truthy_str content") (simp_all add: Let_def truthy_str_def)
  qed
qed (auto simp: raise_stream_failure_ok simp del: stream_ok.simps(4))

lemma anthropic_stream_loop_ok:
  "[] \<notin> set (aac_parts acc) \<Longrightarrow>
    stream_ok ANTHROPIC (concat (aac_parts acc)) (anthropic_stream_loop acc s)"
  by (induction acc s rule: anthropic_stream_loop.induct)
    (auto simp: raise_stream_failure_ok truthy_str_def Let_def simp del: stream_ok.simps(4))

interpretation openai: provider_adapter "openai_complete create" "openai_stream script" OPENAI
  for create :: "openai_params \<Rightarrow> 'w \<Rightarrow> (sdk_exn + openai_raw) \<times> 'w" and script
proof unfold_locales
  fix req w r w' e
  show "openai_complete create req w = (Inr r, w') \<Longrightarrow>
      resp_provider r = OPENAI \<and> resp_finish_reason r \<in> set VALID_FINISH_REASONS"
    by (auto simp: openai_complete_def openai_parse_def split: prod.splits sum.splits
        option.splits list.splits)
  show "openai_complete create req w = (Inl e, w') \<Longrightarrow>
      (\<forall>m p. e \<noteq> UpstreamStreamInterrupted m p) \<and>
      (is_UpstreamUnavailable e \<or> is_UpstreamAmbiguous e \<or> \<not> is_AppError e)"
    by (auto simp: openai_complete_def openai_parse_def openai_malformed_def
        dest: clean_error_class split: prod.splits sum.splits option.splits list.splits)
  show "stream_ok OPENAI [] (openai_stream script req)"
    using openai_stream_loop_ok [of "\<lparr>oac_parts = [], oac_request_id = None,
      oac_model = req_model req, oac_tokens_in = 0, oac_tokens_out = 0, oac_finish_raw = None\<rparr>"]
    by (simp add: openai_stream_def)
qed

interpretation anthropic: provider_adapter "anthropic_complete create" "anthropic_stream script" ANTHROPIC
  for create :: "anthropic_params \<Rightarrow> 'w \<Rightarrow> (sdk_exn + anthropic_raw) \<times> 'w" and script
proof unfold_locales
  fix req w r w' e
  show "anthropic_complete create req w = (Inr r, w') \<Longrightarrow>
      resp_provider r = ANTHROPIC \<and> resp_finish_reason r \<in> set VALID_FINISH_REASONS"
    by (auto simp: anthropic_complete_def anthropic_parse_def split: prod.splits sum.splits
        option.splits)
  show "anthropic_complete create req w = (Inl e, w') \<Longrightarrow>
      (\<forall>m p. e \<noteq> UpstreamStreamInterrupted m p) \<and>
      (is_UpstreamUnavailable e \<or> is_UpstreamAmbiguous e \<or> \<not> is_AppError e)"
    by (auto simp: anthropic_complete_def anthropic_parse_def anthropic_malformed_def
        dest: clean_error_class split: prod.splits sum.splits option.splits)
  show "stream_ok ANTHROPIC [] (anthropic_stream script req)"
    using anthropic_stream_loop_ok [of "\<lparr>aac_parts = [], aac_request_id = None,
      aac_model = req_model req, aac_tokens_in = 0, aac_tokens_out = 0, aac_stop_reason = None\<rparr>"]
    by (simp add: anthropic_stream_def)
qed

subsection \<open>Correctness properties\<close>

text \<open>
  The shape of a provider stream: if it ends normally, some deltas and then one response whose
  content is the text of the deltas; if it fails upstream after text was delivered, an
  interruption whose partial response holds exactly the text delivered.
\<close>

definition stream_shape :: "provider_enum \<Rightarrow> event_gen \<Rightarrow> bool" where
  "stream_shape prov g \<longleftrightarrow>
     (gen_end g = None \<longrightarrow>
        (\<exists>ds r. gen_events g = map ChatStreamDelta ds @ [ChatStreamResponse r] \<and>
           resp_content r = concat ds \<and> resp_provider r = prov \<and>
           resp_finish_reason r \<in> set VALID_FINISH_REASONS)) \<and>
     (\<forall>e. gen_end g = Some e \<and> (is_UpstreamUnavailable e \<or> is_UpstreamAmbiguous e) \<longrightarrow>
        (\<exists>ds. gen_events g = map ChatStreamDelta ds \<and>
           (ds = [] \<or> (\<exists>m r. e = UpstreamStreamInterrupted m (Some r) \<and>
              resp_content r = concat ds \<and> resp_provider r = prov \<and>
              resp_finish_reason r \<in> set VALID_FINISH_REASONS))))"

text \<open>
  C31. Both adapters keep the streaming contract for every request and every sequence of
  chunks the SDK can deliver, well formed or cut short: no text is lost, duplicated or
  reordered between the deltas and the terminal response, nothing follows the response, the
  provider is the adapter's own, the finish reason is one the usage record accepts, and a
  failure after the first delta always carries the partial text for billing.
\<close>

theorem adapter_stream_contract:
  "stream_shape OPENAI (openai_stream script req) \<and>
   stream_shape ANTHROPIC (anthropic_stream script' req')"
proof
  show "stream_shape OPENAI (openai_stream script req)"
    unfolding stream_shape_def by (metis openai.stream_finished openai.stream_raised)
  show "stream_shape ANTHROPIC (anthropic_stream script' req')"
    unfolding stream_shape_def by (metis anthropic.stream_finished anthropic.stream_raised)
qed

text \<open>
  What an adapter must make of the SDK's answer: a failure is reported as never executed
  exactly for a connection that was not established and for a status below 500, as of
  unknown outcome exactly for a timeout, a status from 500 on and any other SDK error; a
  response is parsed or reported as of unknown outcome.
\<close>

fun never_executed :: "sdk_exn \<Rightarrow> bool" where
  "never_executed (APIConnectionError m) = True"
| "never_executed (APIStatusError code m) = (code < 500)"
| "never_executed _ = False"

fun outcome_unknown :: "sdk_exn \<Rightarrow> bool" where
  "outcome_unknown (APITimeoutError m) = True"
| "outcome_unknown (APIStatusError code m) = (500 \<le> code)"
| "outcome_unknown (SDKError m) = True"
| "outcome_unknown _ = False"

fun classified :: "provider_enum \<Rightarrow> sdk_exn + 'raw \<Rightarrow> chat_response result \<Rightarrow> bool" where
  "classified prov (Inl e) (Inl x) = ((is_UpstreamUnavailable x \<longleftrightarrow> never_executed e) \<and>
     (is_UpstreamAmbiguous x \<longleftrightarrow> outcome_unknown e))"
| "classified prov (Inl e) (Inr r) = False"
| "classified prov (Inr raw) (Inl x) = is_UpstreamAmbiguous x"
| "classified prov (Inr raw) (Inr r) = (resp_provider r = prov \<and>
     resp_finish_reason r \<in> set VALID_FINISH_REASONS)"

lemma clean_error_classified:
  "is_UpstreamUnavailable (clean_error name e) \<longleftrightarrow> never_executed e"
  "is_UpstreamAmbiguous (clean_error name e) \<longleftrightarrow> outcome_unknown e"
  by (cases e; auto simp: clean_error_def)+

text \<open>
  C32. Failure classification of the non-streaming calls of both adapters, for every answer
  of the SDK: a failure is safe to retry elsewhere exactly when the request cannot have been
  executed (no connection, or rejected below 500), it is of unknown outcome exactly for a
  timeout, a server error or another SDK error, and a response that arrived but cannot be
  parsed is of unknown outcome, never safe to retry; a parsed response has the adapter's
  provider and a valid finish reason. The SDK is called exactly once.
\<close>

theorem adapter_failure_classification:
  "(case create_o (openai_params_of req) w of (sdk, w') \<Rightarrow>
      (\<exists>res. openai_complete create_o req w = (res, w') \<and> classified OPENAI sdk res)) \<and>
   (case create_a (anthropic_params_of req) w of (sdk, w') \<Rightarrow>
      (\<exists>res. anthropic_complete create_a req w = (res, w') \<and> classified ANTHROPIC sdk res))"
  by (simp add: openai_complete_def anthropic_complete_def clean_error_classified openai_parse_def
      openai_malformed_def anthropic_parse_def anthropic_malformed_def
      split: prod.splits sum.splits option.splits list.splits)

end
