(* ===== verification/Resilient_Adapter.thy ===== *)
theory Resilient_Adapter
  imports Relayix_Config Circuit_Breaker Provider_Adapters
begin

text \<open>
  The resilient adapter (\<open>app/core/resilience/resilient_adapter.py\<close>) and the adapter
  registry (\<open>app/core/adapters/registry.py\<close>).

  The world of the adapters is a record: the breaker of each provider (the registry builds
  one per provider), a ghost counter \<open>executions\<close> of the upstream calls that may have
  been executed, and the rest (clock, SDK connections, other tasks). An awaited call is a
  function on the world, so whatever other tasks do to the breakers meanwhile is part of
  it. \<open>asyncio.timeout\<close> is read off the clock: when the awaited call has used up the
  limit, its answer is a \<open>TimeoutError\<close>. An async generator is a state machine with
  the operations \<open>__anext__\<close> and \<open>aclose\<close>.
\<close>

subsection \<open>World and generators\<close>

record 'x world =
  breakers :: "provider_enum \<Rightarrow> circuit_breaker"
  executions :: nat
  outer :: 'x

definition on_breaker :: "provider_enum \<Rightarrow> (circuit_breaker \<Rightarrow> circuit_breaker) \<Rightarrow> 'x world \<Rightarrow> 'x world" where
  "on_breaker p f w = w\<lparr>breakers := (breakers w)(p := f (breakers w p))\<rparr>"

datatype 'v pull = Yielded 'v | Stopped | Raised exn

type_synonym ('g, 'w) anext = "'g \<Rightarrow> 'w \<Rightarrow> (chat_stream_event pull \<times> 'g) \<times> 'w"

record ('g, 'w) adapter =
  ad_complete :: "chat_request \<Rightarrow> 'w \<Rightarrow> chat_response result \<times> 'w"
  ad_stream :: "chat_request \<Rightarrow> 'g"
  ad_anext :: "('g, 'w) anext"

definition deadline :: "('x \<Rightarrow> seconds) \<Rightarrow> seconds \<Rightarrow> 'x world \<Rightarrow> 'x world \<Rightarrow> bool" where
  "deadline clock limit w w' = (clock (outer w') - clock (outer w) \<ge> limit)"

subsection \<open>\<open>ResilientAdapter.complete\<close>\<close>

definition ra_complete ::
  "('x \<Rightarrow> seconds) \<Rightarrow> seconds \<Rightarrow> provider_enum
   \<Rightarrow> (chat_request \<Rightarrow> 'x world \<Rightarrow> chat_response result \<times> 'x world)
   \<Rightarrow> chat_request \<Rightarrow> 'x world \<Rightarrow> chat_response result \<times> 'x world" where
  "ra_complete clock timeout_s provider inner request w =
     (let ((allowed, generation), cb) = cb_allow (clock (outer w)) (breakers w provider);
          w1 = on_breaker provider (\<lambda>_. cb) w
      in if \<not> allowed then
           (Inl (CircuitOpen [Lit ''circuit open for provider '', Lit (provider_value provider)]), w1)
         else
           (let (answer, w2) = inner request w1;
                answer = (if deadline clock timeout_s w1 w2 then Inl TimeoutError else answer)
            in case answer of
                 Inl e \<Rightarrow>
                   (if e = TimeoutError then
                      (Inl (UpstreamAmbiguous [Lit (provider_value provider),
                         Lit '' timed out after '', FloatS timeout_s, Lit ''s'']),
                       on_breaker provider (cb_record_failure (clock (outer w2)) generation) w2)
                    else if is_Exception e then
                      (Inl e, on_breaker provider (cb_record_failure (clock (outer w2)) generation) w2)
                    else (Inl e, on_breaker provider (cb_record_abort generation) w2))
               | Inr response \<Rightarrow>
                   (Inr response, on_breaker provider (cb_record_success generation) w2)))"

subsection \<open>\<open>ResilientAdapter.stream\<close>\<close>

text \<open>
  The suspended generator: not started, at the \<open>yield\<close> of a delta (or about to loop),
  at the \<open>yield\<close> of the response, finished. \<open>'g\<close> is the state of the inner
  generator, which the \<open>finally\<close> clause closes.
\<close>

datatype 'g ra_gen =
    RA_Start chat_request
  | RA_Loop int 'g bool
  | RA_Responded int 'g
  | RA_Closed

definition ra_stream :: "chat_request \<Rightarrow> 'g ra_gen" where
  "ra_stream request = RA_Start request"

text \<open>One round of the \<open>while\<close> loop, up to the next \<open>yield\<close> or the end.\<close>

definition ra_round ::
  "('x \<Rightarrow> seconds) \<Rightarrow> seconds \<Rightarrow> provider_enum \<Rightarrow> ('g, 'x world) anext
   \<Rightarrow> int \<Rightarrow> 'g \<Rightarrow> bool \<Rightarrow> 'x world \<Rightarrow> (chat_stream_event pull \<times> 'g ra_gen) \<times> 'x world" where
  "ra_round clock timeout_s provider inner_anext generation inner_iter emitted_any w =
     (let ((answer, inner_iter), w1) = inner_anext inner_iter w;
          answer = (if deadline clock timeout_s w w1 then Raised TimeoutError else answer);
          fail = (\<lambda>e. ((Raised e, RA_Closed),
                       on_breaker provider (cb_record_failure (clock (outer w1)) generation) w1))
      in case answer of
           Stopped \<Rightarrow> ((Stopped, RA_Closed), w1)
         | Raised e \<Rightarrow>
             (if e = TimeoutError then
                fail (if emitted_any then
                        UpstreamStreamInterrupted [Lit (provider_value provider),
                          Lit '' stalled mid-stream after '', FloatS timeout_s, Lit ''s''] None
                      else
                        UpstreamAmbiguous [Lit (provider_value provider),
                          Lit '' timed out after '', FloatS timeout_s, Lit ''s''])
              else if is_Exception e then fail e
              else ((Raised e, RA_Closed), on_breaker provider (cb_record_abort generation) w1))
         | Yielded (ChatStreamResponse r) \<Rightarrow>
             ((Yielded (ChatStreamResponse r), RA_Responded generation inner_iter), w1)
         | Yielded (ChatStreamDelta t) \<Rightarrow>
             ((Yielded (ChatStreamDelta t), RA_Loop generation inner_iter True), w1))"

fun ra_anext ::
  "('x \<Rightarrow> seconds) \<Rightarrow> seconds \<Rightarrow> provider_enum \<Rightarrow> (chat_request \<Rightarrow> 'g) \<Rightarrow> ('g, 'x world) anext
   \<Rightarrow> 'g ra_gen \<Rightarrow> 'x world \<Rightarrow> (chat_stream_event pull \<times> 'g ra_gen) \<times> 'x world" where
  "ra_anext clock timeout_s provider inner_stream inner_anext (RA_Start request) w =
     (let ((allowed, generation), cb) = cb_allow (clock (outer w)) (breakers w provider);
          w1 = on_breaker provider (\<lambda>_. cb) w
      in if \<not> allowed then
           ((Raised (CircuitOpen
               [Lit ''circuit open for provider '', Lit (provider_value provider)]), RA_Closed), w1)
         else ra_round clock timeout_s provider inner_anext generation (inner_stream request) False w1)"
| "ra_anext clock timeout_s provider inner_stream inner_anext (RA_Loop generation inner_iter emitted_any) w =
     ra_round clock timeout_s provider inner_anext generation inner_iter emitted_any w"
| "ra_anext clock timeout_s provider inner_stream inner_anext (RA_Responded generation inner_iter) w =
     ((Stopped, RA_Closed), on_breaker provider (cb_record_success generation) w)"
| "ra_anext clock timeout_s provider inner_stream inner_anext RA_Closed w = ((Stopped, RA_Closed), w)"

text \<open>
  \<open>aclose\<close>, also run by the event loop's finaliser when the generator is dropped:
  \<open>GeneratorExit\<close> at the suspended \<open>yield\<close> is a \<open>BaseException\<close>.
\<close>

fun ra_aclose :: "provider_enum \<Rightarrow> 'g ra_gen \<Rightarrow> 'x world \<Rightarrow> 'g ra_gen \<times> 'x world" where
  "ra_aclose provider (RA_Start request) w = (RA_Closed, w)"
| "ra_aclose provider (RA_Loop generation inner_iter emitted_any) w =
     (RA_Closed, on_breaker provider (cb_record_abort generation) w)"
| "ra_aclose provider (RA_Responded generation inner_iter) w =
     (RA_Closed, on_breaker provider (cb_record_abort generation) w)"
| "ra_aclose provider RA_Closed w = (RA_Closed, w)"

definition resilient_adapter ::
  "('x \<Rightarrow> seconds) \<Rightarrow> seconds \<Rightarrow> provider_enum \<Rightarrow> ('g, 'x world) adapter
   \<Rightarrow> ('g ra_gen, 'x world) adapter" where
  "resilient_adapter clock timeout_s provider inner =
     \<lparr>ad_complete = ra_complete clock timeout_s provider (ad_complete inner),
      ad_stream = ra_stream,
      ad_anext = ra_anext clock timeout_s provider (ad_stream inner) (ad_anext inner)\<rparr>"

subsection \<open>The provider adapters in the world\<close>

text \<open>
  What other tasks and the network do while a call is awaited: it may change the breakers
  and everything else but the ghost counter.
\<close>

type_synonym 'x awaiting =
  "(provider_enum \<Rightarrow> circuit_breaker) \<times> 'x \<Rightarrow> (provider_enum \<Rightarrow> circuit_breaker) \<times> 'x"

definition await :: "'x awaiting \<Rightarrow> 'x world \<Rightarrow> 'x world" where
  "await io w = (let (bs, x) = io (breakers w, outer w) in w\<lparr>breakers := bs, outer := x\<rparr>)"

definition count_execution :: "bool \<Rightarrow> 'x world \<Rightarrow> 'x world" where
  "count_execution b w = (if b then w\<lparr>executions := executions w + 1\<rparr> else w)"

text \<open>
  The SDK call with the ghost counter: every call counts, but the ones the SDK reports as
  not connected or rejected below 500.
\<close>

type_synonym ('p, 'raw, 'x) sdk_call =
  "'p \<Rightarrow> (provider_enum \<Rightarrow> circuit_breaker) \<times> 'x
   \<Rightarrow> (sdk_exn + 'raw) \<times> (provider_enum \<Rightarrow> circuit_breaker) \<times> 'x"

definition may_have_executed :: "sdk_exn + 'raw \<Rightarrow> bool" where
  "may_have_executed r = (case r of Inl e \<Rightarrow> \<not> never_executed e | Inr raw \<Rightarrow> True)"

definition counted :: "('p, 'raw, 'x) sdk_call \<Rightarrow> 'p \<Rightarrow> 'x world \<Rightarrow> (sdk_exn + 'raw) \<times> 'x world" where
  "counted create params w =
     (let (r, (bs, x)) = create params (breakers w, outer w)
      in (r, count_execution (may_have_executed r) (w\<lparr>breakers := bs, outer := x\<rparr>)))"

text \<open>
  The generator of a provider adapter as an object: whether its first \<open>__anext__\<close>,
  which sends the request, is an execution to be counted, and its events. A stream counts
  unless opening it fails in a way that shows it was not executed.
\<close>

type_synonym sdk_gen = "bool \<times> event_gen"

fun stream_executes :: "'c sdk_stream \<Rightarrow> bool" where
  "stream_executes (SFail e) = (\<not> never_executed e)"
| "stream_executes _ = True"

fun sdk_anext :: "'x awaiting \<Rightarrow> (sdk_gen, 'x world) anext" where
  "sdk_anext io (counts, Raise e) w = ((Raised e, (False, Return)), count_execution counts (await io w))"
| "sdk_anext io (counts, Return) w = ((Stopped, (False, Return)), count_execution counts (await io w))"
| "sdk_anext io (counts, Yield v g) w = ((Yielded v, (False, g)), count_execution counts (await io w))"

definition openai_adapter ::
  "(openai_params, openai_raw, 'x) sdk_call \<Rightarrow> (openai_params \<Rightarrow> openai_chunk sdk_stream)
   \<Rightarrow> 'x awaiting \<Rightarrow> (sdk_gen, 'x world) adapter" where
  "openai_adapter create script io =
     \<lparr>ad_complete = openai_complete (counted create),
      ad_stream = (\<lambda>request.
        (stream_executes (script (openai_params_of request)), openai_stream script request)),
      ad_anext = sdk_anext io\<rparr>"

definition anthropic_adapter ::
  "(anthropic_params, anthropic_raw, 'x) sdk_call \<Rightarrow> (anthropic_params \<Rightarrow> anthropic_event sdk_stream)
   \<Rightarrow> 'x awaiting \<Rightarrow> (sdk_gen, 'x world) adapter" where
  "anthropic_adapter create script io =
     \<lparr>ad_complete = anthropic_complete (counted create),
      ad_stream = (\<lambda>request.
        (stream_executes (script (anthropic_params_of request)), anthropic_stream script request)),
      ad_anext = sdk_anext io\<rparr>"

subsection \<open>The registry\<close>

type_synonym ('g, 'w) registry_map = "provider_enum \<Rightarrow> ('g, 'w) adapter option"

definition registry_register ::
  "provider_enum \<Rightarrow> ('g, 'w) adapter \<Rightarrow> ('g, 'w) registry_map \<Rightarrow> ('g, 'w) registry_map" where
  "registry_register provider adapter adapters = adapters(provider \<mapsto> adapter)"

definition registry_get :: "('g, 'w) registry_map \<Rightarrow> provider_enum \<Rightarrow> ('g, 'w) adapter result" where
  "registry_get adapters provider = (case adapters provider of
       Some a \<Rightarrow> Inr a
     | None \<Rightarrow> Inl (AdapterNotRegistered [Lit ''no adapter registered for provider '', ReprP provider]))"

text \<open>The breakers \<open>_with_resilience\<close> creates, one for each provider.\<close>

definition fresh_breaker :: "settings \<Rightarrow> circuit_breaker" where
  "fresh_breaker config =
     cb_init (circuit_breaker_fail_threshold config) (circuit_breaker_reset_timeout_s config)"

definition with_resilience ::
  "('x \<Rightarrow> seconds) \<Rightarrow> (sdk_gen, 'x world) adapter \<Rightarrow> provider_enum \<Rightarrow> settings \<Rightarrow> 'x world
   \<Rightarrow> (sdk_gen ra_gen, 'x world) adapter \<times> 'x world" where
  "with_resilience clock inner provider config w =
     (resilient_adapter clock (provider_timeout_s config) provider inner,
      on_breaker provider (\<lambda>_. fresh_breaker config) w)"

text \<open>\<open>openai\<close> and \<open>anthropic\<close> build the SDK-backed adapter from a key and a timeout.\<close>

definition build_registry ::
  "('x \<Rightarrow> seconds) \<Rightarrow> (string \<Rightarrow> seconds \<Rightarrow> (sdk_gen, 'x world) adapter)
   \<Rightarrow> (string \<Rightarrow> seconds \<Rightarrow> (sdk_gen, 'x world) adapter) \<Rightarrow> settings \<Rightarrow> 'x world
   \<Rightarrow> (sdk_gen ra_gen, 'x world) registry_map \<times> 'x world" where
  "build_registry clock openai anthropic config w =
     (let registry = Map.empty;
          (registry, w) =
            (if opt_str_truthy (openai_api_key config) then
               let (a, w) = with_resilience clock
                     (openai (the (openai_api_key config)) (provider_timeout_s config)) OPENAI config w
               in (registry_register OPENAI a registry, w)
             else (registry, w))
      in if opt_str_truthy (anthropic_api_key config) then
           let (a, w) = with_resilience clock
                 (anthropic (the (anthropic_api_key config)) (provider_timeout_s config)) ANTHROPIC config w
           in (registry_register ANTHROPIC a registry, w)
         else (registry, w))"

subsection \<open>What an awaited call reports\<close>

lemma on_breaker_simps [simp]:
  "breakers (on_breaker p f w) = (breakers w)(p := f (breakers w p))"
  "executions (on_breaker p f w) = executions w" "outer (on_breaker p f w) = outer w"
  by (simp_all add: on_breaker_def)

lemma on_breaker_same: "f (breakers w p) = breakers w p \<Longrightarrow> on_breaker p f w = w"
  by (simp add: on_breaker_def)

lemma await_executions [simp]: "executions (await io w) = executions w"
  by (simp add: await_def split: prod.splits)

lemma count_execution_simps [simp]:
  "executions (count_execution b w) = executions w + (if b then 1 else 0)"
  "breakers (count_execution b w) = breakers w" "outer (count_execution b w) = outer w"
  by (simp_all add: count_execution_def)

text \<open>The outcome the breaker is told for what the awaited call came to.\<close>

fun outcome_of :: "'a result \<Rightarrow> call_outcome" where
  "outcome_of (Inr r) = Succeeded"
| "outcome_of (Inl e) = (if is_Exception e then Failed else Aborted)"

definition within_limit :: "('x \<Rightarrow> seconds) \<Rightarrow> seconds \<Rightarrow> 'x world \<Rightarrow> 'x world \<Rightarrow> 'a result \<Rightarrow> 'a result" where
  "within_limit clock limit w w' r = (if deadline clock limit w w' then Inl TimeoutError else r)"

definition timed_out :: "seconds \<Rightarrow> provider_enum \<Rightarrow> exn" where
  "timed_out limit p =
     UpstreamAmbiguous [Lit (provider_value p), Lit '' timed out after '', FloatS limit, Lit ''s'']"

definition circuit_open_for :: "provider_enum \<Rightarrow> exn" where
  "circuit_open_for p = CircuitOpen [Lit ''circuit open for provider '', Lit (provider_value p)]"

lemma upstream_kinds [simp]:
  "is_UpstreamAmbiguous (timed_out limit p)" "\<not> is_UpstreamUnavailable (timed_out limit p)"
  "is_UpstreamUnavailable (circuit_open_for p)" "\<not> is_UpstreamAmbiguous (circuit_open_for p)"
  by (simp_all add: timed_out_def circuit_open_for_def)

lemma ra_complete_rejected:
  assumes "cb_allow (clock (outer w)) (breakers w p) = ((False, g), cb)"
  shows "ra_complete clock limit p inner req w = (Inl (circuit_open_for p), w)"
  using assms cbg.reject_same [OF assms]
  by (simp add: ra_complete_def on_breaker_same circuit_open_for_def)

lemma ra_complete_admitted:
  assumes "cb_allow (clock (outer w)) (breakers w p) = ((True, g), cb)"
    and "inner req (on_breaker p (\<lambda>_. cb) w) = (ans, w2)"
    and "ans' = within_limit clock limit (on_breaker p (\<lambda>_. cb) w) w2 ans"
  shows "ra_complete clock limit p inner req w =
    ((if ans' = Inl TimeoutError then Inl (timed_out limit p) else ans'),
     on_breaker p (cbg.report (clock (outer w2)) g (outcome_of ans')) w2)"
  using assms
  by (cases ans)
    (simp_all add: ra_complete_def Let_def within_limit_def timed_out_def cbg.report_def)

subsection \<open>The contract towards the gateway\<close>

text \<open>
  What failover relies on: a call adds at most one execution, one if it gives a response and
  none when it fails as unavailable, and the application errors it raises are upstream ones.
\<close>

locale upstream_calls =
  fixes complete :: "chat_request \<Rightarrow> 'w \<Rightarrow> chat_response result \<times> 'w"
    and execs :: "'w \<Rightarrow> nat"
  assumes unavailable_unexecuted:
      "complete req w = (Inl e, w') \<Longrightarrow> is_UpstreamUnavailable e \<Longrightarrow> execs w' = execs w"
    and executed_once: "complete req w = (r, w') \<Longrightarrow> execs w \<le> execs w' \<and> execs w' \<le> execs w + 1"
    and response_executed: "complete req w = (Inr resp, w') \<Longrightarrow> execs w' = execs w + 1"
    and upstream_error: "complete req w = (Inl e, w') \<Longrightarrow>
      is_UpstreamUnavailable e \<or> is_UpstreamAmbiguous e \<or> \<not> is_AppError e"

lemma counted_executions:
  "counted create params w = (r, w') \<Longrightarrow>
    executions w' = executions w + (if may_have_executed r then 1 else 0)"
  by (auto simp: counted_def split: prod.splits)

interpretation openai_up: upstream_calls "openai_complete (counted create)" executions
  for create :: "(openai_params, openai_raw, 'x) sdk_call"
proof unfold_locales
  fix req w e w' r
  assume "openai_complete (counted create) req w = (Inl e, w')" and "is_UpstreamUnavailable e"
  then show "executions w' = executions w"
    by (auto simp: openai_complete_def clean_error_classified may_have_executed_def openai_parse_def
        openai_malformed_def dest!: counted_executions split: prod.splits sum.splits option.splits list.splits)
next
  fix req w r w'
  assume "openai_complete (counted create) req w = (r, w')"
  then show "executions w \<le> executions w' \<and> executions w' \<le> executions w + 1"
    by (auto simp: openai_complete_def dest!: counted_executions split: prod.splits sum.splits)
next
  fix req w r w' e
  show "openai_complete (counted create) req w = (Inr r, w') \<Longrightarrow> executions w' = executions w + 1"
    by (auto simp: openai_complete_def may_have_executed_def dest!: counted_executions
        split: prod.splits sum.splits)
  show "openai_complete (counted create) req w = (Inl e, w') \<Longrightarrow>
      is_UpstreamUnavailable e \<or> is_UpstreamAmbiguous e \<or> \<not> is_AppError e"
    by (drule openai.complete_error) (erule conjE, assumption)
qed

interpretation anthropic_up: upstream_calls "anthropic_complete (counted create)" executions
  for create :: "(anthropic_params, anthropic_raw, 'x) sdk_call"
proof unfold_locales
  fix req w e w' r
  assume "anthropic_complete (counted create) req w = (Inl e, w')" and "is_UpstreamUnavailable e"
  then show "executions w' = executions w"
    by (auto simp: anthropic_complete_def clean_error_classified may_have_executed_def anthropic_parse_def
        anthropic_malformed_def dest!: counted_executions split: prod.splits sum.splits option.splits)
next
  fix req w r w'
  assume "anthropic_complete (counted create) req w = (r, w')"
  then show "executions w \<le> executions w' \<and> executions w' \<le> executions w + 1"
    by (auto simp: anthropic_complete_def dest!: counted_executions split: prod.splits sum.splits)
next
  fix req w r w' e
  show "anthropic_complete (counted create) req w = (Inr r, w') \<Longrightarrow> executions w' = executions w + 1"
    by (auto simp: anthropic_complete_def may_have_executed_def dest!: counted_executions
        split: prod.splits sum.splits)
  show "anthropic_complete (counted create) req w = (Inl e, w') \<Longrightarrow>
      is_UpstreamUnavailable e \<or> is_UpstreamAmbiguous e \<or> \<not> is_AppError e"
    by (drule anthropic.complete_error) (erule conjE, assumption)
qed

text \<open>The wrapper keeps the contract: it never turns a call that may have run into a safe one.\<close>

lemma ra_complete_upstream:
  assumes "upstream_calls inner executions"
  shows "upstream_calls (ra_complete clock limit p inner) executions"
proof -
  have key: "executions w \<le> executions w' \<and> executions w' \<le> executions w + 1 \<and>
      (\<forall>e. r = Inl e \<longrightarrow> (is_UpstreamUnavailable e \<longrightarrow> executions w' = executions w) \<and>
        (is_UpstreamUnavailable e \<or> is_UpstreamAmbiguous e \<or> \<not> is_AppError e)) \<and>
      (\<forall>resp. r = Inr resp \<longrightarrow> executions w' = executions w + 1)"
    if run: "ra_complete clock limit p inner req w = (r, w')" for req w r w'
  proof -
    obtain ok g cb where al: "cb_allow (clock (outer w)) (breakers w p) = ((ok, g), cb)"
      by (metis prod.collapse)
    show ?thesis
    proof (cases ok)
      case False
      with al run show ?thesis by (auto simp: ra_complete_rejected)
    next
      case True
      let ?w1 = "on_breaker p (\<lambda>_. cb) w"
      obtain ans w2 where inn: "inner req ?w1 = (ans, w2)" by fastforce
      from True al run ra_complete_admitted [of clock w p g cb inner req ans w2 _ limit, OF _ inn refl]
      have r: "r = (let a = within_limit clock limit ?w1 w2 ans
          in if a = Inl TimeoutError then Inl (timed_out limit p) else a)"
        and x: "executions w' = executions w2" by auto
      have "executions w \<le> executions w2 \<and> executions w2 \<le> executions w + 1"
        using upstream_calls.executed_once [OF assms inn] by simp
      moreover have "executions w2 = executions w" if "ans = Inl e" "is_UpstreamUnavailable e" for e
        using upstream_calls.unavailable_unexecuted [OF assms] inn that by fastforce
      moreover have "executions w2 = executions w + 1" if "ans = Inr resp" for resp
        using upstream_calls.response_executed [OF assms] inn that by fastforce
      moreover have "is_UpstreamUnavailable e \<or> is_UpstreamAmbiguous e \<or> \<not> is_AppError e"
        if "ans = Inl e" for e
        using upstream_calls.upstream_error [OF assms] inn that by blast
      ultimately show ?thesis using r x
        by (auto simp: Let_def within_limit_def split: if_splits)
    qed
  qed
  show ?thesis
    by unfold_locales (use key in blast)+
qed

subsection \<open>Driving a stream to its end\<close>

text \<open>
  A consumer that keeps calling \<open>__anext__\<close>: the events it gets, how the iteration
  ended (\<open>None\<close>: not within \<open>n\<close> calls), and the generator it is left with.
\<close>

fun drive :: "('g, 'w) anext \<Rightarrow> nat \<Rightarrow> 'g \<Rightarrow> 'w
    \<Rightarrow> (chat_stream_event list \<times> exn option option) \<times> 'g \<times> 'w" where
  "drive anext 0 g w = (([], None), (g, w))"
| "drive anext (Suc n) g w =
     (case anext g w of
        ((Yielded v, g'), w') \<Rightarrow> (case drive anext n g' w' of ((vs, r), s) \<Rightarrow> ((v # vs, r), s))
      | ((Stopped, g'), w') \<Rightarrow> (([], Some None), (g', w'))
      | ((Raised e, g'), w') \<Rightarrow> (([], Some (Some e)), (g', w')))"

text \<open>Awaits that keep under the limit and leave one provider's breaker alone.\<close>

definition quiet :: "('x \<Rightarrow> seconds) \<Rightarrow> seconds \<Rightarrow> provider_enum \<Rightarrow> 'x awaiting \<Rightarrow> bool" where
  "quiet clock limit p io \<longleftrightarrow>
     (\<forall>bs x. clock (snd (io (bs, x))) - clock x < limit \<and> fst (io (bs, x)) p = bs p)"

lemma quiet_await:
  assumes "quiet clock limit p io"
  shows "\<not> deadline clock limit w (await io w)" and "breakers (await io w) p = breakers w p"
proof -
  obtain bs x where "io (breakers w, outer w) = (bs, x)" by fastforce
  then show "\<not> deadline clock limit w (await io w)" and "breakers (await io w) p = breakers w p"
    using assms [unfolded quiet_def, rule_format, of "breakers w" "outer w"]
    by (simp_all add: await_def deadline_def)
qed

lemma sdk_anext_eq:
  "sdk_anext io (c, g) w =
     ((case g of Yield v g' \<Rightarrow> (Yielded v, (False, g')) | Return \<Rightarrow> (Stopped, (False, Return))
       | Raise e \<Rightarrow> (Raised e, (False, Return))), count_execution c (await io w))"
  by (cases g) simp_all

lemma ra_round_quiet:
  assumes "quiet clock limit p io"
  shows "ra_round clock limit p (sdk_anext io) g (c, gen) emitted w =
    (let w1 = count_execution c (await io w) in
     case gen of
       Yield (ChatStreamDelta t) gen' \<Rightarrow> ((Yielded (ChatStreamDelta t), RA_Loop g (False, gen') True), w1)
     | Yield (ChatStreamResponse r) gen' \<Rightarrow>
         ((Yielded (ChatStreamResponse r), RA_Responded g (False, gen')), w1)
     | Return \<Rightarrow> ((Stopped, RA_Closed), w1)
     | Raise e \<Rightarrow> ((Raised (if e = TimeoutError then
             (if emitted then UpstreamStreamInterrupted [Lit (provider_value p),
                Lit '' stalled mid-stream after '', FloatS limit, Lit ''s''] None
              else timed_out limit p) else e), RA_Closed),
           on_breaker p (cbg.report (clock (outer w1)) g (outcome_of (Inl e :: unit result))) w1))"
  using quiet_await(1) [OF assms, of w]
  by (auto simp: ra_round_def sdk_anext_eq Let_def deadline_def timed_out_def cbg.report_def
      split: agen.splits chat_stream_event.splits)

definition end_outcome :: "exn option \<Rightarrow> call_outcome" where
  "end_outcome x = (case x of None \<Rightarrow> Succeeded | Some e \<Rightarrow> outcome_of (Inl e :: unit result))"

lemma ra_drive:
  assumes q: "quiet clock limit p io"
    and "stream_ok prov sent gen" and "gen_end gen \<noteq> Some TimeoutError"
    and "length (gen_events gen) + 2 \<le> n"
  shows "\<exists>w'. drive (ra_anext clock limit p st (sdk_anext io)) n (RA_Loop g (c, gen) emitted) w =
      ((gen_events gen, Some (gen_end gen)), (RA_Closed, w')) \<and>
    executions w' = executions w + (if c then 1 else 0) \<and>
    breakers w' p = cbg.report (clock (outer w')) g (end_outcome (gen_end gen)) (breakers w p)"
  using assms(2-)
proof (induction prov sent gen arbitrary: n c emitted w rule: stream_ok.induct)
  case (1 prov sent t gen)
  then obtain m where n: "n = Suc m" "length (gen_events gen) + 2 \<le> m" by (cases n) auto
  obtain w' where w': "drive (ra_anext clock limit p st (sdk_anext io)) m (RA_Loop g (False, gen) True)
        (count_execution c (await io w)) = ((gen_events gen, Some (gen_end gen)), (RA_Closed, w'))"
      "executions w' = executions (count_execution c (await io w))"
      "breakers w' p = cbg.report (clock (outer w')) g (end_outcome (gen_end gen))
        (breakers (count_execution c (await io w)) p)"
    using "1.IH" [of m False True "count_execution c (await io w)"] 1 n by auto
  then show ?case using n by (simp add: ra_round_quiet [OF q] Let_def quiet_await [OF q])
next
  case (2 prov sent r gen)
  then obtain m where "n = Suc (Suc m)" by (cases n rule: nat.exhaust; cases "n - 1") auto
  with 2 show ?case
    by (simp add: ra_round_quiet [OF q] Let_def quiet_await [OF q] cbg.report_def end_outcome_def)
next
  case (4 prov sent e)
  then obtain m where "n = Suc m" by (cases n) auto
  with 4 show ?case
    by (simp add: ra_round_quiet [OF q] Let_def quiet_await [OF q] end_outcome_def)
qed simp

text \<open>
  A guarded call of the abstract breaker: rejected, or admitted and told how the call ended
  (\<open>None\<close> for a response).
\<close>

definition gate_call :: "int \<Rightarrow> seconds \<Rightarrow> seconds \<Rightarrow> seconds \<Rightarrow> exn option \<Rightarrow> gate \<Rightarrow> bool \<times> gate" where
  "gate_call limit reset t t' ending g =
     (case gate_allow reset t g of
        (False, g1) \<Rightarrow> (False, g1)
      | (True, g1) \<Rightarrow> (True, case ending of None \<Rightarrow> gate_success g1
          | Some e \<Rightarrow> if is_Exception e then gate_failure limit t' g1 else gate_abort g1))"

lemma gate_of_report:
  assumes "g = cb_generation cb" and "cb_state cb \<noteq> OPEN"
  shows "gate_of (cbg.report now g oc cb) =
    (case oc of Succeeded \<Rightarrow> gate_success (gate_of cb)
     | Failed \<Rightarrow> gate_failure (cb_fail_threshold cb) now (gate_of cb)
     | Aborted \<Rightarrow> gate_abort (gate_of cb))"
  using assms by (cases oc; cases "cb_state cb")
    (auto simp: gate_of_def cbg.report_def breaker_simps Let_def)

lemma cb_allow_admitted:
  assumes "cb_allow now cb = ((True, g), cb')"
  shows "g = cb_generation cb'" and "cb_state cb' \<noteq> OPEN"
    and "gate_allow (cb_reset_timeout_s cb) now (gate_of cb) = (True, gate_of cb')"
    and "cb_fail_threshold cb' = cb_fail_threshold cb"
  using assms by (cases rule: cb_allow_cases [of cb now]; auto simp: gate_of_def)+

lemma cb_allow_rejected:
  assumes "cb_allow now cb = ((False, g), cb')"
  shows "cb' = cb" and "gate_allow (cb_reset_timeout_s cb) now (gate_of cb) = (False, gate_of cb)"
  using assms by (cases rule: cb_allow_cases [of cb now]; auto simp: gate_of_def)+

lemma ra_complete_gate:
  assumes run: "ra_complete clock limit p inner req w = (r, w')"
    and alone: "\<And>w1 a w2. inner req w1 = (a, w2) \<Longrightarrow> breakers w2 p = breakers w1 p"
    and gc: "gate_call (cb_fail_threshold (breakers w p)) (cb_reset_timeout_s (breakers w p))
      (clock (outer w)) (clock (outer w')) (case r of Inl e \<Rightarrow> Some e | Inr _ \<Rightarrow> None)
      (gate_of (breakers w p)) = (admitted, gate')"
  shows "gate_of (breakers w' p) = gate' \<and>
    (\<not> admitted \<longrightarrow> r = Inl (circuit_open_for p) \<and> w' = w)"
proof -
  obtain ok g cb where al: "cb_allow (clock (outer w)) (breakers w p) = ((ok, g), cb)"
    by (metis prod.collapse)
  show ?thesis
  proof (cases ok)
    case False
    with al have al: "cb_allow (clock (outer w)) (breakers w p) = ((False, g), cb)" by simp
    from run gc cb_allow_rejected(2) [OF al] show ?thesis
      by (auto simp: ra_complete_rejected [of clock, OF al] gate_call_def)
  next
    case True
    with al have al: "cb_allow (clock (outer w)) (breakers w p) = ((True, g), cb)" by simp
    let ?w1 = "on_breaker p (\<lambda>_. cb) w"
    obtain ans w2 where inn: "inner req ?w1 = (ans, w2)" by fastforce
    note ad = cb_allow_admitted [OF al]
    have b: "breakers w2 p = cb" using alone [OF inn] by simp
    let ?a = "within_limit clock limit ?w1 w2 ans"
    have r: "r = (if ?a = Inl TimeoutError then Inl (timed_out limit p) else ?a)"
      and w': "w' = on_breaker p (cbg.report (clock (outer w2)) g (outcome_of ?a)) w2"
      using run ra_complete_admitted [of clock w p g cb inner req ans w2 _ limit, OF al inn refl] by auto
    have "gate_of (breakers w' p) = (case r of Inr _ \<Rightarrow> gate_success (gate_of cb)
       | Inl e \<Rightarrow> if is_Exception e
           then gate_failure (cb_fail_threshold (breakers w p)) (clock (outer w')) (gate_of cb)
           else gate_abort (gate_of cb))"
      using ad b by (cases ?a) (auto simp: r w' gate_of_report timed_out_def)
    then show ?thesis using ad gc by (cases r) (auto simp: gate_call_def)
  qed
qed

lemma gate_call_settled:
  "gate_call limit reset t t' ending g = (True, g') \<Longrightarrow> g' \<noteq> HalfOpen True"
  by (cases g) (auto simp: gate_call_def split: option.splits if_splits bool.splits)

lemma provider_streams_ok:
  assumes "inner = openai_adapter co so io \<and> p = OPENAI \<or> inner = anthropic_adapter ca sa io \<and> p = ANTHROPIC"
  shows "stream_ok p [] (snd (ad_stream inner req))" and "ad_anext inner = sdk_anext io"
  using assms openai.stream_contract anthropic.stream_contract
  by (auto simp: openai_adapter_def anthropic_adapter_def)

subsection \<open>Correctness properties\<close>


text \<open>
  While a breaker is open, or half open with its trial out, the wrapped adapter is not
  reached: neither \<open>complete\<close> nor the first step of a stream touches the provider, the
  breaker or anything else, and both fail in a way the gateway may fail over from.
\<close>

theorem resilient_fails_fast:
  assumes "cb_state (breakers w p) = OPEN \<and>
      clock (outer w) < cb_opened_at (breakers w p) + cb_reset_timeout_s (breakers w p) \<or>
    cb_state (breakers w p) = HALF_OPEN \<and> cb_trial_in_flight (breakers w p)"
  shows "is_UpstreamUnavailable (circuit_open_for p) \<and>
    ra_complete clock limit p inner req w = (Inl (circuit_open_for p), w) \<and>
    ra_anext clock limit p st nx (ra_stream req) w = ((Raised (circuit_open_for p), RA_Closed), w)"
proof -
  obtain g where al: "cb_allow (clock (outer w)) (breakers w p) = ((False, g), breakers w p)"
    using assms by (cases rule: cb_allow_cases [of "breakers w p" "clock (outer w)"]) auto
  then show ?thesis
    by (simp add: ra_complete_rejected [of clock, OF al] ra_stream_def on_breaker_same circuit_open_for_def)
qed

text \<open>
  C22. The wrapper is transparent for a stream that is admitted and does not stall: a consumer
  that reads to the end gets exactly the events of the provider adapter and the same ending,
  the upstream request is sent once, and the breaker is told the outcome exactly once, a
  success if the terminal response was delivered.
\<close>

theorem resilient_stream_transparent:
  assumes "inner = openai_adapter co so io \<and> p = OPENAI \<or> inner = anthropic_adapter ca sa io \<and> p = ANTHROPIC"
    and "quiet clock limit p io"
    and "cb_allow (clock (outer w)) (breakers w p) = ((True, g), cb)"
    and "ad_stream inner req = (counts, gen)" and "gen_end gen \<noteq> Some TimeoutError"
    and "length (gen_events gen) + 2 \<le> n"
  shows "\<exists>w'. drive (ad_anext (resilient_adapter clock limit p inner)) n
        (ad_stream (resilient_adapter clock limit p inner) req) w =
      ((gen_events gen, Some (gen_end gen)), (RA_Closed, w')) \<and>
    executions w' = executions w + (if counts then 1 else 0) \<and>
    breakers w' p = cbg.report (clock (outer w')) g (end_outcome (gen_end gen)) cb"
proof -
  let ?anext = "ra_anext clock limit p (ad_stream inner) (sdk_anext io)"
  let ?w1 = "on_breaker p (\<lambda>_. cb) w"
  obtain m where n: "n = Suc m" using assms(6) by (cases n) auto
  have "?anext (RA_Start req) w = ?anext (RA_Loop g (counts, gen) False) ?w1"
    using assms(3,4) by simp
  then have "drive ?anext n (RA_Start req) w = drive ?anext n (RA_Loop g (counts, gen) False) ?w1"
    unfolding n drive.simps by simp
  moreover have "stream_ok p [] gen"
    using provider_streams_ok(1) [OF assms(1), of req] assms(4) by simp
  ultimately show ?thesis
    using ra_drive [OF assms(2) _ assms(5,6), of p "[]" "ad_stream inner" g counts False ?w1]
    by (auto simp: resilient_adapter_def ra_stream_def provider_streams_ok(2) [OF assms(1)])
qed

subsection \<open>Instances\<close>

definition demo_breaker :: "circuit_state \<Rightarrow> circuit_breaker" where
  "demo_breaker st = \<lparr>cb_fail_threshold = 2, cb_reset_timeout_s = 30, cb_state = st,
     cb_failures = 1, cb_opened_at = 100, cb_trial_in_flight = False, cb_generation = 4\<rparr>"

definition demo_world :: "circuit_breaker \<Rightarrow> seconds \<Rightarrow> seconds world" where
  "demo_world cb now = \<lparr>breakers = (\<lambda>_. cb), executions = 0, outer = now\<rparr>"

definition demo_request :: chat_request where
  "demo_request = \<lparr>req_model = ''gpt-4o'', req_messages = [\<lparr>msg_role = ''user'', msg_content = ''hi''\<rparr>],
     req_max_tokens = None, req_failover_policy = AT_MOST_ONCE\<rparr>"

text \<open>An adapter that answers after fifty seconds, past the limit of forty.\<close>

definition slow_complete :: "chat_request \<Rightarrow> seconds world \<Rightarrow> chat_response result \<times> seconds world" where
  "slow_complete req w = (Inl (OtherException []), w\<lparr>outer := outer w + 50\<rparr>)"

definition demo_script :: "openai_params \<Rightarrow> openai_chunk sdk_stream" where
  "demo_script ps = SChunk \<lparr>ock_id = ''r1'', ock_model = ''gpt-4o'', ock_usage = None,
       ock_choices = [(Some ''hello'', None)]\<rparr>
     (SChunk \<lparr>ock_id = ''r1'', ock_model = ''gpt-4o'', ock_usage = Some (3, 1),
       ock_choices = [(None, Some ''stop'')]\<rparr> SEnd)"


theorem resilient_fails_fast_witness:
  "ra_complete id 40 OPENAI slow_complete demo_request (demo_world (demo_breaker OPEN) 120) =
     (Inl (circuit_open_for OPENAI), demo_world (demo_breaker OPEN) 120)"
  using resilient_fails_fast [of "demo_world (demo_breaker OPEN) 120" OPENAI id 40
      slow_complete demo_request "\<lambda>_. ()" "\<lambda>g w. ((Stopped, g), w)"]
  by (simp add: demo_world_def demo_breaker_def)

theorem resilient_stream_transparent_witness:
  "\<exists>w'. drive (ad_anext (resilient_adapter id 40 OPENAI (openai_adapter (\<lambda>_ x. (Inl (SDKError []), x)) demo_script
        (\<lambda>(bs, x). (bs, x + 1))))) 4
      (ad_stream (resilient_adapter id 40 OPENAI (openai_adapter (\<lambda>_ x. (Inl (SDKError []), x)) demo_script
        (\<lambda>(bs, x). (bs, x + 1)))) demo_request) (demo_world (demo_breaker CLOSED) 0) =
     (([ChatStreamDelta ''hello'', ChatStreamResponse \<lparr>resp_provider = OPENAI, resp_model = ''gpt-4o'',
          resp_content = ''hello'', resp_tokens_in = 3, resp_tokens_out = 1,
          resp_finish_reason = ''stop'', resp_request_id = ''r1''\<rparr>], Some None), (RA_Closed, w')) \<and>
     executions w' = 1 \<and> cb_failures (breakers w' OPENAI) = 0"
proof -
  let ?io = "\<lambda>(bs, x). (bs, x + (1 :: seconds))"
  let ?inner = "openai_adapter (\<lambda>_ x. (Inl (SDKError []), x)) demo_script ?io"
  let ?r = "\<lparr>resp_provider = OPENAI, resp_model = ''gpt-4o'',
          resp_content = ''hello'', resp_tokens_in = 3, resp_tokens_out = 1,
          resp_finish_reason = ''stop'', resp_request_id = ''r1''\<rparr>"
  let ?gen = "Yield (ChatStreamDelta ''hello'') (Yield (ChatStreamResponse ?r) Return)"
  have gen: "ad_stream ?inner demo_request = (True, ?gen)"
    by (simp add: openai_adapter_def openai_stream_def demo_script_def demo_request_def
        openai_chunk_update_def openai_finish_update_def truthy_str_def str_or_empty_def
        finish_reason_get_def OPENAI_FINISH_REASON_MAP_def)
  have "quiet id 40 OPENAI ?io" by (simp add: quiet_def)
  moreover have "cb_allow (id (outer (demo_world (demo_breaker CLOSED) 0)))
      (breakers (demo_world (demo_breaker CLOSED) 0) OPENAI) = ((True, 4), demo_breaker CLOSED)"
    by (simp add: demo_world_def demo_breaker_def cb_allow_def)
  ultimately show ?thesis
    using resilient_stream_transparent [of ?inner "\<lambda>_ x. (Inl (SDKError []), x)" demo_script ?io OPENAI
        "\<lambda>_ x. (Inl (SDKError []), x)" "\<lambda>_. SEnd" id 40 "demo_world (demo_breaker CLOSED) 0" 4
        "demo_breaker CLOSED" demo_request True ?gen 4] gen
    by (auto simp: cbg.report_def end_outcome_def breaker_simps Let_def demo_breaker_def demo_world_def)
qed

end
