(* ===== verification/Gateway.thy ===== *)
theory Gateway
  imports Routing Accounting Resilient_Adapter
begin

text \<open>
  The gateway service (\<open>app/services/gateway_service.py\<close>): failover over the ranked
  candidates for completions and streams, and the generator that forwards a committed
  stream and bills it. The adapters come from the registry, the recorder is a parameter
  \<open>record_usage\<close> (\<open>UsageRecorder.record\<close>). Logging is left out, and so is
  \<open>last_error\<close>, which only reaches the log and the \<open>__cause__\<close> of the final error.
\<close>

subsection \<open>Completions\<close>

type_synonym 'w recorder = "uuid \<Rightarrow> chat_response \<Rightarrow> 'w \<Rightarrow> usage_record result \<times> 'w"

definition no_candidate_error :: "exn option \<Rightarrow> exn" where
  "no_candidate_error ambiguous_error = (case ambiguous_error of
     Some e \<Rightarrow> e | None \<Rightarrow> ProviderNotAvailable [Lit ''Provider not available''])"

fun gw_complete_loop ::
  "('g, 'w) registry_map \<Rightarrow> 'w recorder \<Rightarrow> chat_request \<Rightarrow> uuid \<Rightarrow> exn option \<Rightarrow> candidate list
   \<Rightarrow> 'w \<Rightarrow> chat_response result \<times> 'w" where
  "gw_complete_loop registry record_usage request api_key_id ambiguous_error [] w =
     (Inl (no_candidate_error ambiguous_error), w)"
| "gw_complete_loop registry record_usage request api_key_id ambiguous_error (candidate # candidates) w =
     (case registry_get registry (cand_provider candidate) of
        Inl not_registered \<Rightarrow>
          gw_complete_loop registry record_usage request api_key_id ambiguous_error candidates w
      | Inr adapter \<Rightarrow>
          (case ad_complete adapter (request\<lparr>req_model := cand_model candidate\<rparr>) w of
             (Inl e, w1) \<Rightarrow>
               (if is_UpstreamUnavailable e then
                  gw_complete_loop registry record_usage request api_key_id ambiguous_error candidates w1
                else if is_UpstreamAmbiguous e \<and> req_failover_policy request = AT_LEAST_ONCE then
                  gw_complete_loop registry record_usage request api_key_id (Some e) candidates w1
                else (Inl e, w1))
           | (Inr response, w1) \<Rightarrow>
               (case record_usage api_key_id response w1 of
                  (Inl e, w2) \<Rightarrow> (Inl e, w2)
                | (Inr rec, w2) \<Rightarrow> (Inr response, w2))))"

definition gw_complete ::
  "('g, 'w) registry_map \<Rightarrow> routing_service \<Rightarrow> 'w recorder \<Rightarrow> chat_request \<Rightarrow> uuid \<Rightarrow> 'w
   \<Rightarrow> chat_response result \<times> 'w" where
  "gw_complete registry router record_usage request api_key_id w =
     (case candidates_for router (req_model request) of
        Inl e \<Rightarrow> (Inl e, w)
      | Inr candidates \<Rightarrow> gw_complete_loop registry record_usage request api_key_id None candidates w)"

subsection \<open>Streams\<close>

text \<open>
  The generator \<open>_drain\<close> around a committed stream: not started (with the first event),
  suspended at the \<open>yield\<close> of a delta, suspended at the \<open>yield\<close> of the response, and
  finished, when the stream it holds goes out of scope.
\<close>

datatype ('g, 'w) drain_gen =
    DR_Start "('g, 'w) anext" 'g chat_stream_event
  | DR_Delta "('g, 'w) anext" 'g
  | DR_Response 'g
  | DR_Done 'g

text \<open>The \<open>except UpstreamStreamInterrupted\<close> clause.\<close>

definition drain_except ::
  "'w recorder \<Rightarrow> uuid \<Rightarrow> 'g \<Rightarrow> exn \<Rightarrow> 'w \<Rightarrow> (chat_stream_event pull \<times> ('g, 'w) drain_gen) \<times> 'w" where
  "drain_except record_usage api_key_id stream_iter e w =
     (case e of
        UpstreamStreamInterrupted m (Some partial) \<Rightarrow>
          (case record_usage api_key_id partial w of
             (Inl e', w') \<Rightarrow> ((Raised e', DR_Done stream_iter), w')
           | (Inr rec, w') \<Rightarrow> ((Raised e, DR_Done stream_iter), w'))
      | _ \<Rightarrow> ((Raised e, DR_Done stream_iter), w))"

text \<open>The head of the \<open>while\<close> loop, with \<open>event\<close> bound.\<close>

fun drain_emit ::
  "'w recorder \<Rightarrow> uuid \<Rightarrow> ('g, 'w) anext \<Rightarrow> 'g \<Rightarrow> chat_stream_event \<Rightarrow> 'w
   \<Rightarrow> (chat_stream_event pull \<times> ('g, 'w) drain_gen) \<times> 'w" where
  "drain_emit record_usage api_key_id nx stream_iter (ChatStreamResponse r) w =
     (case record_usage api_key_id r w of
        (Inl e, w') \<Rightarrow> drain_except record_usage api_key_id stream_iter e w'
      | (Inr rec, w') \<Rightarrow> ((Yielded (ChatStreamResponse r), DR_Response stream_iter), w'))"
| "drain_emit record_usage api_key_id nx stream_iter (ChatStreamDelta t) w =
     ((Yielded (ChatStreamDelta t), DR_Delta nx stream_iter), w)"

text \<open>
  \<open>StopAsyncIteration\<close> from \<open>anext(stream_iter)\<close> inside an async generator becomes a
  \<open>RuntimeError\<close>.
\<close>

definition stop_in_generator :: exn where
  "stop_in_generator = OtherException [Lit ''async generator raised StopAsyncIteration'']"

fun drain_anext :: "'w recorder \<Rightarrow> uuid \<Rightarrow> (('g, 'w) drain_gen, 'w) anext" where
  "drain_anext record_usage api_key_id (DR_Start nx stream_iter event) w =
     drain_emit record_usage api_key_id nx stream_iter event w"
| "drain_anext record_usage api_key_id (DR_Delta nx stream_iter) w =
     (case nx stream_iter w of
        ((Yielded event, stream_iter'), w') \<Rightarrow>
          drain_emit record_usage api_key_id nx stream_iter' event w'
      | ((Stopped, stream_iter'), w') \<Rightarrow> ((Raised stop_in_generator, DR_Done stream_iter'), w')
      | ((Raised e, stream_iter'), w') \<Rightarrow> drain_except record_usage api_key_id stream_iter' e w')"
| "drain_anext record_usage api_key_id (DR_Response stream_iter) w = ((Stopped, DR_Done stream_iter), w)"
| "drain_anext record_usage api_key_id (DR_Done stream_iter) w = ((Stopped, DR_Done stream_iter), w)"

text \<open>\<open>aclose\<close>: \<open>GeneratorExit\<close> is not handled by \<open>_drain\<close>.\<close>

fun drain_aclose :: "('g, 'w) drain_gen \<Rightarrow> ('g, 'w) drain_gen" where
  "drain_aclose (DR_Start nx stream_iter event) = DR_Done stream_iter"
| "drain_aclose (DR_Delta nx stream_iter) = DR_Done stream_iter"
| "drain_aclose (DR_Response stream_iter) = DR_Done stream_iter"
| "drain_aclose (DR_Done stream_iter) = DR_Done stream_iter"

fun gw_stream_loop ::
  "('g, 'w) registry_map \<Rightarrow> chat_request \<Rightarrow> exn option \<Rightarrow> candidate list
   \<Rightarrow> 'w \<Rightarrow> ('g, 'w) drain_gen result \<times> 'w" where
  "gw_stream_loop registry request ambiguous_error [] w = (Inl (no_candidate_error ambiguous_error), w)"
| "gw_stream_loop registry request ambiguous_error (candidate # candidates) w =
     (case registry_get registry (cand_provider candidate) of
        Inl not_registered \<Rightarrow> gw_stream_loop registry request ambiguous_error candidates w
      | Inr adapter \<Rightarrow>
          (case ad_anext adapter (ad_stream adapter (request\<lparr>req_model := cand_model candidate\<rparr>)) w of
             ((Stopped, g), w1) \<Rightarrow> gw_stream_loop registry request ambiguous_error candidates w1
           | ((Raised e, g), w1) \<Rightarrow>
               (if is_UpstreamUnavailable e then
                  gw_stream_loop registry request ambiguous_error candidates w1
                else if is_UpstreamAmbiguous e \<and> req_failover_policy request = AT_LEAST_ONCE then
                  gw_stream_loop registry request (Some e) candidates w1
                else (Inl e, w1))
           | ((Yielded first_event, g), w1) \<Rightarrow>
               (Inr (DR_Start (ad_anext adapter) g first_event), w1)))"

definition gw_stream ::
  "('g, 'w) registry_map \<Rightarrow> routing_service \<Rightarrow> chat_request \<Rightarrow> 'w \<Rightarrow> ('g, 'w) drain_gen result \<times> 'w" where
  "gw_stream registry router request w =
     (case candidates_for router (req_model request) of
        Inl e \<Rightarrow> (Inl e, w)
      | Inr candidates \<Rightarrow> gw_stream_loop registry request None candidates w)"

subsection \<open>Failover over contract-keeping adapters\<close>

locale failover =
  fixes registry :: "('g, 'w) registry_map"
    and record_usage :: "'w recorder"
    and execs :: "'w \<Rightarrow> nat"
  assumes adapter_contract: "registry p = Some a \<Longrightarrow> upstream_calls (ad_complete a) execs"
    and record_executes_nothing: "record_usage k r w = (x, w') \<Longrightarrow> execs w' = execs w"
begin

lemma registered_call:
  assumes "registry_get registry p = Inr a" and "ad_complete a req w = (x, w')"
  shows "execs w \<le> execs w'" and "execs w' \<le> execs w + 1"
    and "x = Inl e \<Longrightarrow> is_UpstreamUnavailable e \<Longrightarrow> execs w' = execs w"
    and "x = Inr resp \<Longrightarrow> execs w' = execs w + 1"
    and "x = Inl e \<Longrightarrow> is_UpstreamUnavailable e \<or> is_UpstreamAmbiguous e \<or> \<not> is_AppError e"
proof -
  have up: "upstream_calls (ad_complete a) execs"
    using assms(1) adapter_contract by (simp add: registry_get_def split: option.splits)
  show "execs w \<le> execs w'" and "execs w' \<le> execs w + 1"
    using upstream_calls.executed_once [OF up assms(2)] by auto
  show "x = Inl e \<Longrightarrow> is_UpstreamUnavailable e \<Longrightarrow> execs w' = execs w"
    using upstream_calls.unavailable_unexecuted [OF up] assms(2) by blast
  show "x = Inr resp \<Longrightarrow> execs w' = execs w + 1"
    using upstream_calls.response_executed [OF up] assms(2) by blast
  show "x = Inl e \<Longrightarrow> is_UpstreamUnavailable e \<or> is_UpstreamAmbiguous e \<or> \<not> is_AppError e"
    using upstream_calls.upstream_error [OF up] assms(2) by blast
qed

text \<open>
  One round of the loop: the candidate is passed over, or the call ends here. \<open>passed\<close>
  is the ambiguous error remembered and the world for the rest of the candidates.
\<close>

lemma loop_step:
  obtains (pass) amb' w1 where
      "gw_complete_loop registry record_usage req k amb (c # cs) w =
       gw_complete_loop registry record_usage req k amb' cs w1"
      "execs w \<le> execs w1" "execs w1 \<le> execs w + 1"
      "amb' = amb \<and> execs w1 = execs w \<or>
       req_failover_policy req = AT_LEAST_ONCE \<and> (\<exists>e. amb' = Some e \<and> is_UpstreamAmbiguous e)"
  | (failed) e w1 where
      "gw_complete_loop registry record_usage req k amb (c # cs) w = (Inl e, w1)"
      "execs w \<le> execs w1" "execs w1 \<le> execs w + 1" "\<not> is_UpstreamUnavailable e"
      "is_UpstreamAmbiguous e \<or> \<not> is_AppError e"
  | (unrecorded) e resp w1 w2 where
      "gw_complete_loop registry record_usage req k amb (c # cs) w = (Inl e, w2)"
      "execs w2 = execs w + 1" "record_usage k resp w1 = (Inl e, w2)"
  | (served) resp rec w1 w2 where
      "gw_complete_loop registry record_usage req k amb (c # cs) w = (Inr resp, w2)"
      "execs w2 = execs w + 1" "record_usage k resp w1 = (Inr rec, w2)"
proof (cases "registry_get registry (cand_provider c)")
  case (Inl x)
  then show ?thesis using pass [of amb w] by simp
next
  case (Inr a)
  obtain x w1 where call: "ad_complete a (req\<lparr>req_model := cand_model c\<rparr>) w = (x, w1)" by fastforce
  note r = registered_call [OF Inr call]
  show ?thesis
  proof (cases x)
    case (Inl e)
    note rl = r(1,2) r(3,5) [OF Inl]
    show ?thesis
    proof (cases "is_UpstreamUnavailable e \<or> is_UpstreamAmbiguous e \<and> req_failover_policy req = AT_LEAST_ONCE")
      case True
      then show ?thesis
        using Inr call Inl rl pass [of amb w1] pass [of "Some e" w1] unavailable_not_ambiguous
        by (cases "is_UpstreamUnavailable e") simp_all
    next
      case False
      then show ?thesis using Inr call Inl rl failed [of e w1] by auto
    qed
  next
    case (Inr resp)
    obtain y w2 where rec: "record_usage k resp w1 = (y, w2)" by fastforce
    have "execs w2 = execs w + 1" using record_executes_nothing [OF rec] r(4) [OF Inr] by simp
    then show ?thesis
      using \<open>registry_get registry (cand_provider c) = Inr a\<close> call Inr rec
        unrecorded [of _ w2 resp w1] served [of resp w2 w1] by (cases y) auto
  qed
qed

lemma at_most_once:
  assumes "req_failover_policy req = AT_MOST_ONCE"
    and "gw_complete_loop registry record_usage req k amb cs w = (r, w')"
  shows "execs w \<le> execs w' \<and> execs w' \<le> execs w + 1 \<and> (\<forall>resp. r = Inr resp \<longrightarrow> execs w' = execs w + 1)"
  using assms(2)
proof (induction cs arbitrary: amb w)
  case (Cons c cs)
  show ?case
  proof (cases rule: loop_step [of req k amb c cs w])
    case (pass amb' w1)
    with Cons.IH [of amb' w1] Cons.prems assms(1) show ?thesis by auto
  qed (use Cons.prems in auto)
qed auto

lemma at_least_once_bound:
  assumes "gw_complete_loop registry record_usage req k amb cs w = (r, w')"
  shows "execs w \<le> execs w' \<and> execs w' \<le> execs w + length cs \<and>
    (\<forall>resp. r = Inr resp \<longrightarrow> execs w < execs w')"
  using assms
proof (induction cs arbitrary: amb w)
  case (Cons c cs)
  show ?case
  proof (cases rule: loop_step [of req k amb c cs w])
    case (pass amb' w1)
    with Cons.IH [of amb' w1] Cons.prems show ?thesis by fastforce
  qed (use Cons.prems in auto)
qed auto

lemma ambiguous_remembered:
  assumes "is_UpstreamAmbiguous e"
    and "\<And>r u v. record_usage k r u \<noteq> (Inl (ProviderNotAvailable m), v)"
  shows "gw_complete_loop registry record_usage req k (Some e) cs w \<noteq> (Inl (ProviderNotAvailable m), w')"
  using assms(1)
proof (induction cs arbitrary: e w)
  case (Cons c cs)
  show ?case
  proof (cases rule: loop_step [of req k "Some e" c cs w])
    case (pass amb' w1)
    then obtain e' where "amb' = Some e'" "is_UpstreamAmbiguous e'" using Cons.prems by auto
    with Cons.IH pass(1) show ?thesis by simp
  qed (use assms(2) in \<open>auto simp: is_AppError_def\<close>)
qed (auto simp: no_candidate_error_def)

lemma not_available_unexecuted:
  assumes "gw_complete_loop registry record_usage req k amb cs w = (Inl (ProviderNotAvailable m), w')"
    and "\<And>r u v. record_usage k r u \<noteq> (Inl (ProviderNotAvailable m), v)"
    and "amb \<noteq> None \<longrightarrow> is_UpstreamAmbiguous (the amb)"
  shows "execs w' = execs w"
  using assms(1,3)
proof (induction cs arbitrary: amb w)
  case Nil
  then show ?case by (auto simp: no_candidate_error_def split: option.splits)
next
  case (Cons c cs)
  show ?case
  proof (cases rule: loop_step [of req k amb c cs w])
    case (pass amb' w1)
    have run: "gw_complete_loop registry record_usage req k amb' cs w1 = (Inl (ProviderNotAvailable m), w')"
      using pass(1) Cons.prems(1) by simp
    show ?thesis
    proof (cases "amb' = amb \<and> execs w1 = execs w")
      case True
      with Cons.IH [OF run] Cons.prems(2) show ?thesis by simp
    next
      case False
      then obtain e where "amb' = Some e" "is_UpstreamAmbiguous e" using pass(4) by auto
      with run show ?thesis using ambiguous_remembered [of e k m req cs w1 w'] assms(2) by simp
    qed
  qed (use Cons.prems assms(2) in \<open>auto simp: is_AppError_def\<close>)
qed

end

subsection \<open>The deployed gateway\<close>

text \<open>
  The repository works on the outer part of the world; \<open>dt\<close> and \<open>dt'\<close> are the two
  readings of the wall clock by \<open>PricingTable.get\<close> and \<open>UsageRecord.create\<close>.
\<close>

definition outer_save ::
  "(usage_record \<Rightarrow> 'x \<Rightarrow> unit result \<times> 'x) \<Rightarrow> usage_record \<Rightarrow> 'x world \<Rightarrow> unit result \<times> 'x world" where
  "outer_save save r w = (case save r (outer w) of (res, x) \<Rightarrow> (res, w\<lparr>outer := x\<rparr>))"

definition gw_recorder ::
  "(usage_record \<Rightarrow> 'x \<Rightarrow> unit result \<times> 'x) \<Rightarrow> pricing_table \<Rightarrow> ('x \<Rightarrow> datetime) \<Rightarrow> ('x \<Rightarrow> datetime)
   \<Rightarrow> 'x world recorder" where
  "gw_recorder save pricing dt dt' k resp w =
     recorder_record (outer_save save) pricing (dt (outer w)) (dt' (outer w)) k resp w"

definition deployed_registry ::
  "('x \<Rightarrow> seconds) \<Rightarrow> (string \<Rightarrow> seconds \<Rightarrow> (openai_params, openai_raw, 'x) sdk_call)
   \<Rightarrow> (string \<Rightarrow> seconds \<Rightarrow> openai_params \<Rightarrow> openai_chunk sdk_stream)
   \<Rightarrow> (string \<Rightarrow> seconds \<Rightarrow> (anthropic_params, anthropic_raw, 'x) sdk_call)
   \<Rightarrow> (string \<Rightarrow> seconds \<Rightarrow> anthropic_params \<Rightarrow> anthropic_event sdk_stream)
   \<Rightarrow> 'x awaiting \<Rightarrow> settings \<Rightarrow> 'x world \<Rightarrow> (sdk_gen ra_gen, 'x world) registry_map" where
  "deployed_registry clock co so ca sa io config w0 =
     fst (build_registry clock (\<lambda>key t. openai_adapter (co key t) (so key t) io)
       (\<lambda>key t. anthropic_adapter (ca key t) (sa key t) io) config w0)"

lemma build_registry_get:
  "fst (build_registry clock openai anthropic config w0) p =
     (case (case p of OPENAI \<Rightarrow> openai_api_key config | ANTHROPIC \<Rightarrow> anthropic_api_key config) of
        None \<Rightarrow> None
      | Some key \<Rightarrow> if key = [] then None
          else Some (resilient_adapter clock (provider_timeout_s config) p
            ((case p of OPENAI \<Rightarrow> openai | ANTHROPIC \<Rightarrow> anthropic) key (provider_timeout_s config))))"
  by (auto simp: build_registry_def with_resilience_def registry_register_def opt_str_truthy_def Let_def
      split: provider_enum.splits option.splits)

lemma deployed_adapter:
  assumes "deployed_registry clock co so ca sa io config w0 p = Some a"
  obtains inner key where "a = resilient_adapter clock (provider_timeout_s config) p inner"
    and "inner = openai_adapter (co key (provider_timeout_s config)) (so key (provider_timeout_s config)) io \<and> p = OPENAI \<or>
         inner = anthropic_adapter (ca key (provider_timeout_s config)) (sa key (provider_timeout_s config)) io \<and> p = ANTHROPIC"
  using assms that by (cases p)
    (auto simp: deployed_registry_def build_registry_get split: option.splits if_splits)

lemma deployed_upstream:
  assumes "deployed_registry clock co so ca sa io config w0 p = Some a"
  shows "upstream_calls (ad_complete a) executions"
  using deployed_adapter [OF assms]
proof cases
  case (1 inner key)
  then have "upstream_calls (ad_complete inner) executions"
    using openai_up.upstream_calls_axioms anthropic_up.upstream_calls_axioms
    by (auto simp: openai_adapter_def anthropic_adapter_def)
  with 1(1) show ?thesis by (simp add: resilient_adapter_def ra_complete_upstream)
qed

lemma outer_save_executions: "outer_save save r w = (x, w') \<Longrightarrow> executions w' = executions w"
  by (auto simp: outer_save_def split: prod.splits)

lemma gw_recorder_breakers:
  "gw_recorder save pricing dt dt' k resp w = (x, w') \<Longrightarrow> breakers w' = breakers w"
  by (auto simp: gw_recorder_def recorder_record_def outer_save_def split: sum.splits prod.splits)

lemma gw_recorder_executions:
  "gw_recorder save pricing dt dt' k resp w = (x, w') \<Longrightarrow> executions w' = executions w"
  by (auto simp: gw_recorder_def recorder_record_def dest!: outer_save_executions
      split: sum.splits prod.splits)

interpretation deployed: failover "deployed_registry clock co so ca sa io config w0"
    "gw_recorder save pricing dt dt'" executions
  for clock co so ca sa io config w0 save pricing dt dt'
  by (rule failover.intro) (fact deployed_upstream, fact gw_recorder_executions)

lemma gw_recorder_not_unavailable:
  assumes "\<forall>r x e x'. save r x = (Inl e, x') \<longrightarrow> \<not> is_AppError e"
  shows "gw_recorder save pricing dt dt' k resp w \<noteq> (Inl (ProviderNotAvailable m), w')"
proof
  assume "gw_recorder save pricing dt dt' k resp w = (Inl (ProviderNotAvailable m), w')"
  then have "\<exists>r x x'. save r x = (Inl (ProviderNotAvailable m), x')"
    by (auto simp: gw_recorder_def recorder_record_def cost_for_def pricing_get_def calculate_cost_Inl
        usage_record_create_def outer_save_def Let_def
        split: sum.splits prod.splits if_splits option.splits list.splits)
  with assms show False by (fastforce simp: is_AppError_def)
qed

text \<open>The recorder stores exactly the usage of the response, for the caller's key.\<close>

definition bills :: "uuid \<Rightarrow> chat_response \<Rightarrow> usage_record \<Rightarrow> bool" where
  "bills k resp rec \<longleftrightarrow> ur_api_key_id rec = k \<and> ur_provider rec = resp_provider resp \<and>
     ur_model rec = resp_model resp \<and> ur_tokens_in rec = resp_tokens_in resp \<and>
     ur_tokens_out rec = resp_tokens_out resp \<and> ur_finish_reason rec = resp_finish_reason resp \<and>
     ur_request_id rec = resp_request_id resp \<and> usage_record_wf rec"

definition billing_ok :: "uuid \<Rightarrow> usage_record list \<Rightarrow> chat_response result \<Rightarrow> usage_record list \<Rightarrow> bool" where
  "billing_ok k before r after \<longleftrightarrow> (case r of
       Inl e \<Rightarrow> after = before
     | Inr resp \<Rightarrow> \<exists>rec. after = before @ [rec] \<and> bills k resp rec)"

lemma billing_ok_Inl [simp]: "billing_ok k before (Inl e) after \<longleftrightarrow> after = before"
  by (simp add: billing_ok_def)

lemma gw_recorder_bills:
  assumes "usage_sink save stored" and "gw_recorder save pricing dt dt' k resp w = (Inr rec, w')"
  shows "stored (outer w') = stored (outer w) @ [rec] \<and> bills k resp rec"
  using assms usage_sink.save_ok [OF assms(1)]
  by (auto simp: gw_recorder_def recorder_record_def outer_save_def bills_def usage_record_create_Inr
      split: sum.splits prod.splits)

lemma gw_recorder_fails:
  assumes "usage_sink save stored" and "gw_recorder save pricing dt dt' k resp w = (Inl e, w')"
  shows "stored (outer w') = stored (outer w)"
  using assms usage_sink.save_failed [OF assms(1)]
  by (auto simp: gw_recorder_def recorder_record_def outer_save_def split: sum.splits prod.splits)

lemma gw_complete_loop_bills:
  assumes sink: "usage_sink save stored"
    and calls: "\<And>p a rq u x v. registry p = Some a \<Longrightarrow> ad_complete a rq u = (x, v) \<Longrightarrow>
      stored (outer v) = stored (outer u)"
    and "gw_complete_loop registry (gw_recorder save pricing dt dt') req k amb cs w = (r, w')"
  shows "billing_ok k (stored (outer w)) r (stored (outer w'))"
  using assms(3)
proof (induction cs arbitrary: amb w)
  case (Cons c cs)
  show ?case
  proof (cases "registry (cand_provider c)")
    case None
    with Cons show ?thesis by (simp add: registry_get_def)
  next
    case (Some a)
    obtain x w1 where call: "ad_complete a (req\<lparr>req_model := cand_model c\<rparr>) w = (x, w1)" by fastforce
    have same: "stored (outer w1) = stored (outer w)" using calls [OF Some call] .
    show ?thesis
    proof (cases x)
      case (Inl e)
      then show ?thesis using Cons.prems Some call same Cons.IH [of amb w1] Cons.IH [of "Some e" w1]
        by (auto simp: registry_get_def split: if_splits)
    next
      case (Inr resp)
      then show ?thesis
        using Cons.prems Some call same gw_recorder_bills [OF sink] gw_recorder_fails [OF sink]
        by (auto simp: registry_get_def billing_ok_def split: prod.splits sum.splits)
    qed
  qed
qed (auto simp: billing_ok_def)

subsection \<open>Correctness properties of completions\<close>

text \<open>
  C6. At most once. Under the default failover policy, whatever the SDKs answer, however long
  they take and whatever other tasks do to the breakers meanwhile, one call of the deployed
  gateway's \<open>complete\<close> leads to at most one upstream call that may have been executed;
  exactly one when the caller gets a response; and none when the caller is told that no
  provider is available, so such a request is safe to retry. The repository's failures are
  assumed to be database errors, not application errors.
\<close>

theorem gateway_at_most_once:
  assumes "req_failover_policy req = AT_MOST_ONCE"
    and "gw_complete (deployed_registry clock co so ca sa io config w0) router
      (gw_recorder save pricing dt dt') req k w = (r, w')"
    and "\<forall>rec x e x'. save rec x = (Inl e, x') \<longrightarrow> \<not> is_AppError e"
  shows "executions w' \<le> executions w + 1 \<and>
    (\<forall>resp. r = Inr resp \<longrightarrow> executions w' = executions w + 1) \<and>
    (\<forall>m. r = Inl (ProviderNotAvailable m) \<longrightarrow> executions w' = executions w)"
proof (cases "candidates_for router (req_model req)")
  case (Inl e)
  with assms(2) show ?thesis by (simp add: gw_complete_def) auto
next
  case (Inr cs)
  with assms(2) have run: "gw_complete_loop (deployed_registry clock co so ca sa io config w0)
      (gw_recorder save pricing dt dt') req k None cs w = (r, w')"
    by (simp add: gw_complete_def)
  from deployed.at_most_once [OF assms(1) run] deployed.not_available_unexecuted
    gw_recorder_not_unavailable [OF assms(3)] run
  show ?thesis by (metis option.distinct(1))
qed

text \<open>
  At least once, the opt-in policy: a request may be executed more than once, but by no
  more calls than the tier has candidates, and a caller that gets a response has been served
  by at least one.
\<close>

theorem gateway_at_least_once:
  assumes "candidates_for router (req_model req) = Inr cs"
    and "gw_complete (deployed_registry clock co so ca sa io config w0) router
      (gw_recorder save pricing dt dt') req k w = (r, w')"
  shows "executions w \<le> executions w' \<and> executions w' \<le> executions w + length cs \<and>
    (\<forall>resp. r = Inr resp \<longrightarrow> executions w < executions w')"
  using assms deployed.at_least_once_bound by (fastforce simp: gw_complete_def)

text \<open>
  C7. Billing. With a repository that keeps its port's contract and adapters that do not write
  usage themselves, a response is returned only after exactly one usage record was stored for
  it, with the caller's key and the response's provider, model, tokens, finish reason and
  upstream id; a request that ends in an error has stored nothing.
\<close>

theorem gateway_bills_exactly_once:
  assumes "usage_sink save stored"
    and "\<forall>p a rq u x v. registry p = Some a \<and> ad_complete a rq u = (x, v) \<longrightarrow>
      stored (outer v) = stored (outer u)"
    and "gw_complete registry router (gw_recorder save pricing dt dt') req k w = (r, w')"
  shows "billing_ok k (stored (outer w)) r (stored (outer w'))"
proof (cases "candidates_for router (req_model req)")
  case (Inl e)
  with assms(3) show ?thesis by (auto simp: gw_complete_def billing_ok_def)
next
  case (Inr cs)
  with assms show ?thesis
    by (intro gw_complete_loop_bills [OF assms(1), of registry]) (auto simp: gw_complete_def)
qed

subsection \<open>Draining a committed stream\<close>

text \<open>
  What a consumer that reads a drained stream to its end has seen and what has been stored:
  all the text and one record of the terminal response; or an interruption with a partial
  response, and one record of that; or another ending, and nothing stored. \<open>sent\<close> is the
  text delivered before.
\<close>

definition stream_billing ::
  "uuid \<Rightarrow> string \<Rightarrow> usage_record list \<Rightarrow> chat_stream_event list \<Rightarrow> exn option \<Rightarrow> usage_record list \<Rightarrow> bool" where
  "stream_billing k sent before evs ending after \<longleftrightarrow>
     (\<exists>ds. case ending of
        None \<Rightarrow> (\<exists>r rec. evs = map ChatStreamDelta ds @ [ChatStreamResponse r] \<and>
          resp_content r = sent @ concat ds \<and> after = before @ [rec] \<and> bills k r rec)
      | Some e \<Rightarrow> evs = map ChatStreamDelta ds \<and>
          ((\<exists>m part rec. e = UpstreamStreamInterrupted m (Some part) \<and>
              resp_content part = sent @ concat ds \<and> after = before @ [rec] \<and> bills k part rec) \<or>
           (\<forall>m part. e \<noteq> UpstreamStreamInterrupted m (Some part)) \<and> after = before))"

lemma stream_billing_cons:
  assumes "stream_billing k (sent @ t) before evs ending after"
  shows "stream_billing k sent before (ChatStreamDelta t # evs) ending after"
proof -
  from assms obtain ds where ds: "case ending of
        None \<Rightarrow> (\<exists>r rec. evs = map ChatStreamDelta ds @ [ChatStreamResponse r] \<and>
          resp_content r = (sent @ t) @ concat ds \<and> after = before @ [rec] \<and> bills k r rec)
      | Some e \<Rightarrow> evs = map ChatStreamDelta ds \<and>
          ((\<exists>m part rec. e = UpstreamStreamInterrupted m (Some part) \<and>
              resp_content part = (sent @ t) @ concat ds \<and> after = before @ [rec] \<and> bills k part rec) \<or>
           (\<forall>m part. e \<noteq> UpstreamStreamInterrupted m (Some part)) \<and> after = before)"
    unfolding stream_billing_def by blast
  then show ?thesis unfolding stream_billing_def
    by (intro exI [of _ "t # ds"]) (auto split: option.splits)
qed

lemma gw_recorder_not_interrupted:
  assumes "\<forall>r x e x'. save r x = (Inl e, x') \<longrightarrow> \<not> is_AppError e"
  shows "gw_recorder save pricing dt dt' k resp w \<noteq> (Inl (UpstreamStreamInterrupted m p), w')"
proof
  assume "gw_recorder save pricing dt dt' k resp w = (Inl (UpstreamStreamInterrupted m p), w')"
  then have "\<exists>r x x'. save r x = (Inl (UpstreamStreamInterrupted m p), x')"
    by (auto simp: gw_recorder_def recorder_record_def cost_for_def pricing_get_def calculate_cost_Inl
        usage_record_create_def outer_save_def Let_def
        split: sum.splits prod.splits if_splits option.splits list.splits)
  with assms show False by (fastforce simp: is_AppError_def)
qed

text \<open>
  One round of the wrapper around a provider stream that has delivered something: the
  stream's own step, or a stall.
\<close>

definition stalled :: "seconds \<Rightarrow> provider_enum \<Rightarrow> exn" where
  "stalled limit p = UpstreamStreamInterrupted [Lit (provider_value p),
     Lit '' stalled mid-stream after '', FloatS limit, Lit ''s''] None"

fun own_step ::
  "('x \<Rightarrow> seconds) \<Rightarrow> seconds \<Rightarrow> provider_enum \<Rightarrow> int \<Rightarrow> event_gen \<Rightarrow> 'x world
   \<Rightarrow> (chat_stream_event pull \<times> sdk_gen ra_gen) \<times> 'x world" where
  "own_step clock limit p g (Yield (ChatStreamDelta t) gen) w =
     ((Yielded (ChatStreamDelta t), RA_Loop g (False, gen) True), w)"
| "own_step clock limit p g (Yield (ChatStreamResponse r) gen) w =
     ((Yielded (ChatStreamResponse r), RA_Responded g (False, gen)), w)"
| "own_step clock limit p g Return w = ((Stopped, RA_Closed), w)"
| "own_step clock limit p g (Raise e) w =
     ((Raised (if e = TimeoutError then stalled limit p else e), RA_Closed),
      on_breaker p (cbg.report (clock (outer w)) g (outcome_of (Inl e :: unit result))) w)"

lemma ra_round_emitted:
  "ra_round clock limit p (sdk_anext io) g (c, gen) True w =
     (if deadline clock limit w (count_execution c (await io w))
      then ((Raised (stalled limit p), RA_Closed),
        on_breaker p (cb_record_failure (clock (outer (count_execution c (await io w)))) g)
          (count_execution c (await io w)))
      else own_step clock limit p g gen (count_execution c (await io w)))"
  by (auto simp: ra_round_def sdk_anext_eq Let_def stalled_def cbg.report_def
      split: agen.splits chat_stream_event.splits)

lemma drain_except_bills:
  assumes sink: "usage_sink save stored"
    and save: "\<forall>r x e x'. save r x = (Inl e, x') \<longrightarrow> \<not> is_AppError e"
    and part: "\<And>m part. e = UpstreamStreamInterrupted m (Some part) \<Longrightarrow> resp_content part = sent"
  obtains e' w' where
    "drain_except (gw_recorder save pricing dt dt') k it e w = ((Raised e', DR_Done it), w')"
    and "stream_billing k sent (stored (outer w)) [] (Some e') (stored (outer w'))"
    and "executions w' = executions w"
proof (cases "\<exists>m part. e = UpstreamStreamInterrupted m (Some part)")
  case True
  then obtain m part where e: "e = UpstreamStreamInterrupted m (Some part)" by blast
  obtain x w' where rec: "gw_recorder save pricing dt dt' k part w = (x, w')" by fastforce
  show ?thesis
  proof (cases x)
    case (Inl e')
    have "\<forall>m part. e' \<noteq> UpstreamStreamInterrupted m (Some part)"
      using gw_recorder_not_interrupted [OF save] rec Inl by blast
    then show ?thesis
      using that [of e' w'] rec Inl e gw_recorder_fails [OF sink, of pricing dt dt' k part w e' w']
        gw_recorder_executions [OF rec] by (simp add: drain_except_def stream_billing_def)
  next
    case (Inr u)
    then show ?thesis
      using that [of e w'] rec e part [OF e] gw_recorder_bills [OF sink, of pricing dt dt' k part w u w']
        gw_recorder_executions [OF rec] by (auto simp: drain_except_def stream_billing_def)
  qed
next
  case False
  then have "drain_except (gw_recorder save pricing dt dt') k it e w = ((Raised e, DR_Done it), w)"
    by (auto simp: drain_except_def split: exn.splits option.splits)
  then show ?thesis using False that [of e w] by (simp add: stream_billing_def)
qed

lemma drain_response_bills:
  assumes sink: "usage_sink save stored"
    and save: "\<forall>r x e x'. save r x = (Inl e, x') \<longrightarrow> \<not> is_AppError e"
    and "resp_content r = sent"
  shows "(\<exists>w' rec. drain_emit (gw_recorder save pricing dt dt') k nx it (ChatStreamResponse r) w =
      ((Yielded (ChatStreamResponse r), DR_Response it), w') \<and>
      stored (outer w') = stored (outer w) @ [rec] \<and> bills k r rec \<and> breakers w' = breakers w \<and>
      executions w' = executions w) \<or>
    (\<exists>e' w'. drain_emit (gw_recorder save pricing dt dt') k nx it (ChatStreamResponse r) w =
      ((Raised e', DR_Done it), w') \<and>
      stream_billing k sent (stored (outer w)) [] (Some e') (stored (outer w')) \<and> executions w' = executions w)"
proof -
  obtain x w' where rec: "gw_recorder save pricing dt dt' k r w = (x, w')" by fastforce
  show ?thesis
  proof (cases x)
    case (Inl e')
    then have ni: "\<forall>m part. e' \<noteq> UpstreamStreamInterrupted m (Some part)"
      using gw_recorder_not_interrupted [OF save] rec by blast
    then have "drain_except (gw_recorder save pricing dt dt') k it e' w' = ((Raised e', DR_Done it), w')"
      by (auto simp: drain_except_def split: exn.splits option.splits)
    then show ?thesis
      using ni Inl rec gw_recorder_fails [OF sink, of pricing dt dt' k r w e' w']
        gw_recorder_executions [OF rec] by (simp add: stream_billing_def)
  next
    case (Inr u)
    then show ?thesis using rec gw_recorder_bills [OF sink, of pricing dt dt' k r w u w']
        gw_recorder_breakers [OF rec] gw_recorder_executions [OF rec] by auto
  qed
qed

lemma stored_awaited:
  assumes "\<forall>bs x. stored (snd (io (bs, x))) = stored x"
  shows "stored (outer (await io w)) = stored (outer w)"
  using assms [rule_format, of "breakers w" "outer w"]
  by (cases "io (breakers w, outer w)") (simp add: await_def)

lemma drain_step:
  assumes "ra_round clock limit p (sdk_anext io) g (False, gen) True w = ((x, it), w1)"
  shows "drain_anext rec k (DR_Delta (ra_anext clock limit p st (sdk_anext io)) (RA_Loop g (False, gen) True)) w =
    (case x of Yielded event \<Rightarrow> drain_emit rec k (ra_anext clock limit p st (sdk_anext io)) it event w1
     | Stopped \<Rightarrow> ((Raised stop_in_generator, DR_Done it), w1)
     | Raised e \<Rightarrow> drain_except rec k it e w1)"
  using assms by (simp split: pull.splits)

text \<open>
  The drained wrapper of a provider stream, from the \<open>yield\<close> of a delta on, with any
  awaits, stalls included. After a complete stream the wrapper is left suspended at its last
  \<open>yield\<close>.
\<close>

definition drained ::
  "('x \<Rightarrow> seconds) \<Rightarrow> seconds \<Rightarrow> provider_enum \<Rightarrow> 'x awaiting \<Rightarrow> ('x \<Rightarrow> usage_record list)
   \<Rightarrow> uuid \<Rightarrow> int \<Rightarrow> string \<Rightarrow> 'x world
   \<Rightarrow> (chat_stream_event list \<times> exn option option) \<times> (sdk_gen ra_gen, 'x world) drain_gen \<times> 'x world
   \<Rightarrow> bool" where
  "drained clock limit p io stored k g sent w res \<longleftrightarrow>
     (\<exists>evs ending it w'. res = ((evs, Some ending), (DR_Done it, w')) \<and>
        stream_billing k sent (stored (outer w)) evs ending (stored (outer w')) \<and>
        executions w' = executions w \<and>
        (ending = None \<longrightarrow> it = RA_Responded g (False, Return) \<and>
           (quiet clock limit p io \<longrightarrow> breakers w' p = breakers w p)))"

lemma drained_failed:
  assumes "stored (outer w1) = stored (outer w) \<and> executions w1 = executions w"
    and "usage_sink save stored"
    and "\<forall>r x e x'. save r x = (Inl e, x') \<longrightarrow> \<not> is_AppError e"
    and "\<And>m part. e = UpstreamStreamInterrupted m (Some part) \<Longrightarrow> resp_content part = sent"
    and "drain_anext (gw_recorder save pricing dt dt') k dg w =
      drain_except (gw_recorder save pricing dt dt') k it e w1"
  shows "drained clock limit p io stored k g sent w
    (drive (drain_anext (gw_recorder save pricing dt dt') k) (Suc n) dg w)"
proof -
  obtain e' w' where "drain_except (gw_recorder save pricing dt dt') k it e w1 = ((Raised e', DR_Done it), w')"
    and "stream_billing k sent (stored (outer w1)) [] (Some e') (stored (outer w'))" "executions w' = executions w1"
    using drain_except_bills [OF assms(2,3), of e sent pricing dt dt' k it w1] assms(4) by blast
  with assms(1,5) show ?thesis by (simp add: drained_def)
qed

lemma drained_cons:
  assumes "drain_anext rec k dg w = ((Yielded (ChatStreamDelta t), dg'), w1)"
    and "stored (outer w1) = stored (outer w) \<and> executions w1 = executions w \<and>
      (quiet clock limit p io \<longrightarrow> breakers w1 p = breakers w p)"
    and "drained clock limit p io stored k g (sent @ t) w1 (drive (drain_anext rec k) n dg' w1)"
  shows "drained clock limit p io stored k g sent w (drive (drain_anext rec k) (Suc n) dg w)"
  using assms by (auto simp: drained_def dest: stream_billing_cons)

lemma drained_response:
  assumes "drain_anext (gw_recorder save pricing dt dt') k dg w =
      drain_emit (gw_recorder save pricing dt dt') k nx (RA_Responded g (False, Return)) (ChatStreamResponse r) w1"
    and "stored (outer w1) = stored (outer w) \<and> executions w1 = executions w \<and>
      (quiet clock limit p io \<longrightarrow> breakers w1 p = breakers w p)"
    and sink: "usage_sink save stored"
    and save: "\<forall>r x e x'. save r x = (Inl e, x') \<longrightarrow> \<not> is_AppError e"
    and "resp_content r = sent"
  shows "drained clock limit p io stored k g sent w
    (drive (drain_anext (gw_recorder save pricing dt dt') k) (Suc (Suc n)) dg w)"
  using drain_response_bills [OF sink save assms(5), of pricing dt dt' k nx "RA_Responded g (False, Return)" w1]
proof (elim disjE exE conjE)
  fix w' rec
  assume "drain_emit (gw_recorder save pricing dt dt') k nx (RA_Responded g (False, Return)) (ChatStreamResponse r) w1 =
      ((Yielded (ChatStreamResponse r), DR_Response (RA_Responded g (False, Return))), w')"
    and "stored (outer w') = stored (outer w1) @ [rec]" "bills k r rec" "breakers w' = breakers w1"
      "executions w' = executions w1"
  with assms(1,2,5) show ?thesis
    by (auto simp: drained_def stream_billing_def intro!: exI [of _ "[]"])
next
  fix e' w'
  assume "drain_emit (gw_recorder save pricing dt dt') k nx (RA_Responded g (False, Return)) (ChatStreamResponse r) w1 =
      ((Raised e', DR_Done (RA_Responded g (False, Return))), w')"
    and "stream_billing k sent (stored (outer w1)) [] (Some e') (stored (outer w'))" "executions w' = executions w1"
  with assms(1,2) show ?thesis by (simp add: drained_def)
qed

lemma drain_bills:
  assumes sink: "usage_sink save stored"
    and save: "\<forall>r x e x'. save r x = (Inl e, x') \<longrightarrow> \<not> is_AppError e"
    and io: "\<forall>bs x. stored (snd (io (bs, x))) = stored x"
    and "stream_ok prov sent gen" and "length (gen_events gen) + 2 \<le> n"
  shows "drained clock limit p io stored k g sent w
    (drive (drain_anext (gw_recorder save pricing dt dt') k) n
      (DR_Delta (ra_anext clock limit p st (sdk_anext io)) (RA_Loop g (False, gen) True)) w)"
  using assms(4-)
proof (induction prov sent gen arbitrary: n w rule: stream_ok.induct)
  case (1 prov sent t gen)
  let ?nx = "ra_anext clock limit p st (sdk_anext io)" and ?w1 = "count_execution False (await io w)"
  let ?rec = "gw_recorder save pricing dt dt'"
  obtain m where n: "n = Suc m" "length (gen_events gen) + 2 \<le> m" using 1(3) by (cases n) auto
  have ih: "drained clock limit p io stored k g (sent @ t) ?w1
      (drive (drain_anext ?rec k) m (DR_Delta ?nx (RA_Loop g (False, gen) True)) ?w1)"
    using "1.IH" [of m ?w1] 1(2) n by simp
  show ?case
  proof (cases "deadline clock limit w ?w1")
    case True
    then show ?thesis unfolding n(1)
      by (intro drained_failed [OF _ sink save, where e = "stalled limit p"])
        (auto simp: stored_awaited [OF io] ra_round_emitted stalled_def)
  next
    case False
    then have "drain_anext ?rec k (DR_Delta ?nx (RA_Loop g (False, Yield (ChatStreamDelta t) gen) True)) w =
        ((Yielded (ChatStreamDelta t), DR_Delta ?nx (RA_Loop g (False, gen) True)), ?w1)"
      by (simp add: ra_round_emitted)
    with ih show ?thesis unfolding n(1)
      by (intro drained_cons [OF _ _ ih]) (auto simp: stored_awaited [OF io] quiet_await)
  qed
next
  case (2 prov sent r gen)
  let ?nx = "ra_anext clock limit p st (sdk_anext io)" and ?w1 = "count_execution False (await io w)"
  obtain m where n: "n = Suc (Suc m)" using 2(2) by (cases n; cases "n - 1") auto
  show ?case
  proof (cases "deadline clock limit w ?w1")
    case True
    then show ?thesis unfolding n
      by (intro drained_failed [OF _ sink save, where e = "stalled limit p"])
        (auto simp: stored_awaited [OF io] ra_round_emitted stalled_def)
  next
    case False
    then have "drain_anext (gw_recorder save pricing dt dt') k
          (DR_Delta ?nx (RA_Loop g (False, Yield (ChatStreamResponse r) gen) True)) w =
        drain_emit (gw_recorder save pricing dt dt') k ?nx (RA_Responded g (False, Return)) (ChatStreamResponse r) ?w1"
      using 2(1) by (simp add: ra_round_emitted)
    with 2(1) show ?thesis unfolding n
      by (intro drained_response [OF _ _ sink save]) (auto simp: stored_awaited [OF io] quiet_await)
  qed
next
  case (4 prov sent e)
  let ?w1 = "count_execution False (await io w)"
  obtain m where n: "n = Suc m" using 4(2) by (cases n) auto
  show ?case
  proof (cases "deadline clock limit w ?w1")
    case True
    then show ?thesis unfolding n
      by (intro drained_failed [OF _ sink save, where e = "stalled limit p"])
        (auto simp: stored_awaited [OF io] ra_round_emitted stalled_def)
  next
    case False
    then have "drain_anext (gw_recorder save pricing dt dt') k
          (DR_Delta (ra_anext clock limit p st (sdk_anext io)) (RA_Loop g (False, Raise e) True)) w =
        drain_except (gw_recorder save pricing dt dt') k RA_Closed
          (if e = TimeoutError then stalled limit p else e)
          (on_breaker p (cbg.report (clock (outer ?w1)) g (outcome_of (Inl e :: unit result))) ?w1)"
      by (simp add: ra_round_emitted del: outcome_of.simps)
    with 4(1) show ?thesis unfolding n
      by (intro drained_failed [OF _ sink save]) (auto simp: stored_awaited [OF io] stalled_def split: if_splits)
  qed
qed simp

subsection \<open>Committing to a stream\<close>

lemma gw_stream_committed:
  "gw_stream_loop registry req amb cs w = (Inr dg, w1) \<Longrightarrow>
    \<exists>c a u it ev. c \<in> set cs \<and> registry (cand_provider c) = Some a \<and>
      ad_anext a (ad_stream a (req\<lparr>req_model := cand_model c\<rparr>)) u = ((Yielded ev, it), w1) \<and>
      dg = DR_Start (ad_anext a) it ev"
  by (induction registry req amb cs w rule: gw_stream_loop.induct)
    (fastforce simp: registry_get_def split: option.splits prod.splits pull.splits if_splits)+

fun committed_state :: "int \<Rightarrow> chat_stream_event \<Rightarrow> event_gen \<Rightarrow> sdk_gen ra_gen" where
  "committed_state g (ChatStreamDelta t) gen = RA_Loop g (False, gen) True"
| "committed_state g (ChatStreamResponse r) gen = RA_Responded g (False, gen)"

lemma ra_round_first:
  "ra_round clock limit p (sdk_anext io) g (c, gen) False w =
     (let w1 = count_execution c (await io w) in
      if deadline clock limit w w1
      then ((Raised (timed_out limit p), RA_Closed), on_breaker p (cb_record_failure (clock (outer w1)) g) w1)
      else case gen of
        Yield ev gen' \<Rightarrow> ((Yielded ev, committed_state g ev gen'), w1)
      | Return \<Rightarrow> ((Stopped, RA_Closed), w1)
      | Raise e \<Rightarrow> ((Raised (if e = TimeoutError then timed_out limit p else e), RA_Closed),
          on_breaker p (cbg.report (clock (outer w1)) g (outcome_of (Inl e :: unit result))) w1))"
  by (auto simp: ra_round_def sdk_anext_eq Let_def timed_out_def cbg.report_def
      split: agen.splits chat_stream_event.splits)

text \<open>The first pull of a deployed stream.\<close>

lemma first_pull:
  assumes "inner = openai_adapter co so io \<and> p = OPENAI \<or> inner = anthropic_adapter ca sa io \<and> p = ANTHROPIC"
    and "a = resilient_adapter clock limit p inner" and "ad_stream inner req = (c, gen)"
    and "cb_allow (clock (outer w)) (breakers w p) = ((ok, g), cb)"
  shows "ad_anext a (ad_stream a req) w =
    (if ok then ra_round clock limit p (sdk_anext io) g (c, gen) False (on_breaker p (\<lambda>_. cb) w)
     else ((Raised (circuit_open_for p), RA_Closed), w))"
proof (cases ok)
  case False
  then have "on_breaker p (\<lambda>_. cb) w = w"
    using assms(4) cbg.reject_same [of "clock (outer w)" "breakers w p" g cb] by (simp add: on_breaker_same)
  with False assms(2,4) show ?thesis
    by (simp add: resilient_adapter_def ra_stream_def circuit_open_for_def)
next
  case True
  with assms(2-4) provider_streams_ok(2) [OF assms(1)] show ?thesis
    by (simp add: resilient_adapter_def ra_stream_def)
qed

lemma first_pull_yielded:
  assumes "inner = openai_adapter co so io \<and> p = OPENAI \<or> inner = anthropic_adapter ca sa io \<and> p = ANTHROPIC"
    and "a = resilient_adapter clock limit p inner"
    and "ad_anext a (ad_stream a req) w = ((Yielded ev, it), w1)"
  obtains c gen g cb where "ad_stream inner req = (c, Yield ev gen)" and "it = committed_state g ev gen"
    and "cb_allow (clock (outer w)) (breakers w p) = ((True, g), cb)"
    and "w1 = count_execution c (await io (on_breaker p (\<lambda>_. cb) w))"
    and "stream_ok p [] (Yield ev gen)"
proof -
  obtain c gen where s: "ad_stream inner req = (c, gen)" by fastforce
  obtain ok g cb where al: "cb_allow (clock (outer w)) (breakers w p) = ((ok, g), cb)" by (metis prod.collapse)
  show ?thesis
    using assms(3) first_pull [OF assms(1,2) s al] al s that provider_streams_ok(1) [OF assms(1), of req]
    by (cases gen) (auto simp: ra_round_first Let_def split: if_splits)
qed

lemma committed_drained:
  assumes sink: "usage_sink save stored"
    and save: "\<forall>r x e x'. save r x = (Inl e, x') \<longrightarrow> \<not> is_AppError e"
    and io: "\<forall>bs x. stored (snd (io (bs, x))) = stored x"
    and ok: "stream_ok prov [] (Yield ev gen)" and n: "length (gen_events gen) + 3 \<le> n"
  shows "drained clock limit p io stored k g [] w
    (drive (drain_anext (gw_recorder save pricing dt dt') k) n
      (DR_Start (ra_anext clock limit p st (sdk_anext io)) (committed_state g ev gen) ev) w)"
proof (cases ev)
  case (ChatStreamDelta t)
  obtain m where m: "n = Suc m" "length (gen_events gen) + 2 \<le> m" using n by (cases n) auto
  show ?thesis unfolding m(1)
    by (rule drained_cons [where t = t and ?w1.0 = w])
      (use drain_bills [OF sink save io, of prov t gen m] ok m(2) ChatStreamDelta in auto)
next
  case (ChatStreamResponse r)
  obtain m where m: "n = Suc (Suc m)" using n by (cases n; cases "n - 1") auto
  show ?thesis unfolding m
    by (rule drained_response [OF _ _ sink save, where ?w1.0 = w]) (use ok ChatStreamResponse in auto)
qed

subsection \<open>Executions of streamed requests\<close>

text \<open>
  Whether an SDK, once it has delivered a chunk, only fails in ways that do not look like a
  request that was never executed (no connection error, no status below 500).
\<close>

fun no_late_rejection :: "'c sdk_stream \<Rightarrow> bool" where
  "no_late_rejection (SChunk c s) = no_late_rejection s"
| "no_late_rejection SEnd = True"
| "no_late_rejection (SFail e) = (\<not> never_executed e)"

fun late_safe :: "'c sdk_stream \<Rightarrow> bool" where
  "late_safe (SChunk c s) = no_late_rejection s"
| "late_safe _ = True"

lemma raise_stream_failure_unavailable:
  "is_UpstreamUnavailable (raise_stream_failure prov e parts ti to rid m) \<Longrightarrow> never_executed e"
  by (cases e) (auto simp: raise_stream_failure_def clean_error_def split: if_splits)

lemma openai_loop_unavailable:
  "openai_stream_loop acc s = Raise e \<Longrightarrow> is_UpstreamUnavailable e \<Longrightarrow> \<not> no_late_rejection s"
  by (induction acc s rule: openai_stream_loop.induct)
    (auto simp: Let_def dest: raise_stream_failure_unavailable split: list.splits prod.splits if_splits)

lemma anthropic_loop_unavailable:
  "anthropic_stream_loop acc s = Raise e \<Longrightarrow> is_UpstreamUnavailable e \<Longrightarrow> \<not> no_late_rejection s"
  by (induction acc s rule: anthropic_stream_loop.induct)
    (auto simp: Let_def dest: raise_stream_failure_unavailable split: if_splits)

lemma late_safe_executes: "late_safe s \<Longrightarrow> \<not> no_late_rejection s \<Longrightarrow> \<not> stream_executes s"
  by (cases s) auto

lemma loop_unavailable_unexecuted:
  "late_safe s \<Longrightarrow> openai_stream_loop acc s = Raise e \<Longrightarrow> is_UpstreamUnavailable e \<Longrightarrow> \<not> stream_executes s"
  "late_safe t \<Longrightarrow> anthropic_stream_loop acc' t = Raise e \<Longrightarrow> is_UpstreamUnavailable e \<Longrightarrow> \<not> stream_executes t"
  using openai_loop_unavailable anthropic_loop_unavailable late_safe_executes by blast+

lemma stream_unavailable_unexecuted:
  assumes "inner = openai_adapter co so io \<and> p = OPENAI \<or> inner = anthropic_adapter ca sa io \<and> p = ANTHROPIC"
    and "\<forall>ps. late_safe (so ps)" and "\<forall>ps. late_safe (sa ps)"
    and "ad_stream inner req = (c, Raise e)" and "is_UpstreamUnavailable e"
  shows "\<not> c"
  using assms by (auto simp: openai_adapter_def anthropic_adapter_def openai_stream_def
      anthropic_stream_def loop_unavailable_unexecuted)

lemma loop_raise_kind:
  "openai_stream_loop acc s \<noteq> Raise (ProviderNotAvailable m)"
  "anthropic_stream_loop acc' t \<noteq> Raise (ProviderNotAvailable m)"
proof -
  have fe: "foreign_exn f \<noteq> ProviderNotAvailable m" for f by (cases f) auto
  have rsf: "raise_stream_failure prov x parts ti to rid md \<noteq> ProviderNotAvailable m" for prov x parts ti to rid md
    by (auto simp: raise_stream_failure_def clean_error_def fe split: sdk_exn.splits)
  have "openai_stream_loop acc s = Raise e \<Longrightarrow> e \<noteq> ProviderNotAvailable m" for e
    by (induction acc s rule: openai_stream_loop.induct)
      (auto simp: Let_def rsf split: list.splits prod.splits if_splits)
  then show "openai_stream_loop acc s \<noteq> Raise (ProviderNotAvailable m)" by blast
  show "anthropic_stream_loop acc' t \<noteq> Raise (ProviderNotAvailable m)"
    by (induction acc' t rule: anthropic_stream_loop.induct) (auto simp: Let_def rsf)
qed

lemma stream_raise_kind:
  assumes "inner = openai_adapter co so io \<and> p = OPENAI \<or> inner = anthropic_adapter ca sa io \<and> p = ANTHROPIC"
  shows "ad_stream inner req \<noteq> (c, Raise (ProviderNotAvailable m))"
  using assms by (auto simp: openai_adapter_def anthropic_adapter_def openai_stream_def
      anthropic_stream_def loop_raise_kind)

lemma stream_yields_executed:
  assumes "inner = openai_adapter co so io \<and> p = OPENAI \<or> inner = anthropic_adapter ca sa io \<and> p = ANTHROPIC"
    and "ad_stream inner req = (c, Yield ev gen)"
  shows c
proof -
  have "stream_executes s" if "openai_stream_loop acc s = Yield ev gen" for acc s
    using that by (cases s) auto
  moreover have "stream_executes s" if "anthropic_stream_loop acc s = Yield ev gen" for acc s
    using that by (cases s) auto
  ultimately show ?thesis using assms
    by (auto simp: openai_adapter_def anthropic_adapter_def openai_stream_def anthropic_stream_def)
qed

lemma first_pull_executions:
  assumes inner: "inner = openai_adapter co so io \<and> p = OPENAI \<or> inner = anthropic_adapter ca sa io \<and> p = ANTHROPIC"
    and a: "a = resilient_adapter clock limit p inner"
    and safe: "\<forall>ps. late_safe (so ps)" "\<forall>ps. late_safe (sa ps)"
    and run: "ad_anext a (ad_stream a req) w = ((x, it), w1)"
  shows "x \<noteq> Stopped \<and> executions w1 \<le> executions w + 1 \<and> executions w \<le> executions w1 \<and>
    (\<forall>ev. x = Yielded ev \<longrightarrow> executions w1 = executions w + 1) \<and>
    (\<forall>e. x = Raised e \<longrightarrow> (is_UpstreamUnavailable e \<longrightarrow> executions w1 = executions w) \<and>
      (\<forall>m. e \<noteq> ProviderNotAvailable m))"
proof -
  obtain c gen where s: "ad_stream inner req = (c, gen)" by fastforce
  obtain ok g cb where al: "cb_allow (clock (outer w)) (breakers w p) = ((ok, g), cb)" by (metis prod.collapse)
  have "stream_ok p [] gen" using provider_streams_ok(1) [OF inner, of req] s by simp
  moreover have "e \<noteq> ProviderNotAvailable m" if "gen = Raise e" for e m
    using stream_raise_kind [OF inner] s that by fastforce
  ultimately show ?thesis
    using run first_pull [OF inner a s al] s stream_unavailable_unexecuted [OF inner safe, of req c]
      stream_yields_executed [OF inner, of req c]
    by (cases gen) (auto simp: ra_round_first Let_def timed_out_def circuit_open_for_def split: if_splits)
qed

lemma gw_stream_loop_executions:
  assumes reg: "\<And>p a rq u x it v. registry p = Some a \<Longrightarrow> ad_anext a (ad_stream a rq) u = ((x, it), v) \<Longrightarrow>
      x \<noteq> Stopped \<and> executions v \<le> executions u + 1 \<and> executions u \<le> executions v \<and>
      (\<forall>ev. x = Yielded ev \<longrightarrow> executions v = executions u + 1) \<and>
      (\<forall>e. x = Raised e \<longrightarrow> (is_UpstreamUnavailable e \<longrightarrow> executions v = executions u) \<and>
        (\<forall>m. e \<noteq> ProviderNotAvailable m))"
    and policy: "req_failover_policy req = AT_MOST_ONCE"
    and run: "gw_stream_loop registry req None cs w = (r, w')"
  shows "executions w' \<le> executions w + 1 \<and> (\<forall>dg. r = Inr dg \<longrightarrow> executions w' = executions w + 1) \<and>
    (\<forall>m. r = Inl (ProviderNotAvailable m) \<longrightarrow> executions w' = executions w)"
  using run
proof (induction cs arbitrary: w)
  case (Cons c cs)
  show ?case
  proof (cases "registry (cand_provider c)")
    case None
    with Cons show ?thesis by (simp add: registry_get_def)
  next
    case (Some a)
    obtain x it w1 where pull: "ad_anext a (ad_stream a (req\<lparr>req_model := cand_model c\<rparr>)) w = ((x, it), w1)"
      by (metis prod.collapse)
    show ?thesis
      using Cons.prems Cons.IH [of w1] Some pull reg [OF Some pull] policy
      by (cases x) (auto simp: registry_get_def split: if_splits)
  qed
qed auto

lemma gw_stream_executions:
  assumes "req_failover_policy req = AT_MOST_ONCE"
    and "\<forall>key t ps. late_safe (so key t ps)" and "\<forall>key t ps. late_safe (sa key t ps)"
    and "gw_stream (deployed_registry clock co so ca sa io config w0) router req w = (r, w')"
  shows "executions w' \<le> executions w + 1 \<and>
    (\<forall>dg. r = Inr dg \<longrightarrow> executions w' = executions w + 1) \<and>
    (\<forall>m. r = Inl (ProviderNotAvailable m) \<longrightarrow> executions w' = executions w)"
proof (cases "candidates_for router (req_model req)")
  case (Inl e)
  with assms(4) show ?thesis by (auto simp: gw_stream_def)
next
  case (Inr cs)
  with assms(4) have run: "gw_stream_loop (deployed_registry clock co so ca sa io config w0) req None cs w = (r, w')"
    by (simp add: gw_stream_def)
  show ?thesis
  proof (rule gw_stream_loop_executions [OF _ assms(1) run])
    fix p a rq u x it v
    assume "deployed_registry clock co so ca sa io config w0 p = Some a"
      and pull: "ad_anext a (ad_stream a rq) u = ((x, it), v)"
    then show "x \<noteq> Stopped \<and> executions v \<le> executions u + 1 \<and> executions u \<le> executions v \<and>
      (\<forall>ev. x = Yielded ev \<longrightarrow> executions v = executions u + 1) \<and>
      (\<forall>e. x = Raised e \<longrightarrow> (is_UpstreamUnavailable e \<longrightarrow> executions v = executions u) \<and>
        (\<forall>m. e \<noteq> ProviderNotAvailable m))"
      using assms(2,3) by (elim deployed_adapter) (rule first_pull_executions, auto)
  qed
qed

text \<open>A committed stream, read to its end.\<close>

lemma gw_stream_drains:
  assumes "usage_sink save stored"
    and "\<forall>r x e x'. save r x = (Inl e, x') \<longrightarrow> \<not> is_AppError e"
    and "\<forall>bs x. stored (snd (io (bs, x))) = stored x"
    and "gw_stream (deployed_registry clock co so ca sa io config w0) router req w = (Inr dg, w1)"
  shows "\<exists>enough. \<forall>n \<ge> enough. \<exists>evs ending dg' w2.
    drive (drain_anext (gw_recorder save pricing dt dt') k) n dg w1 = ((evs, Some ending), (dg', w2)) \<and>
    stream_billing k [] (stored (outer w1)) evs ending (stored (outer w2)) \<and> executions w2 = executions w1"
proof -
  obtain cs where "gw_stream_loop (deployed_registry clock co so ca sa io config w0) req None cs w = (Inr dg, w1)"
    using assms(4) by (auto simp: gw_stream_def split: sum.splits)
  from gw_stream_committed [OF this] obtain p a rq u it ev
    where reg: "deployed_registry clock co so ca sa io config w0 p = Some a"
      and pull: "ad_anext a (ad_stream a rq) u = ((Yielded ev, it), w1)"
      and dg: "dg = DR_Start (ad_anext a) it ev" by blast
  obtain inner key where a: "a = resilient_adapter clock (provider_timeout_s config) p inner"
    and inner: "inner = openai_adapter (co key (provider_timeout_s config)) (so key (provider_timeout_s config)) io \<and> p = OPENAI \<or>
         inner = anthropic_adapter (ca key (provider_timeout_s config)) (sa key (provider_timeout_s config)) io \<and> p = ANTHROPIC"
    using deployed_adapter [OF reg] by metis
  from first_pull_yielded [OF inner a pull] obtain gen g
    where it: "it = committed_state g ev gen" and ok: "stream_ok p [] (Yield ev gen)" by metis
  have "ad_anext a = ra_anext clock (provider_timeout_s config) p (ad_stream inner) (sdk_anext io)"
    using a provider_streams_ok(2) [OF inner] by (simp add: resilient_adapter_def)
  then show ?thesis
    using committed_drained [OF assms(1-3) ok] dg it unfolding drained_def by metis
qed

subsection \<open>Correctness properties of streams\<close>

text \<open>
  Streaming at most once. Under the default policy, and for SDKs that do not report a
  request as never executed after they have delivered a chunk of its stream, opening a stream
  through the gateway leads to at most one upstream request that may have been executed;
  exactly one when the caller gets a stream, none when no provider is available.
\<close>

theorem gateway_stream_at_most_once:
  assumes "req_failover_policy req = AT_MOST_ONCE"
    and "\<forall>key t ps. late_safe (so key t ps)" and "\<forall>key t ps. late_safe (sa key t ps)"
    and "gw_stream (deployed_registry clock co so ca sa io config w0) router req w = (r, w')"
  shows "executions w' \<le> executions w + 1 \<and>
    (\<forall>dg. r = Inr dg \<longrightarrow> executions w' = executions w + 1) \<and>
    (\<forall>m. r = Inl (ProviderNotAvailable m) \<longrightarrow> executions w' = executions w)"
  by (rule gw_stream_executions [OF assms])

text \<open>
  C20. Billing of streams, with any delays, stalls included: a stream the gateway has committed
  to always comes to an end for a consumer that keeps reading, without another upstream request,
  and then either all the text and
  its terminal response were delivered and exactly one usage record of that response is stored,
  or it was interrupted with a partial response that holds exactly the text delivered and
  exactly one record of that is stored, or it failed otherwise and nothing is stored.
\<close>

theorem gateway_stream_bills:
  assumes "usage_sink save stored"
    and "\<forall>r x e x'. save r x = (Inl e, x') \<longrightarrow> \<not> is_AppError e"
    and "\<forall>bs x. stored (snd (io (bs, x))) = stored x"
    and "gw_stream (deployed_registry clock co so ca sa io config w0) router req w = (Inr dg, w1)"
  shows "\<exists>enough. \<forall>n \<ge> enough. \<exists>evs ending dg' w2.
    drive (drain_anext (gw_recorder save pricing dt dt') k) n dg w1 = ((evs, Some ending), (dg', w2)) \<and>
    stream_billing k [] (stored (outer w1)) evs ending (stored (outer w2)) \<and> executions w2 = executions w1"
  by (rule gw_stream_drains [OF assms])

text \<open>
  A streamed success is never reported to the breaker. After a consumer has read a whole
  stream through \<open>_drain\<close>, terminal response included, the breaker is as admission left
  it, and when the wrapper's generator is then closed it reports an abort: consecutive failures
  are not reset and a half-open breaker whose trial was this stream does not close.
\<close>

theorem streamed_success_not_reported:
  assumes "inner = openai_adapter co so io \<and> p = OPENAI \<or> inner = anthropic_adapter ca sa io \<and> p = ANTHROPIC"
    and "a = resilient_adapter clock limit p inner" and "quiet clock limit p io"
    and "usage_sink save stored" and "\<forall>r x e x'. save r x = (Inl e, x') \<longrightarrow> \<not> is_AppError e"
    and "\<forall>bs x. stored (snd (io (bs, x))) = stored x"
    and "cb_allow (clock (outer w)) (breakers w p) = ((True, g), cb)"
    and "ad_anext a (ad_stream a req) w = ((Yielded ev, it), w1)"
    and "ad_stream inner req = (c, gen)" and "length (gen_events gen) + 3 \<le> n"
    and "drive (drain_anext (gw_recorder save pricing dt dt') k) n (DR_Start (ad_anext a) it ev) w1 =
      ((evs, Some None), (DR_Done it', w2))"
  shows "breakers w2 p = cb \<and>
    gate_of (breakers (snd (ra_aclose p it' w2)) p) = gate_abort (gate_of cb)"
proof -
  have nx: "ad_anext a = ra_anext clock limit p (ad_stream inner) (sdk_anext io)"
    using assms(2) provider_streams_ok(2) [OF assms(1)] by (simp add: resilient_adapter_def)
  obtain gen' where s: "gen = Yield ev gen'" and it: "it = committed_state g ev gen'"
    and w1: "w1 = count_execution c (await io (on_breaker p (\<lambda>_. cb) w))"
    and ok: "stream_ok p [] (Yield ev gen')"
    using first_pull_yielded [OF assms(1,2,8)] assms(7,9) by (metis Pair_inject)
  have "breakers w1 p = cb" using quiet_await(2) [OF assms(3)] w1 by simp
  moreover from s have "drained clock limit p io stored k g [] w1 ((evs, Some None), (DR_Done it', w2))"
    using committed_drained [OF assms(4-6) ok, where n = n and p = p] assms(10,11) nx it by (metis gen_events.simps(1) length_Cons add_Suc Suc_leD)
  ultimately have "breakers w2 p = cb" and "it' = RA_Responded g (False, Return)"
    using assms(3) by (auto simp: drained_def)
  then show ?thesis
    using cb_allow_admitted [OF assms(7)] gate_of_report [of g cb 0 Aborted] by (simp add: cbg.report_def)
qed

text \<open>
  A stall after output is not billed. When the provider goes silent for longer than the
  limit after text was delivered, the consumer gets an interruption without a partial response,
  so \<open>_drain\<close> stores no usage for the text it has forwarded, whatever the recorder and
  whatever the provider still had to send.
\<close>

theorem stalled_stream_unbilled:
  assumes "limit \<le> clock (outer (await io w)) - clock (outer w)"
  shows "\<exists>m w'. drive (drain_anext record_usage k) (Suc (Suc n))
      (DR_Start (ra_anext clock limit p st (sdk_anext io)) (RA_Loop g (False, gen) True) (ChatStreamDelta t)) w =
      (([ChatStreamDelta t], Some (Some (UpstreamStreamInterrupted m None))), (DR_Done RA_Closed, w')) \<and>
    outer w' = outer (await io w) \<and>
    breakers w' p = cb_record_failure (clock (outer (await io w))) g (breakers (await io w) p)"
  using assms by (simp add: ra_round_emitted deadline_def drain_except_def stalled_def)

subsection \<open>Instances\<close>

text \<open>
  A deployment with both providers: the outer world is a clock and the stored usage. OpenAI
  refuses connections, Anthropic answers.
\<close>

type_synonym demo_outer = "seconds \<times> usage_record list"

definition demo_router :: routing_service where
  "demo_router = \<lparr>rs_catalog = [(''default'',
       [Candidate OPENAI ''gpt-4o'', Candidate ANTHROPIC ''claude-sonnet-5''])],
     rs_strategies = [], rs_default_strategy = PriorityStrategy [OPENAI, ANTHROPIC]\<rparr>"

definition demo_settings :: settings where
  "demo_settings = (default_settings ''db'' ''admin'')
     \<lparr>openai_api_key := Some ''key-o'', anthropic_api_key := Some ''key-a''\<rparr>"

definition demo_co :: "string \<Rightarrow> seconds \<Rightarrow> (openai_params, openai_raw, demo_outer) sdk_call" where
  "demo_co key t ps s = (Inl (APIConnectionError ''refused''), s)"

definition demo_ca :: "string \<Rightarrow> seconds \<Rightarrow> (anthropic_params, anthropic_raw, demo_outer) sdk_call" where
  "demo_ca key t ps s =
     (Inr \<lparr>anr_id = ''msg'', anr_model = ''claude-sonnet-5'',
           anr_content = Some [\<lparr>anb_type = ''text'', anb_text = Some ''hello''\<rparr>],
           anr_usage = Some (1000, 2000), anr_stop_reason = Some ''end_turn''\<rparr>, s)"

definition demo_so :: "string \<Rightarrow> seconds \<Rightarrow> openai_params \<Rightarrow> openai_chunk sdk_stream" where
  "demo_so key t ps = SFail (APIConnectionError ''refused'')"

definition demo_sa :: "string \<Rightarrow> seconds \<Rightarrow> anthropic_params \<Rightarrow> anthropic_event sdk_stream" where
  "demo_sa key t ps = SChunk (MessageStart ''msg'' ''claude-sonnet-5'' 1000)
     (SChunk (ContentBlockDelta ''text_delta'' (Some ''hello''))
     (SChunk (MessageDelta 2000 (Some ''end_turn'')) SEnd))"

definition demo_io :: "demo_outer awaiting" where
  "demo_io = (\<lambda>(bs, t, us). (bs, t + 1, us))"

definition demo_save :: "usage_record \<Rightarrow> demo_outer \<Rightarrow> unit result \<times> demo_outer" where
  "demo_save r = (\<lambda>(t, us). (Inr (), (t, us @ [r])))"

definition demo_pricing :: pricing_table where
  "demo_pricing = build_pricing_table
     [\<lparr>pr_provider = ANTHROPIC, pr_model = ''claude-sonnet-5'', pr_price_per_1k_input = 3 / 1000,
       pr_price_per_1k_output = 15 / 1000, pr_effective_from = 0\<rparr>,
      \<lparr>pr_provider = OPENAI, pr_model = ''gpt-4o'', pr_price_per_1k_input = 1 / 400,
       pr_price_per_1k_output = 1 / 100, pr_effective_from = 0\<rparr>]"

definition demo_start :: "demo_outer world" where
  "demo_start = \<lparr>breakers = (\<lambda>_. fresh_breaker demo_settings), executions = 0, outer = (0, [])\<rparr>"

definition demo_registry :: "(sdk_gen ra_gen, demo_outer world) registry_map" where
  "demo_registry = deployed_registry fst demo_co demo_so demo_ca demo_sa demo_io demo_settings demo_start"

abbreviation demo_recorder :: "demo_outer world recorder" where
  "demo_recorder \<equiv> gw_recorder demo_save demo_pricing (\<lambda>x. 5) (\<lambda>x. 5)"

definition demo_chat :: chat_request where
  "demo_chat = \<lparr>req_model = ''default'', req_messages = [\<lparr>msg_role = ''user'', msg_content = ''hi''\<rparr>],
     req_max_tokens = None, req_failover_policy = AT_MOST_ONCE\<rparr>"

lemma demo_candidates:
  "candidates_for demo_router ''default'' =
     Inr [Candidate OPENAI ''gpt-4o'', Candidate ANTHROPIC ''claude-sonnet-5'']"
  by (simp add: demo_router_def candidates_for_def priority_strategy_rank_def py_sorted_def
      priority_key_def priority_rank_def)

lemma demo_adapters:
  "demo_registry OPENAI = Some (resilient_adapter fst 40 OPENAI
     (openai_adapter (demo_co ''key-o'' 40) (demo_so ''key-o'' 40) demo_io))"
  "demo_registry ANTHROPIC = Some (resilient_adapter fst 40 ANTHROPIC
     (anthropic_adapter (demo_ca ''key-a'' 40) (demo_sa ''key-a'' 40) demo_io))"
  by (simp_all add: demo_registry_def deployed_registry_def build_registry_get demo_settings_def default_settings_def)

lemma demo_save_facts:
  "usage_sink demo_save snd" "\<forall>rec x e x'. demo_save rec x = (Inl e, x') \<longrightarrow> \<not> is_AppError e"
  by (auto simp: usage_sink_def demo_save_def)

lemma demo_complete:
  "\<exists>w'. gw_complete demo_registry demo_router demo_recorder demo_chat 7 demo_start =
    (Inr \<lparr>resp_provider = ANTHROPIC, resp_model = ''claude-sonnet-5'', resp_content = ''hello'',
        resp_tokens_in = 1000, resp_tokens_out = 2000, resp_finish_reason = ''stop'',
        resp_request_id = ''msg''\<rparr>, w')"
  by (simp add: gw_complete_def demo_chat_def demo_candidates registry_get_def demo_adapters
      resilient_adapter_def openai_adapter_def anthropic_adapter_def ra_complete_def
      demo_start_def fresh_breaker_def demo_settings_def default_settings_def cb_init_def cb_allow_def
      Let_def openai_complete_def counted_def demo_co_def may_have_executed_def clean_error_def
      deadline_def anthropic_complete_def demo_ca_def anthropic_parse_def finish_reason_get_def
      ANTHROPIC_FINISH_REASON_MAP_def on_breaker_def cb_record_failure_def cb_record_success_def count_execution_def
      gw_recorder_def recorder_record_def outer_save_def demo_save_def cost_for_def pricing_get_def
      demo_pricing_def build_pricing_table_def pricing_register_def calculate_cost_def
      usage_record_create_def VALID_FINISH_REASONS_def)

theorem gateway_at_most_once_witness:
  "\<exists>resp w'. gw_complete demo_registry demo_router demo_recorder demo_chat 7 demo_start = (Inr resp, w') \<and>
     executions w' = 1"
proof -
  obtain resp w' where run: "gw_complete demo_registry demo_router demo_recorder demo_chat 7 demo_start = (Inr resp, w')"
    using demo_complete by blast
  have "executions w' = executions demo_start + 1"
    using gateway_at_most_once [OF _ run [unfolded demo_registry_def] demo_save_facts(2)] by (simp add: demo_chat_def)
  with run show ?thesis by (auto simp: demo_start_def)
qed

theorem gateway_at_least_once_witness:
  "\<exists>r w'. gw_complete demo_registry demo_router demo_recorder (demo_chat\<lparr>req_failover_policy := AT_LEAST_ONCE\<rparr>)
       7 demo_start = (r, w') \<and> executions w' \<le> 2"
proof -
  obtain r w' where run: "gw_complete demo_registry demo_router demo_recorder
      (demo_chat\<lparr>req_failover_policy := AT_LEAST_ONCE\<rparr>) 7 demo_start = (r, w')" by fastforce
  have "executions w' \<le> executions demo_start + 2"
    using gateway_at_least_once [OF _ run [unfolded demo_registry_def]] demo_candidates by (simp add: demo_chat_def)
  with run show ?thesis by (auto simp: demo_start_def)
qed

lemma demo_calls_keep_usage:
  assumes "demo_registry p = Some a" and "ad_complete a rq u = (x, v)"
  shows "snd (outer v) = snd (outer u)"
proof -
  have oai: "outer v' = outer u'" if "openai_complete (counted (demo_co key t)) rq u' = (y, v')" for key t u' y v'
    using that by (auto simp: openai_complete_def counted_def demo_co_def split: sum.splits prod.splits)
  have ant: "outer v' = outer u'" if "anthropic_complete (counted (demo_ca key t)) rq u' = (y, v')" for key t u' y v'
    using that by (auto simp: anthropic_complete_def counted_def demo_ca_def split: sum.splits prod.splits)
  show ?thesis using assms oai ant by (cases p)
      (auto simp: demo_adapters resilient_adapter_def openai_adapter_def anthropic_adapter_def
        ra_complete_def Let_def split: prod.splits sum.splits if_splits)
qed

theorem gateway_bills_exactly_once_witness:
  "\<exists>resp w' rec. gw_complete demo_registry demo_router demo_recorder demo_chat 7 demo_start = (Inr resp, w') \<and>
     snd (outer w') = [rec] \<and> bills 7 resp rec"
proof -
  obtain resp w' where run: "gw_complete demo_registry demo_router demo_recorder demo_chat 7 demo_start = (Inr resp, w')"
    using demo_complete by blast
  have "billing_ok 7 (snd (outer demo_start)) (Inr resp) (snd (outer w'))"
    using gateway_bills_exactly_once [OF demo_save_facts(1) _ run] demo_calls_keep_usage by blast
  with run show ?thesis by (auto simp: billing_ok_def demo_start_def)
qed

lemma demo_streams_safe: "\<forall>key t ps. late_safe (demo_so key t ps)" "\<forall>key t ps. late_safe (demo_sa key t ps)"
  by (simp_all add: demo_so_def demo_sa_def)

lemma demo_io_keeps_usage: "\<forall>bs x. snd (snd (demo_io (bs, x))) = snd x"
  by (auto simp: demo_io_def)

lemma demo_commits:
  "\<exists>dg w1. gw_stream demo_registry demo_router demo_chat demo_start = (Inr dg, w1)"
  by (simp add: gw_stream_def demo_chat_def demo_candidates registry_get_def demo_adapters
      resilient_adapter_def openai_adapter_def anthropic_adapter_def ra_stream_def
      demo_start_def fresh_breaker_def demo_settings_def default_settings_def cb_init_def cb_allow_def
      Let_def ra_round_first openai_stream_def demo_so_def anthropic_stream_def demo_sa_def
      raise_stream_failure_def clean_error_def await_def demo_io_def on_breaker_def deadline_def
      cb_record_failure_def cbg.report_def count_execution_def truthy_str_def str_or_empty_def)

theorem gateway_stream_at_most_once_witness:
  "\<exists>dg w1. gw_stream demo_registry demo_router demo_chat demo_start = (Inr dg, w1) \<and> executions w1 = 1"
proof -
  obtain dg w1 where run: "gw_stream demo_registry demo_router demo_chat demo_start = (Inr dg, w1)"
    using demo_commits by blast
  have "executions w1 = executions demo_start + 1"
    using gateway_stream_at_most_once [OF _ demo_streams_safe run [unfolded demo_registry_def]] by (simp add: demo_chat_def)
  with run show ?thesis by (auto simp: demo_start_def)
qed

theorem gateway_stream_bills_witness:
  "\<exists>dg w1 evs ending dg' w2 n. gw_stream demo_registry demo_router demo_chat demo_start = (Inr dg, w1) \<and>
     drive (drain_anext demo_recorder 7) n dg w1 = ((evs, Some ending), (dg', w2)) \<and>
     stream_billing 7 [] (snd (outer w1)) evs ending (snd (outer w2))"
proof -
  obtain dg w1 where run: "gw_stream demo_registry demo_router demo_chat demo_start = (Inr dg, w1)"
    using demo_commits by blast
  from gateway_stream_bills [OF demo_save_facts demo_io_keeps_usage run [unfolded demo_registry_def], of demo_pricing "\<lambda>x. 5" "\<lambda>x. 5" 7]
  show ?thesis using run by blast
qed

text \<open>The half-open trial of a stream that is read to its end.\<close>

theorem streamed_success_not_reported_witness:
  "\<exists>it w1 evs it' w2.
     ad_anext (the (demo_registry ANTHROPIC)) (ad_stream (the (demo_registry ANTHROPIC)) demo_chat)
       (demo_start\<lparr>breakers := (\<lambda>_. demo_breaker OPEN), outer := (200, [])\<rparr>) =
       ((Yielded (ChatStreamDelta ''hello''), it), w1) \<and>
     drive (drain_anext demo_recorder 7) 5
       (DR_Start (ad_anext (the (demo_registry ANTHROPIC))) it (ChatStreamDelta ''hello'')) w1 =
       ((evs, Some None), (DR_Done it', w2)) \<and>
     gate_of (breakers (snd (ra_aclose ANTHROPIC it' w2)) ANTHROPIC) = HalfOpen False"
proof -
  let ?inner = "anthropic_adapter (demo_ca ''key-a'' 40) (demo_sa ''key-a'' 40) demo_io"
  let ?a = "resilient_adapter fst 40 ANTHROPIC ?inner"
  let ?w = "demo_start\<lparr>breakers := (\<lambda>_. demo_breaker OPEN), outer := (200, [])\<rparr>"
  let ?cb = "(demo_breaker OPEN)\<lparr>cb_state := HALF_OPEN, cb_generation := 5, cb_trial_in_flight := True\<rparr>"
  let ?r = "\<lparr>resp_provider = ANTHROPIC, resp_model = ''claude-sonnet-5'', resp_content = ''hello'',
        resp_tokens_in = 1000, resp_tokens_out = 2000, resp_finish_reason = ''stop'', resp_request_id = ''msg''\<rparr>"
  let ?gen = "Yield (ChatStreamDelta ''hello'') (Yield (ChatStreamResponse ?r) Return)"
  have inner: "?inner = openai_adapter (demo_co ''key-o'' 40) (demo_so ''key-o'' 40) demo_io \<and> ANTHROPIC = OPENAI \<or>
      ?inner = ?inner \<and> ANTHROPIC = ANTHROPIC" by simp
  have gen: "ad_stream ?inner demo_chat = (True, ?gen)"
    by (simp add: anthropic_adapter_def anthropic_stream_def demo_sa_def demo_chat_def truthy_str_def
        str_or_empty_def Let_def finish_reason_get_def ANTHROPIC_FINISH_REASON_MAP_def)
  have al: "cb_allow (fst (outer ?w)) (breakers ?w ANTHROPIC) = ((True, 5), ?cb)"
    by (simp add: demo_breaker_def cb_allow_def cb_enter_def Let_def)
  have q: "quiet fst 40 ANTHROPIC demo_io" by (auto simp: quiet_def demo_io_def)
  define w1 where "w1 = count_execution True (await demo_io (on_breaker ANTHROPIC (\<lambda>_. ?cb) ?w))"
  have t1: "\<not> deadline fst 40 (on_breaker ANTHROPIC (\<lambda>_. ?cb) ?w) w1"
    by (simp add: w1_def deadline_def await_def demo_io_def)
  let ?it = "RA_Loop 5 (False, Yield (ChatStreamResponse ?r) Return) True"
  have pull: "ad_anext ?a (ad_stream ?a demo_chat) ?w = ((Yielded (ChatStreamDelta ''hello''), ?it), w1)"
    using first_pull [where clock = fst and w = ?w, OF inner refl gen al] t1 by (simp add: ra_round_first Let_def w1_def)
  have nx: "ad_anext ?a = ra_anext fst 40 ANTHROPIC (ad_stream ?inner) (sdk_anext demo_io)"
    by (simp add: resilient_adapter_def anthropic_adapter_def)
  have bill: "\<exists>u w2. demo_recorder 7 ?r (count_execution False (await demo_io w1)) = (Inr u, w2)"
    by (simp add: gw_recorder_def recorder_record_def outer_save_def demo_save_def cost_for_def
        pricing_get_def demo_pricing_def build_pricing_table_def pricing_register_def calculate_cost_def
        Let_def usage_record_create_def VALID_FINISH_REASONS_def split: prod.splits)
  then obtain w2 where run: "drive (drain_anext demo_recorder 7) 5 (DR_Start (ad_anext ?a) ?it (ChatStreamDelta ''hello'')) w1 =
      (([ChatStreamDelta ''hello'', ChatStreamResponse ?r], Some None), (DR_Done (RA_Responded 5 (False, Return)), w2))"
    using quiet_await(1) [OF q, of w1] unfolding nx
    by (auto simp: numeral_eq_Suc ra_round_emitted deadline_def)
  have "gate_of (breakers (snd (ra_aclose ANTHROPIC (RA_Responded 5 (False, Return)) w2)) ANTHROPIC) = gate_abort (gate_of ?cb)"
    using streamed_success_not_reported [where clock = fst and w = ?w and stored = snd,
        OF inner refl q demo_save_facts demo_io_keeps_usage al pull gen _ run]
    by auto
  moreover have "gate_abort (gate_of ?cb) = HalfOpen False" by (simp add: gate_of_def)
  ultimately show ?thesis
    unfolding demo_adapters option.sel using pull run by (intro exI conjI) (assumption | simp)+
qed

theorem stalled_stream_unbilled_witness:
  "\<exists>m w'. drive (drain_anext demo_recorder 7) (Suc (Suc 0))
      (DR_Start (ra_anext fst (1 / 2) OPENAI (\<lambda>_. (True, Return)) (sdk_anext demo_io))
        (RA_Loop 0 (False, Return) True) (ChatStreamDelta ''hello'')) demo_start =
      (([ChatStreamDelta ''hello''], Some (Some (UpstreamStreamInterrupted m None))), (DR_Done RA_Closed, w')) \<and>
    snd (outer w') = []"
proof -
  have "(1 / 2 :: seconds) \<le> fst (outer (await demo_io demo_start)) - fst (outer demo_start)"
    by (simp add: await_def demo_io_def demo_start_def)
  from stalled_stream_unbilled [of "1 / 2" fst demo_io demo_start demo_recorder 7 0 OPENAI
      "\<lambda>_. (True, Return)" 0 Return "''hello''", OF this]
  show ?thesis by (auto simp: await_def demo_io_def demo_start_def)
qed

text \<open>A stream that opens, sends a chunk without text and breaks.\<close>

definition late_so :: "string \<Rightarrow> seconds \<Rightarrow> openai_params \<Rightarrow> openai_chunk sdk_stream" where
  "late_so key t ps = SChunk \<lparr>ock_id = ''r1'', ock_model = ''gpt-4o'', ock_usage = None,
     ock_choices = [(Some [], None)]\<rparr> (SFail (APIConnectionError ''reset''))"

text \<open>
  The condition of the streaming guarantee on the SDKs is needed: when the first provider
  accepts the stream, sends a chunk without text (as OpenAI's role chunk is) and then the connection
  breaks, the adapter reports a request that was never executed, and the gateway sends the
  request to the second provider although the caller asked for at most one execution.
\<close>

theorem late_connection_error_executes_twice:
  "req_failover_policy demo_chat = AT_MOST_ONCE \<and>
   (\<exists>dg w1. gw_stream (deployed_registry fst demo_co late_so demo_ca demo_sa demo_io demo_settings demo_start)
      demo_router demo_chat demo_start = (Inr dg, w1) \<and> executions w1 = 2)"
proof -
  define reg where "reg = deployed_registry fst demo_co late_so demo_ca demo_sa demo_io demo_settings demo_start"
  have ad: "reg OPENAI = Some (resilient_adapter fst 40 OPENAI
       (openai_adapter (demo_co ''key-o'' 40) (late_so ''key-o'' 40) demo_io))"
    "reg ANTHROPIC = Some (resilient_adapter fst 40 ANTHROPIC
       (anthropic_adapter (demo_ca ''key-a'' 40) (demo_sa ''key-a'' 40) demo_io))"
    by (simp_all add: reg_def deployed_registry_def build_registry_get demo_settings_def default_settings_def)
  have "\<exists>dg w1. gw_stream reg demo_router demo_chat demo_start = (Inr dg, w1) \<and> executions w1 = 2"
    by (simp add: gw_stream_def demo_chat_def demo_candidates registry_get_def ad
      resilient_adapter_def openai_adapter_def anthropic_adapter_def ra_stream_def
      demo_start_def fresh_breaker_def demo_settings_def default_settings_def cb_init_def cb_allow_def
      Let_def ra_round_first openai_stream_def late_so_def anthropic_stream_def demo_sa_def
      raise_stream_failure_def clean_error_def await_def demo_io_def on_breaker_def deadline_def
      cb_record_failure_def cbg.report_def count_execution_def truthy_str_def str_or_empty_def
      openai_chunk_update_def openai_finish_update_def)
  then show ?thesis by (simp add: reg_def demo_chat_def)
qed

end
