(* ===== verification/Idempotency.thy ===== *)
theory Idempotency
  imports Resilient_Adapter
begin

text \<open>
  Idempotency: the Redis store (\<open>app/infra/idempotency/redis_store.py\<close>,
  \<open>app/models/domain/idempotency.py\<close>) and the service
  (\<open>app/services/idempotency_service.py\<close>). The Redis client is a record of
  operations, each of which may raise; a stored value is kept as the dict its JSON text
  encodes. The service is written over the store port (locale \<open>idempotency_port\<close>,
  interpreted on the Redis store over a Redis server with expiry). Many clients of one
  store are a step relation.
\<close>

subsection \<open>Stored values\<close>

datatype body_value = BStr string | BInt int

type_synonym response_body = "(string \<times> body_value) list"

text \<open>The dict behind the JSON text; \<open>iv_error\<close> is \<open>None\<close> where the key is absent.\<close>

record idem_value =
  iv_status :: string
  iv_fingerprint :: string
  iv_response :: "response_body option"
  iv_error :: "fstring option"

record reservation_outcome =
  ro_acquired :: bool
  ro_status :: "string option"
  ro_request_fingerprint :: "string option"
  ro_response_body :: "response_body option"
  ro_error :: "fstring option"

record 'w redis_client =
  rc_set_nx :: "string \<Rightarrow> idem_value \<Rightarrow> int \<Rightarrow> 'w \<Rightarrow> bool result \<times> 'w"
  rc_set :: "string \<Rightarrow> idem_value \<Rightarrow> int \<Rightarrow> 'w \<Rightarrow> unit result \<times> 'w"
  rc_get :: "string \<Rightarrow> 'w \<Rightarrow> idem_value option result \<times> 'w"
  rc_delete :: "string \<Rightarrow> 'w \<Rightarrow> unit result \<times> 'w"

subsection \<open>The Redis store\<close>

record 'w redis_store =
  st_client :: "'w redis_client"
  st_inflight_ttl_s :: int
  st_completed_ttl_s :: int

definition RESERVE_ATTEMPTS :: nat where "RESERVE_ATTEMPTS = 3"

definition idem_key :: "uuid \<Rightarrow> string \<Rightarrow> string" where
  "idem_key api_key_id key = ''idem:'' @ uuid_str api_key_id @ '':'' @ key"

definition outcome_acquired :: reservation_outcome where
  "outcome_acquired = \<lparr>ro_acquired = True, ro_status = None, ro_request_fingerprint = None,
     ro_response_body = None, ro_error = None\<rparr>"

definition outcome_existing :: "idem_value \<Rightarrow> reservation_outcome" where
  "outcome_existing v = \<lparr>ro_acquired = False, ro_status = Some (iv_status v),
     ro_request_fingerprint = Some (iv_fingerprint v), ro_response_body = iv_response v,
     ro_error = iv_error v\<rparr>"

text \<open>\<open>except (RedisError, OSError)\<close>, re-raised as unavailable; anything else passes.\<close>

definition store_error :: "exn \<Rightarrow> exn" where
  "store_error e = (if is_redis_failure e then IdempotencyStoreUnavailable else e)"

fun reserve_loop ::
  "'w redis_store \<Rightarrow> nat \<Rightarrow> string \<Rightarrow> idem_value \<Rightarrow> 'w \<Rightarrow> reservation_outcome result \<times> 'w" where
  "reserve_loop store 0 redis_key record_value w = (Inl IdempotencyStoreUnavailable, w)"
| "reserve_loop store (Suc attempts) redis_key record_value w =
     (case rc_set_nx (st_client store) redis_key record_value (st_inflight_ttl_s store) w of
        (Inl e, w1) \<Rightarrow> (Inl (store_error e), w1)
      | (Inr True, w1) \<Rightarrow> (Inr outcome_acquired, w1)
      | (Inr False, w1) \<Rightarrow>
          (case rc_get (st_client store) redis_key w1 of
             (Inl e, w2) \<Rightarrow> (Inl (store_error e), w2)
           | (Inr None, w2) \<Rightarrow> reserve_loop store attempts redis_key record_value w2
           | (Inr (Some existing), w2) \<Rightarrow> (Inr (outcome_existing existing), w2)))"

definition in_progress_value :: "string \<Rightarrow> idem_value" where
  "in_progress_value fingerprint = \<lparr>iv_status = idempotency_value IN_PROGRESS,
     iv_fingerprint = fingerprint, iv_response = None, iv_error = None\<rparr>"

definition completed_value :: "string \<Rightarrow> response_body \<Rightarrow> idem_value" where
  "completed_value fingerprint response_body = \<lparr>iv_status = idempotency_value COMPLETED,
     iv_fingerprint = fingerprint, iv_response = Some response_body, iv_error = None\<rparr>"

definition ambiguous_value :: "string \<Rightarrow> fstring \<Rightarrow> idem_value" where
  "ambiguous_value fingerprint error_text = \<lparr>iv_status = idempotency_value AMBIGUOUS,
     iv_fingerprint = fingerprint, iv_response = None, iv_error = Some error_text\<rparr>"

definition store_reserve ::
  "'w redis_store \<Rightarrow> uuid \<Rightarrow> string \<Rightarrow> string \<Rightarrow> 'w \<Rightarrow> reservation_outcome result \<times> 'w" where
  "store_reserve store api_key_id key fingerprint w =
     reserve_loop store RESERVE_ATTEMPTS (idem_key api_key_id key) (in_progress_value fingerprint) w"

definition store_complete ::
  "'w redis_store \<Rightarrow> uuid \<Rightarrow> string \<Rightarrow> string \<Rightarrow> response_body \<Rightarrow> 'w \<Rightarrow> unit result \<times> 'w" where
  "store_complete store api_key_id key fingerprint response_body w =
     (case rc_set (st_client store) (idem_key api_key_id key) (completed_value fingerprint response_body)
             (st_completed_ttl_s store) w of
        (Inl e, w') \<Rightarrow> (Inl (store_error e), w')
      | (Inr u, w') \<Rightarrow> (Inr (), w'))"

definition store_mark_ambiguous ::
  "'w redis_store \<Rightarrow> uuid \<Rightarrow> string \<Rightarrow> string \<Rightarrow> fstring \<Rightarrow> 'w \<Rightarrow> unit result \<times> 'w" where
  "store_mark_ambiguous store api_key_id key fingerprint error_text w =
     (case rc_set (st_client store) (idem_key api_key_id key) (ambiguous_value fingerprint error_text)
             (st_completed_ttl_s store) w of
        (Inl e, w') \<Rightarrow> (if is_redis_failure e then (Inr (), w') else (Inl e, w'))
      | (Inr u, w') \<Rightarrow> (Inr (), w'))"

definition store_release :: "'w redis_store \<Rightarrow> uuid \<Rightarrow> string \<Rightarrow> 'w \<Rightarrow> unit result \<times> 'w" where
  "store_release store api_key_id key w =
     (case rc_delete (st_client store) (idem_key api_key_id key) w of
        (Inl e, w') \<Rightarrow> (if is_redis_failure e then (Inr (), w') else (Inl e, w'))
      | (Inr u, w') \<Rightarrow> (Inr (), w'))"

subsection \<open>Fingerprints and stored responses\<close>

text \<open>
  The payload \<open>_fingerprint\<close> dumps with sorted keys; \<open>digest\<close> is the SHA-256 hex
  digest of its canonical JSON text.
\<close>

record fingerprint_payload =
  fp_max_tokens :: "int option"
  fp_messages :: "(string \<times> string) list"
  fp_model :: string

definition fingerprint :: "(fingerprint_payload \<Rightarrow> string) \<Rightarrow> chat_request \<Rightarrow> string" where
  "fingerprint digest request =
     digest \<lparr>fp_max_tokens = req_max_tokens request,
       fp_messages = map (\<lambda>m. (msg_role m, msg_content m)) (req_messages request),
       fp_model = req_model request\<rparr>"

definition serialize :: "chat_response \<Rightarrow> response_body" where
  "serialize response =
     [(''provider'', BStr (provider_value (resp_provider response))),
      (''model'', BStr (resp_model response)), (''content'', BStr (resp_content response)),
      (''tokens_in'', BInt (resp_tokens_in response)), (''tokens_out'', BInt (resp_tokens_out response)),
      (''finish_reason'', BStr (resp_finish_reason response)),
      (''request_id'', BStr (resp_request_id response))]"

text \<open>
  \<open>body[name]\<close>. A value of another type, which the code would pass on unchecked, has no
  counterpart in the response record and is an error here.
\<close>

definition body_str :: "response_body \<Rightarrow> string \<Rightarrow> string result" where
  "body_str body name = (case map_of body name of None \<Rightarrow> Inl (KeyError [ReprS name])
     | Some (BStr s) \<Rightarrow> Inr s | Some (BInt i) \<Rightarrow> Inl (TypeError [ReprS name]))"

definition body_int :: "response_body \<Rightarrow> string \<Rightarrow> int result" where
  "body_int body name = (case map_of body name of None \<Rightarrow> Inl (KeyError [ReprS name])
     | Some (BInt i) \<Rightarrow> Inr i | Some (BStr s) \<Rightarrow> Inl (TypeError [ReprS name]))"

definition and_then :: "'a result \<Rightarrow> ('a \<Rightarrow> 'b result) \<Rightarrow> 'b result" where
  "and_then r f = (case r of Inl e \<Rightarrow> Inl e | Inr x \<Rightarrow> f x)"

definition deserialize :: "response_body \<Rightarrow> chat_response result" where
  "deserialize body =
     and_then (body_str body ''provider'') (\<lambda>pv.
     and_then (case provider_of_value pv of Some p \<Rightarrow> Inr p
       | None \<Rightarrow> Inl (ValueError [ReprS pv, Lit '' is not a valid ProviderEnum''])) (\<lambda>p.
     and_then (body_str body ''model'') (\<lambda>m.
     and_then (body_str body ''content'') (\<lambda>c.
     and_then (body_int body ''tokens_in'') (\<lambda>ti.
     and_then (body_int body ''tokens_out'') (\<lambda>to.
     and_then (body_str body ''finish_reason'') (\<lambda>f.
     and_then (body_str body ''request_id'') (\<lambda>i.
       Inr \<lparr>resp_provider = p, resp_model = m, resp_content = c, resp_tokens_in = ti,
            resp_tokens_out = to, resp_finish_reason = f, resp_request_id = i\<rparr>))))))))"

subsection \<open>The service\<close>

record 'w idem_port =
  ip_reserve :: "uuid \<Rightarrow> string \<Rightarrow> string \<Rightarrow> 'w \<Rightarrow> reservation_outcome result \<times> 'w"
  ip_complete :: "uuid \<Rightarrow> string \<Rightarrow> string \<Rightarrow> response_body \<Rightarrow> 'w \<Rightarrow> unit result \<times> 'w"
  ip_mark_ambiguous :: "uuid \<Rightarrow> string \<Rightarrow> string \<Rightarrow> fstring \<Rightarrow> 'w \<Rightarrow> unit result \<times> 'w"
  ip_release :: "uuid \<Rightarrow> string \<Rightarrow> 'w \<Rightarrow> unit result \<times> 'w"

definition redis_port :: "'w redis_store \<Rightarrow> 'w idem_port" where
  "redis_port store = \<lparr>ip_reserve = store_reserve store, ip_complete = store_complete store,
     ip_mark_ambiguous = store_mark_ambiguous store, ip_release = store_release store\<rparr>"

text \<open>The error raised after a clean-up call, unless the clean-up itself raises.\<close>

definition reraise :: "exn \<Rightarrow> unit result \<times> 'w \<Rightarrow> 'a result \<times> 'w" where
  "reraise e r = (case r of (Inl e', w) \<Rightarrow> (Inl e', w) | (Inr u, w) \<Rightarrow> (Inl e, w))"

text \<open>The tail of \<open>execute\<close> and \<open>execute_stream\<close>: someone already claimed the key.\<close>

definition claimed_outcome :: "string \<Rightarrow> (response_body \<Rightarrow> 'a result) \<Rightarrow> reservation_outcome \<Rightarrow> 'a result" where
  "claimed_outcome fp replay outcome =
     (if ro_request_fingerprint outcome \<noteq> Some fp then Inl IdempotencyKeyConflict
      else if ro_status outcome = Some (idempotency_value COMPLETED) then
        replay (case ro_response_body outcome of None \<Rightarrow> [] | Some b \<Rightarrow> b)
      else if ro_status outcome = Some (idempotency_value AMBIGUOUS) then
        Inl (IdempotencyOutcomeUnknown (ro_error outcome))
      else Inl IdempotencyInProgress)"

definition idem_execute ::
  "'w idem_port \<Rightarrow> (fingerprint_payload \<Rightarrow> string) \<Rightarrow> string \<Rightarrow> uuid \<Rightarrow> chat_request
   \<Rightarrow> ('w \<Rightarrow> chat_response result \<times> 'w) \<Rightarrow> 'w \<Rightarrow> chat_response result \<times> 'w" where
  "idem_execute port digest key api_key_id request operation w =
     (let fp = fingerprint digest request in
      case ip_reserve port api_key_id key fp w of
        (Inl e, w1) \<Rightarrow> (Inl e, w1)
      | (Inr outcome, w1) \<Rightarrow>
          (if ro_acquired outcome then
             (case operation w1 of
                (Inl e, w2) \<Rightarrow>
                  (if is_UpstreamAmbiguous e
                   then reraise e (ip_mark_ambiguous port api_key_id key fp (exn_str e) w2)
                   else reraise e (ip_release port api_key_id key w2))
              | (Inr response, w2) \<Rightarrow>
                  (case ip_complete port api_key_id key fp (serialize response) w2 of
                     (Inl e, w3) \<Rightarrow> (Inl e, w3)
                   | (Inr u, w3) \<Rightarrow> (Inr response, w3)))
           else (claimed_outcome fp deserialize outcome, w1)))"

text \<open>
  The generators of \<open>execute_stream\<close>: \<open>_settle\<close> around the primed stream (not started,
  at the \<open>yield\<close> of a delta, at the \<open>yield\<close> of the response) and \<open>_replay_stream\<close>
  (not started, after its delta).
\<close>

datatype 'g idem_gen =
    IG_Start 'g
  | IG_Delta 'g
  | IG_Response chat_response 'g
  | IG_Replay response_body
  | IG_Replay_Rest chat_response
  | IG_Done

definition idem_execute_stream ::
  "'w idem_port \<Rightarrow> (fingerprint_payload \<Rightarrow> string) \<Rightarrow> string \<Rightarrow> uuid \<Rightarrow> chat_request
   \<Rightarrow> ('w \<Rightarrow> 'g result \<times> 'w) \<Rightarrow> 'w \<Rightarrow> 'g idem_gen result \<times> 'w" where
  "idem_execute_stream port digest key api_key_id request operation w =
     (let fp = fingerprint digest request in
      case ip_reserve port api_key_id key fp w of
        (Inl e, w1) \<Rightarrow> (Inl e, w1)
      | (Inr outcome, w1) \<Rightarrow>
          (if ro_acquired outcome then
             (case operation w1 of
                (Inl e, w2) \<Rightarrow>
                  (if is_UpstreamAmbiguous e
                   then reraise e (ip_mark_ambiguous port api_key_id key fp (exn_str e) w2)
                   else reraise e (ip_release port api_key_id key w2))
              | (Inr primed, w2) \<Rightarrow> (Inr (IG_Start primed), w2))
           else (claimed_outcome fp (\<lambda>body. Inr (IG_Replay body)) outcome, w1)))"

text \<open>\<open>except BaseException\<close> and \<open>finally\<close> of \<open>_settle\<close>.\<close>

definition settle_except ::
  "'w idem_port \<Rightarrow> ('g \<Rightarrow> 'w \<Rightarrow> 'g \<times> 'w) \<Rightarrow> string \<Rightarrow> uuid \<Rightarrow> string \<Rightarrow> 'g \<Rightarrow> exn \<Rightarrow> 'w
   \<Rightarrow> (chat_stream_event pull \<times> 'g idem_gen) \<times> 'w" where
  "settle_except port aclose key api_key_id fp primed e w =
     (case ip_mark_ambiguous port api_key_id key fp (exn_str e) w of
        (Inl e', w1) \<Rightarrow> ((Raised e', IG_Done), snd (aclose primed w1))
      | (Inr u, w1) \<Rightarrow> ((Raised e, IG_Done), snd (aclose primed w1)))"

text \<open>The head of the \<open>async for\<close> loop.\<close>

definition settle_next ::
  "'w idem_port \<Rightarrow> ('g, 'w) anext \<Rightarrow> ('g \<Rightarrow> 'w \<Rightarrow> 'g \<times> 'w) \<Rightarrow> string \<Rightarrow> uuid \<Rightarrow> string \<Rightarrow> 'g \<Rightarrow> 'w
   \<Rightarrow> (chat_stream_event pull \<times> 'g idem_gen) \<times> 'w" where
  "settle_next port nx aclose key api_key_id fp primed w =
     (case nx primed w of
        ((Yielded (ChatStreamDelta t), primed'), w1) \<Rightarrow>
          ((Yielded (ChatStreamDelta t), IG_Delta primed'), w1)
      | ((Yielded (ChatStreamResponse r), primed'), w1) \<Rightarrow>
          ((Yielded (ChatStreamResponse r), IG_Response r primed'), w1)
      | ((Stopped, primed'), w1) \<Rightarrow> ((Stopped, IG_Done), snd (aclose primed' w1))
      | ((Raised e, primed'), w1) \<Rightarrow> settle_except port aclose key api_key_id fp primed' e w1)"

fun idem_anext ::
  "'w idem_port \<Rightarrow> ('g, 'w) anext \<Rightarrow> ('g \<Rightarrow> 'w \<Rightarrow> 'g \<times> 'w) \<Rightarrow> string \<Rightarrow> uuid \<Rightarrow> string
   \<Rightarrow> ('g idem_gen, 'w) anext" where
  "idem_anext port nx aclose key api_key_id fp (IG_Start primed) w =
     settle_next port nx aclose key api_key_id fp primed w"
| "idem_anext port nx aclose key api_key_id fp (IG_Delta primed) w =
     settle_next port nx aclose key api_key_id fp primed w"
| "idem_anext port nx aclose key api_key_id fp (IG_Response r primed) w =
     (case ip_complete port api_key_id key fp (serialize r) w of
        (Inl e, w1) \<Rightarrow> settle_except port aclose key api_key_id fp primed e w1
      | (Inr u, w1) \<Rightarrow> settle_next port nx aclose key api_key_id fp primed w1)"
| "idem_anext port nx aclose key api_key_id fp (IG_Replay body) w =
     (case deserialize body of
        Inl e \<Rightarrow> ((Raised e, IG_Done), w)
      | Inr r \<Rightarrow>
          (if resp_content r \<noteq> []
           then ((Yielded (ChatStreamDelta (resp_content r)), IG_Replay_Rest r), w)
           else ((Yielded (ChatStreamResponse r), IG_Done), w)))"
| "idem_anext port nx aclose key api_key_id fp (IG_Replay_Rest r) w =
     ((Yielded (ChatStreamResponse r), IG_Done), w)"
| "idem_anext port nx aclose key api_key_id fp IG_Done w = ((Stopped, IG_Done), w)"

text \<open>
  \<open>aclose\<close>: a generator that was not started runs nothing; one suspended at a
  \<open>yield\<close> of \<open>_settle\<close> gets \<open>GeneratorExit\<close> there, whose text is empty.
\<close>

fun idem_aclose ::
  "'w idem_port \<Rightarrow> ('g \<Rightarrow> 'w \<Rightarrow> 'g \<times> 'w) \<Rightarrow> string \<Rightarrow> uuid \<Rightarrow> string \<Rightarrow> 'g idem_gen \<Rightarrow> 'w
   \<Rightarrow> 'g idem_gen \<times> 'w" where
  "idem_aclose port aclose key api_key_id fp (IG_Delta primed) w =
     (IG_Done, snd (settle_except port aclose key api_key_id fp primed GeneratorExit w))"
| "idem_aclose port aclose key api_key_id fp (IG_Response r primed) w =
     (IG_Done, snd (settle_except port aclose key api_key_id fp primed GeneratorExit w))"
| "idem_aclose port aclose key api_key_id fp _ w = (IG_Done, w)"

subsection \<open>A Redis server with expiry\<close>

text \<open>
  What the commands do (\<open>SET key value [NX] EX ttl\<close>, \<open>GET\<close>, \<open>DEL\<close>): a value is
  visible until its expiry, a non-positive ttl is an error, and a server that is down raises.
  \<open>rw_app\<close> is the rest of the world.
\<close>

record 'x redis_world =
  rw_kv :: "string \<Rightarrow> (idem_value \<times> seconds) option"
  rw_now :: seconds
  rw_up :: bool
  rw_app :: 'x

definition live :: "'x redis_world \<Rightarrow> string \<Rightarrow> idem_value option" where
  "live w rk = (case rw_kv w rk of None \<Rightarrow> None | Some (v, t) \<Rightarrow> if rw_now w < t then Some v else None)"

definition server_set :: "string \<Rightarrow> idem_value \<Rightarrow> int \<Rightarrow> 'x redis_world \<Rightarrow> unit result \<times> 'x redis_world" where
  "server_set rk v ttl w =
     (if \<not> rw_up w then (Inl (OSError [Lit ''connection refused'']), w)
      else if ttl \<le> 0 then (Inl (RedisError [Lit ''invalid expire time'']), w)
      else (Inr (), w\<lparr>rw_kv := (rw_kv w)(rk \<mapsto> (v, rw_now w + of_int ttl))\<rparr>))"

definition server_set_nx :: "string \<Rightarrow> idem_value \<Rightarrow> int \<Rightarrow> 'x redis_world \<Rightarrow> bool result \<times> 'x redis_world" where
  "server_set_nx rk v ttl w =
     (if rw_up w \<and> 0 < ttl \<and> live w rk \<noteq> None then (Inr False, w)
      else case server_set rk v ttl w of (Inl e, w') \<Rightarrow> (Inl e, w') | (Inr u, w') \<Rightarrow> (Inr True, w'))"

definition server_get :: "string \<Rightarrow> 'x redis_world \<Rightarrow> idem_value option result \<times> 'x redis_world" where
  "server_get rk w = (if rw_up w then (Inr (live w rk), w) else (Inl (OSError [Lit ''connection refused'']), w))"

definition server_delete :: "string \<Rightarrow> 'x redis_world \<Rightarrow> unit result \<times> 'x redis_world" where
  "server_delete rk w = (if rw_up w then (Inr (), w\<lparr>rw_kv := (rw_kv w)(rk := None)\<rparr>)
     else (Inl (OSError [Lit ''connection refused'']), w))"

definition server_store :: "int \<Rightarrow> int \<Rightarrow> 'x redis_world redis_store" where
  "server_store inflight completed =
     \<lparr>st_client = \<lparr>rc_set_nx = server_set_nx, rc_set = server_set, rc_get = server_get,
                  rc_delete = server_delete\<rparr>,
      st_inflight_ttl_s = inflight, st_completed_ttl_s = completed\<rparr>"

definition stored_value :: "'x redis_world \<Rightarrow> uuid \<Rightarrow> string \<Rightarrow> idem_value option" where
  "stored_value w k key = live w (idem_key k key)"

lemma deserialize_serialize: "deserialize (serialize r) = Inr r"
  by (simp add: deserialize_def serialize_def body_str_def body_int_def and_then_def)

lemma idem_key_inject: "idem_key k key = idem_key k' key' \<longleftrightarrow> k = k' \<and> key = key'"
proof
  assume "idem_key k key = idem_key k' key'"
  then have "uuid_str k @ '':'' @ key = uuid_str k' @ '':'' @ key'" by (simp add: idem_key_def)
  then have "uuid_str k = uuid_str k'" and "key = key'" by (simp_all add: uuid_str_length)
  then show "k = k' \<and> key = key'" by (simp add: uuid_str_inject)
qed simp

subsection \<open>The contract of the store\<close>

text \<open>
  What the service relies on: \<open>lookup\<close> is the record visible under a key. A claim succeeds
  only on a free key, an existing record is reported as it is, a failed call changes nothing,
  the best-effort calls either take effect or change nothing, and no call touches the record
  of another key or another tenant.
\<close>

definition replayable :: "idem_value \<Rightarrow> string \<Rightarrow> chat_response \<Rightarrow> bool" where
  "replayable v fp r \<longleftrightarrow> iv_fingerprint v = fp \<and> iv_status v = idempotency_value COMPLETED \<and>
     deserialize (case iv_response v of None \<Rightarrow> [] | Some b \<Rightarrow> b) = Inr r"

locale idempotency_port =
  fixes port :: "'w idem_port"
    and lookup :: "'w \<Rightarrow> uuid \<Rightarrow> string \<Rightarrow> idem_value option"
  assumes reserve_acquired: "ip_reserve port k key fp w = (Inr oc, w') \<Longrightarrow> ro_acquired oc \<Longrightarrow>
      lookup w k key = None \<and> lookup w' k key = Some (in_progress_value fp)"
    and reserve_existing: "ip_reserve port k key fp w = (Inr oc, w') \<Longrightarrow> \<not> ro_acquired oc \<Longrightarrow>
      w' = w \<and> (\<exists>v. lookup w k key = Some v \<and> oc = outcome_existing v)"
    and reserve_failed: "ip_reserve port k key fp w = (Inl e, w') \<Longrightarrow> w' = w"
    and complete_done: "ip_complete port k key fp b w = (Inr u, w') \<Longrightarrow>
      lookup w' k key = Some (completed_value fp b)"
    and complete_failed: "ip_complete port k key fp b w = (Inl e, w') \<Longrightarrow> w' = w"
    and mark_done: "ip_mark_ambiguous port k key fp t w = (r, w') \<Longrightarrow>
      w' = w \<or> lookup w' k key = Some (ambiguous_value fp t)"
    and release_done: "ip_release port k key w = (r, w') \<Longrightarrow> w' = w \<or> lookup w' k key = None"
    and frame: "(k', key') \<noteq> (k, key) \<Longrightarrow>
      lookup (snd (ip_reserve port k key fp w)) k' key' = lookup w k' key' \<and>
      lookup (snd (ip_complete port k key fp b w)) k' key' = lookup w k' key' \<and>
      lookup (snd (ip_mark_ambiguous port k key fp t w)) k' key' = lookup w k' key' \<and>
      lookup (snd (ip_release port k key w)) k' key' = lookup w k' key'"
begin

text \<open>A response was run and stored by this call, or replayed from a completed record.\<close>

lemma execute_response_stored:
  assumes "idem_execute port digest key k req op w = (Inr r, w')"
  shows "\<exists>v. lookup w' k key = Some v \<and> replayable v (fingerprint digest req) r"
proof -
  let ?fp = "fingerprint digest req"
  obtain oc w1 where res: "ip_reserve port k key ?fp w = (oc, w1)" by fastforce
  show ?thesis
  proof (cases oc)
    case (Inl e)
    with assms res show ?thesis by (simp add: idem_execute_def Let_def)
  next
    case (Inr out)
    show ?thesis
    proof (cases "ro_acquired out")
      case True
      with assms res Inr obtain w2 where "ip_complete port k key ?fp (serialize r) w2 = (Inr (), w')"
        by (auto simp: idem_execute_def Let_def reraise_def split: prod.splits sum.splits if_splits)
      from complete_done [OF this] show ?thesis
        by (simp add: replayable_def completed_value_def deserialize_serialize)
    next
      case False
      with reserve_existing res Inr obtain v where "w1 = w" "lookup w k key = Some v" "out = outcome_existing v"
        by blast
      with assms res Inr show ?thesis
        by (auto simp: idem_execute_def Let_def claimed_outcome_def outcome_existing_def replayable_def
            split: if_splits)
    qed
  qed
qed

text \<open>With a record under the key, no operation is run and nothing changes.\<close>

lemma execute_claimed:
  assumes "lookup w k key = Some v" and "ip_reserve port k key (fingerprint digest req) w = (Inr oc, w1)"
  shows "idem_execute port digest key k req op w =
    (claimed_outcome (fingerprint digest req) deserialize (outcome_existing v), w)"
    and "idem_execute_stream port digest key k req sop w =
    (claimed_outcome (fingerprint digest req) (\<lambda>b. Inr (IG_Replay b)) (outcome_existing v), w)"
proof -
  have "\<not> ro_acquired oc" using reserve_acquired [OF assms(2)] assms(1) by auto
  with reserve_existing [OF assms(2)] assms(1) have "w1 = w" "oc = outcome_existing v" by auto
  with assms(2) show "idem_execute port digest key k req op w =
      (claimed_outcome (fingerprint digest req) deserialize (outcome_existing v), w)"
    and "idem_execute_stream port digest key k req sop w =
      (claimed_outcome (fingerprint digest req) (\<lambda>b. Inr (IG_Replay b)) (outcome_existing v), w)"
    by (simp_all add: idem_execute_def idem_execute_stream_def Let_def outcome_existing_def)
qed

text \<open>After an ambiguous failure whose marker was stored, and after a clean one that was released.\<close>

lemma execute_error:
  assumes "idem_execute port digest key k req op w = (Inl e, w')"
    and "lookup w k key = None"
  shows "lookup w' k key = None \<or> (\<exists>w1 w2 x. op w1 = (x, w2) \<and>
    lookup w1 k key = Some (in_progress_value (fingerprint digest req)) \<and>
    (w' = w2 \<or> (\<exists>e'. x = Inl e' \<and> is_UpstreamAmbiguous e' \<and>
      lookup w' k key = Some (ambiguous_value (fingerprint digest req) (exn_str e')))))"
proof -
  let ?fp = "fingerprint digest req"
  obtain oc w1 where res: "ip_reserve port k key ?fp w = (oc, w1)" by fastforce
  show ?thesis
  proof (cases "\<exists>out. oc = Inr out \<and> ro_acquired out")
    case False
    with assms res reserve_existing reserve_failed show ?thesis
      by (cases oc) (fastforce simp: idem_execute_def Let_def)+
  next
    case True
    then obtain out where oc: "oc = Inr out" "ro_acquired out" by blast
    with res reserve_acquired have prog: "lookup w1 k key = Some (in_progress_value ?fp)" by blast
    obtain x w2 where op: "op w1 = (x, w2)" by fastforce
    show ?thesis
    proof (cases x)
      case (Inl e0)
      show ?thesis
      proof (cases "is_UpstreamAmbiguous e0")
        case True
        with assms(1) res oc op Inl obtain y where "ip_mark_ambiguous port k key ?fp (exn_str e0) w2 = (y, w')"
          by (auto simp: idem_execute_def Let_def reraise_def split: prod.splits sum.splits)
        from mark_done [OF this] op prog True Inl show ?thesis by blast
      next
        case False
        with assms(1) res oc op Inl obtain y where "ip_release port k key w2 = (y, w')"
          by (auto simp: idem_execute_def Let_def reraise_def split: prod.splits sum.splits)
        from release_done [OF this] op prog show ?thesis by blast
      qed
    next
      case (Inr r)
      with assms(1) res oc op have "w' = w2"
        by (auto simp: idem_execute_def Let_def split: prod.splits sum.splits dest: complete_failed)
      with op prog show ?thesis by blast
    qed
  qed
qed

end

subsection \<open>The Redis store keeps the contract\<close>

lemma live_server_set:
  "server_set rk v ttl w = (Inr u, w') \<Longrightarrow> live w' rk' = (if rk' = rk then Some v else live w rk')"
  by (auto simp: server_set_def live_def split: if_splits option.splits)

lemma server_set_failed: "server_set rk v ttl w = (Inl e, w') \<Longrightarrow> w' = w \<and> is_redis_failure e"
  by (auto simp: server_set_def split: if_splits)

lemma server_set_nx_cases:
  obtains (failed) e where "server_set_nx rk v ttl w = (Inl e, w)" "is_redis_failure e"
  | (taken) x where "server_set_nx rk v ttl w = (Inr False, w)" "live w rk = Some x" "rw_up w"
  | (won) w' where "server_set_nx rk v ttl w = (Inr True, w')" "live w rk = None"
      "server_set rk v ttl w = (Inr (), w')"
proof (cases "server_set_nx rk v ttl w")
  case (Pair a w')
  then show ?thesis
    using that by (auto simp: server_set_nx_def server_set_def split: if_splits)
qed

lemma server_reserve:
  obtains (failed) e where "store_reserve (server_store i c) k key fp w = (Inl e, w)" "e = IdempotencyStoreUnavailable"
  | (taken) v where "store_reserve (server_store i c) k key fp w = (Inr (outcome_existing v), w)"
      "stored_value w k key = Some v"
  | (won) w' where "store_reserve (server_store i c) k key fp w = (Inr outcome_acquired, w')"
      "stored_value w k key = None"
      "server_set (idem_key k key) (in_progress_value fp) i w = (Inr (), w')"
proof (cases rule: server_set_nx_cases [of "idem_key k key" "in_progress_value fp" i w])
  case (failed e)
  then show ?thesis using that(1) by (simp add: store_reserve_def RESERVE_ATTEMPTS_def numeral_eq_Suc
      server_store_def store_error_def)
next
  case (taken x)
  then show ?thesis using that(2) [of x] by (simp add: store_reserve_def RESERVE_ATTEMPTS_def numeral_eq_Suc
      server_store_def server_get_def stored_value_def)
next
  case (won w')
  then show ?thesis using that(3) [of w'] by (simp add: store_reserve_def RESERVE_ATTEMPTS_def numeral_eq_Suc
      server_store_def stored_value_def)
qed

lemma stored_server_set:
  "server_set (idem_key k key) v ttl w = (Inr u, w') \<Longrightarrow>
    stored_value w' k' key' = (if (k', key') = (k, key) then Some v else stored_value w k' key')"
  using live_server_set [of "idem_key k key" v ttl w u w' "idem_key k' key'"]
  by (simp add: stored_value_def idem_key_inject)

lemma server_complete:
  "store_complete (server_store i c) k key fp b w =
     (case server_set (idem_key k key) (completed_value fp b) c w of
        (Inl e, w') \<Rightarrow> (Inl IdempotencyStoreUnavailable, w) | (Inr u, w') \<Rightarrow> (Inr (), w'))"
  by (auto simp: store_complete_def server_store_def store_error_def dest!: server_set_failed
      split: prod.splits sum.splits)

lemma server_mark:
  "store_mark_ambiguous (server_store i c) k key fp t w =
     (Inr (), case server_set (idem_key k key) (ambiguous_value fp t) c w of
        (Inl e, w') \<Rightarrow> w | (Inr u, w') \<Rightarrow> w')"
  by (auto simp: store_mark_ambiguous_def server_store_def dest: server_set_failed
      split: prod.splits sum.splits)

lemma server_release:
  "store_release (server_store i c) k key w =
     (Inr (), if rw_up w then w\<lparr>rw_kv := (rw_kv w)(idem_key k key := None)\<rparr> else w)"
  by (simp add: store_release_def server_store_def server_delete_def)

lemma stored_delete:
  "stored_value (w\<lparr>rw_kv := (rw_kv w)(idem_key k key := None)\<rparr>) k' key' =
     (if (k', key') = (k, key) then None else stored_value w k' key')"
  by (auto simp: stored_value_def live_def idem_key_inject split: option.splits)

lemma reserve_frame:
  "k' \<noteq> k \<or> key' \<noteq> key \<Longrightarrow>
    stored_value (snd (store_reserve (server_store i c) k key fp w)) k' key' = stored_value w k' key'"
  by (cases rule: server_reserve [of i c k key fp w]) (auto simp: stored_server_set)

interpretation redis_idem: idempotency_port "redis_port (server_store i c)" stored_value
  for i c
proof unfold_locales
  fix k key fp w oc w'
  assume r: "ip_reserve (redis_port (server_store i c)) k key fp w = (Inr oc, w')"
  show "ro_acquired oc \<Longrightarrow> stored_value w k key = None \<and> stored_value w' k key = Some (in_progress_value fp)"
    using r by (cases rule: server_reserve [of i c k key fp w])
      (auto simp: redis_port_def outcome_existing_def stored_server_set)
  show "\<not> ro_acquired oc \<Longrightarrow> w' = w \<and> (\<exists>v. stored_value w k key = Some v \<and> oc = outcome_existing v)"
    using r by (cases rule: server_reserve [of i c k key fp w])
      (auto simp: redis_port_def outcome_acquired_def)
next
  fix k key fp w e w'
  show "ip_reserve (redis_port (server_store i c)) k key fp w = (Inl e, w') \<Longrightarrow> w' = w"
    by (cases rule: server_reserve [of i c k key fp w]) (auto simp: redis_port_def)
next
  fix k key fp b w u w' e t r
  show "ip_complete (redis_port (server_store i c)) k key fp b w = (Inr u, w') \<Longrightarrow>
      stored_value w' k key = Some (completed_value fp b)"
    by (auto simp: redis_port_def server_complete stored_server_set split: prod.splits sum.splits)
  show "ip_complete (redis_port (server_store i c)) k key fp b w = (Inl e, w') \<Longrightarrow> w' = w"
    by (auto simp: redis_port_def server_complete split: prod.splits sum.splits)
  show "ip_mark_ambiguous (redis_port (server_store i c)) k key fp t w = (r, w') \<Longrightarrow>
      w' = w \<or> stored_value w' k key = Some (ambiguous_value fp t)"
    by (auto simp: redis_port_def server_mark stored_server_set split: prod.splits sum.splits)
  show "ip_release (redis_port (server_store i c)) k key w = (r, w') \<Longrightarrow> w' = w \<or> stored_value w' k key = None"
    by (auto simp: redis_port_def server_release stored_delete split: if_splits)
next
  fix k k' :: uuid and key key' fp :: string and w :: "'a redis_world" and b t
  assume "(k', key') \<noteq> (k, key)"
  then show "stored_value (snd (ip_reserve (redis_port (server_store i c)) k key fp w)) k' key' = stored_value w k' key' \<and>
      stored_value (snd (ip_complete (redis_port (server_store i c)) k key fp b w)) k' key' = stored_value w k' key' \<and>
      stored_value (snd (ip_mark_ambiguous (redis_port (server_store i c)) k key fp t w)) k' key' = stored_value w k' key' \<and>
      stored_value (snd (ip_release (redis_port (server_store i c)) k key w)) k' key' = stored_value w k' key'"
    by (auto simp: redis_port_def server_complete server_mark server_release stored_delete stored_server_set
        reserve_frame split: prod.splits sum.splits)
qed

subsection \<open>Many clients of one store\<close>

text \<open>
  Calls of \<open>execute\<close> interleave at the store calls and while their operations run.
  \<open>is_runs\<close> has the claim (tenant, key, fingerprint) whose operation a client is running,
  \<open>is_started\<close> counts how often an operation was started under a key. Time passes and the
  server may go down at any point. In a \<open>timely\<close> system no claim expires while its
  operation is running, which is what the in-flight ttl is meant for.
\<close>

record idem_system =
  is_redis :: "unit redis_world"
  is_runs :: "nat \<Rightarrow> (uuid \<times> string \<times> string) option"
  is_started :: "uuid \<times> string \<Rightarrow> nat"

definition idem_init :: idem_system where
  "idem_init = \<lparr>is_redis = \<lparr>rw_kv = Map.empty, rw_now = 0, rw_up = True, rw_app = ()\<rparr>,
     is_runs = Map.empty, is_started = (\<lambda>_. 0)\<rparr>"

abbreviation claims_live :: "idem_system \<Rightarrow> bool" where
  "claims_live s \<equiv> \<forall>n k key fp. is_runs s n = Some (k, key, fp) \<longrightarrow> stored_value (is_redis s) k key \<noteq> None"

inductive idem_step :: "int \<Rightarrow> int \<Rightarrow> bool \<Rightarrow> idem_system \<Rightarrow> idem_system \<Rightarrow> bool" for i c timely where
  claim: "is_runs s n = None \<Longrightarrow> store_reserve (server_store i c) k key fp (is_redis s) = (Inr oc, w) \<Longrightarrow>
     ro_acquired oc \<Longrightarrow>
     idem_step i c timely s (s\<lparr>is_redis := w, is_runs := (is_runs s)(n \<mapsto> (k, key, fp)),
       is_started := (is_started s)((k, key) := is_started s (k, key) + 1)\<rparr>)"
| refused: "store_reserve (server_store i c) k key fp (is_redis s) = (r, w) \<Longrightarrow>
     (\<forall>oc. r = Inr oc \<longrightarrow> \<not> ro_acquired oc) \<Longrightarrow> idem_step i c timely s (s\<lparr>is_redis := w\<rparr>)"
| completes: "is_runs s n = Some (k, key, fp) \<Longrightarrow>
     store_complete (server_store i c) k key fp (serialize resp) (is_redis s) = (r, w) \<Longrightarrow>
     idem_step i c timely s (s\<lparr>is_redis := w, is_runs := (is_runs s)(n := None)\<rparr>)"
| marks: "is_runs s n = Some (k, key, fp) \<Longrightarrow>
     store_mark_ambiguous (server_store i c) k key fp t (is_redis s) = (r, w) \<Longrightarrow>
     idem_step i c timely s (s\<lparr>is_redis := w, is_runs := (is_runs s)(n := None)\<rparr>)"
| releases: "is_runs s n = Some (k, key, fp) \<Longrightarrow>
     store_release (server_store i c) k key (is_redis s) = (r, w) \<Longrightarrow>
     idem_step i c timely s (s\<lparr>is_redis := w, is_runs := (is_runs s)(n := None)\<rparr>)"
| tick: "0 \<le> d \<Longrightarrow> s' = s\<lparr>is_redis := (is_redis s)\<lparr>rw_now := rw_now (is_redis s) + d\<rparr>\<rparr> \<Longrightarrow>
     (timely \<longrightarrow> claims_live s') \<Longrightarrow> idem_step i c timely s s'"
| fault: "idem_step i c timely s (s\<lparr>is_redis := (is_redis s)\<lparr>rw_up := b\<rparr>\<rparr>)"

inductive_cases idem_stepE: "idem_step i c timely s s'"

definition idem_inv :: "idem_system \<Rightarrow> bool" where
  "idem_inv s \<longleftrightarrow>
     (\<forall>n k key fp. is_runs s n = Some (k, key, fp) \<longrightarrow>
        stored_value (is_redis s) k key = Some (in_progress_value fp)) \<and>
     (\<forall>n m k key fp fp'. is_runs s n = Some (k, key, fp) \<and> is_runs s m = Some (k, key, fp') \<longrightarrow> n = m)"

lemma stored_later:
  "0 \<le> d \<Longrightarrow> stored_value (w\<lparr>rw_now := rw_now w + d\<rparr>) k key \<noteq> None \<Longrightarrow>
    stored_value (w\<lparr>rw_now := rw_now w + d\<rparr>) k key = stored_value w k key"
  by (auto simp: stored_value_def live_def split: option.splits if_splits)

lemma stored_fault [simp]: "stored_value (w\<lparr>rw_up := b\<rparr>) k key = stored_value w k key"
  by (simp add: stored_value_def live_def split: option.splits)

lemma idem_inv_settled:
  assumes inv: "idem_inv s" and run: "is_runs s n = Some (k, key, fp)"
    and frame: "\<And>k' key'. (k', key') \<noteq> (k, key) \<Longrightarrow> stored_value w k' key' = stored_value (is_redis s) k' key'"
  shows "idem_inv (s\<lparr>is_redis := w, is_runs := (is_runs s)(n := None)\<rparr>)"
proof -
  have other: "(k', key') \<noteq> (k, key)" if "m \<noteq> n" "is_runs s m = Some (k', key', fp')" for m k' key' fp'
    using inv run that unfolding idem_inv_def by blast
  show ?thesis
    using inv frame other unfolding idem_inv_def by (auto split: if_splits)
qed

lemma idem_inv_claim:
  assumes inv: "idem_inv s" and "is_runs s n = None"
    and res: "store_reserve (server_store i c) k key fp (is_redis s) = (Inr oc, w)" "ro_acquired oc"
  shows "idem_inv (s\<lparr>is_redis := w, is_runs := (is_runs s)(n \<mapsto> (k, key, fp)), is_started := st\<rparr>)"
proof -
  have free: "stored_value (is_redis s) k key = None" and now: "stored_value w k key = Some (in_progress_value fp)"
    using redis_idem.reserve_acquired [of i c k key fp "is_redis s" oc w] res by (simp_all add: redis_port_def)
  have frame: "stored_value w k' key' = stored_value (is_redis s) k' key'" if "k' \<noteq> k \<or> key' \<noteq> key" for k' key'
    using reserve_frame [OF that, of i c fp "is_redis s"] res by simp
  have none: "is_runs s m \<noteq> Some (k, key, fp')" for m fp'
    using inv free unfolding idem_inv_def by fastforce
  show ?thesis
    unfolding idem_inv_def
  proof (intro conjI allI impI)
    fix m k' key' fp'
    assume "is_runs (s\<lparr>is_redis := w, is_runs := (is_runs s)(n \<mapsto> (k, key, fp)), is_started := st\<rparr>) m = Some (k', key', fp')"
    then show "stored_value (is_redis (s\<lparr>is_redis := w, is_runs := (is_runs s)(n \<mapsto> (k, key, fp)), is_started := st\<rparr>)) k' key' =
        Some (in_progress_value fp')"
      using inv none [of m fp'] now frame [of k' key'] unfolding idem_inv_def
      by (cases "k' = k \<and> key' = key") (auto split: if_splits)
  next
    fix m m' k' key' fp1 fp2
    assume "is_runs (s\<lparr>is_redis := w, is_runs := (is_runs s)(n \<mapsto> (k, key, fp)), is_started := st\<rparr>) m = Some (k', key', fp1) \<and>
      is_runs (s\<lparr>is_redis := w, is_runs := (is_runs s)(n \<mapsto> (k, key, fp)), is_started := st\<rparr>) m' = Some (k', key', fp2)"
    then show "m = m'"
      using inv none unfolding idem_inv_def by (auto split: if_splits)
  qed
qed

lemma idem_inv_step: "idem_step i c True s s' \<Longrightarrow> idem_inv s \<Longrightarrow> idem_inv s'"
proof (induction rule: idem_step.induct)
  case (claim s n k key fp oc w)
  then show ?case by (blast intro: idem_inv_claim)
next
  case (refused k key fp s r w)
  have "w = is_redis s"
    using refused(1,2) redis_idem.reserve_existing [of i c k key fp "is_redis s" _ w]
      redis_idem.reserve_failed [of i c k key fp "is_redis s" _ w]
    by (cases r) (auto simp: redis_port_def)
  with refused show ?case by simp
next
  case (completes s n k key fp resp r w)
  then show ?case using redis_idem.frame [of _ _ k key i c fp "is_redis s" "serialize resp"]
    by (intro idem_inv_settled) (auto simp: redis_port_def)
next
  case (marks s n k key fp t r w)
  then show ?case using redis_idem.frame [of _ _ k key i c fp "is_redis s" "[]" t]
    by (intro idem_inv_settled) (auto simp: redis_port_def)
next
  case (releases s n k key fp r w)
  then show ?case using redis_idem.frame [of _ _ k key i c fp "is_redis s" "[]" "[]"]
    by (intro idem_inv_settled) (auto simp: redis_port_def)
next
  case (tick d s' s)
  have "stored_value (is_redis s') k key = stored_value (is_redis s) k key"
    if "is_runs s n = Some (k, key, fp)" for n k key fp
    using tick(1-3) that stored_later [of d "is_redis s" k key] by fastforce
  with tick(2,4) show ?case by (simp add: idem_inv_def)
next
  case (fault s b)
  then show ?case by (simp add: idem_inv_def)
qed

lemma idem_inv_reachable: "(idem_step i c True)\<^sup>*\<^sup>* idem_init s \<Longrightarrow> idem_inv s"
proof (induction rule: rtranclp_induct)
  case base
  show ?case by (simp add: idem_inv_def idem_init_def)
qed (rule idem_inv_step)

text \<open>A record that no client is working on only goes away by expiry.\<close>

definition settled :: "idem_system \<Rightarrow> uuid \<Rightarrow> string \<Rightarrow> idem_value \<Rightarrow> seconds \<Rightarrow> bool" where
  "settled s k key v t \<longleftrightarrow> rw_kv (is_redis s) (idem_key k key) = Some (v, t) \<and>
     (\<forall>n fp. is_runs s n \<noteq> Some (k, key, fp))"

lemma store_now:
  "rw_now (snd (store_reserve (server_store i c) k key fp w)) = rw_now w"
  "rw_now (snd (store_complete (server_store i c) k key fp b w)) = rw_now w"
  "rw_now (snd (store_mark_ambiguous (server_store i c) k key fp t w)) = rw_now w"
  "rw_now (snd (store_release (server_store i c) k key w)) = rw_now w"
  by (cases rule: server_reserve [of i c k key fp w])
    (auto simp: server_complete server_mark server_release server_set_def split: if_splits)

lemma store_frame_kv:
  assumes "(k', key') \<noteq> (k, key)"
  shows "rw_kv (snd (store_reserve (server_store i c) k' key' fp w)) (idem_key k key) = rw_kv w (idem_key k key)"
    and "rw_kv (snd (store_complete (server_store i c) k' key' fp b w)) (idem_key k key) = rw_kv w (idem_key k key)"
    and "rw_kv (snd (store_mark_ambiguous (server_store i c) k' key' fp t w)) (idem_key k key) = rw_kv w (idem_key k key)"
    and "rw_kv (snd (store_release (server_store i c) k' key' w)) (idem_key k key) = rw_kv w (idem_key k key)"
  using assms by (cases rule: server_reserve [of i c k' key' fp w];
    auto simp: server_complete server_mark server_release server_set_def idem_key_inject split: if_splits)+

lemma settled_step:
  assumes "idem_step i c timely s s'" and "settled s k key v t" and "rw_now (is_redis s') < t"
  shows "settled s' k key v t \<and> is_started s' (k, key) = is_started s (k, key) \<and>
    rw_now (is_redis s) \<le> rw_now (is_redis s')"
  using assms
proof (induction rule: idem_step.induct)
  case (claim s n k' key' fp oc w)
  have "rw_now w = rw_now (is_redis s)" using store_now(1) [of i c k' key' fp "is_redis s"] claim(2) by simp
  moreover have "stored_value (is_redis s) k' key' = None"
    using redis_idem.reserve_acquired [of i c k' key' fp "is_redis s" oc w] claim(2,3) by (simp add: redis_port_def)
  ultimately have ne: "(k', key') \<noteq> (k, key)"
    using claim(4,5) by (auto simp: settled_def stored_value_def live_def)
  with store_frame_kv(1) [OF ne, of i c fp "is_redis s"] claim(2,4) \<open>rw_now w = _\<close> show ?case
    by (auto simp: settled_def)
next
  case (refused k' key' fp s r w)
  have "w = is_redis s"
    using refused(1,2) redis_idem.reserve_existing [of i c k' key' fp "is_redis s" _ w]
      redis_idem.reserve_failed [of i c k' key' fp "is_redis s" _ w]
    by (cases r) (auto simp: redis_port_def)
  with refused show ?case by (simp add: settled_def)
next
  case (completes s n k' key' fp resp r w)
  then have "(k', key') \<noteq> (k, key)" by (auto simp: settled_def)
  from store_frame_kv(2) [OF this, of i c fp "serialize resp" "is_redis s"] completes store_now(2) [of i c k' key' fp "serialize resp" "is_redis s"]
  show ?case by (auto simp: settled_def)
next
  case (marks s n k' key' fp tx r w)
  then have "(k', key') \<noteq> (k, key)" by (auto simp: settled_def)
  from store_frame_kv(3) [OF this, of i c fp tx "is_redis s"] marks store_now(3) [of i c k' key' fp tx "is_redis s"]
  show ?case by (auto simp: settled_def)
next
  case (releases s n k' key' fp r w)
  then have "(k', key') \<noteq> (k, key)" by (auto simp: settled_def)
  from store_frame_kv(4) [OF this, of i c "is_redis s"] releases store_now(4) [of i c k' key' "is_redis s"]
  show ?case by (auto simp: settled_def)
qed (auto simp: settled_def)

lemma idem_clock_mono: "idem_step i c timely s s' \<Longrightarrow> rw_now (is_redis s) \<le> rw_now (is_redis s')"
  by (induction rule: idem_step.induct) (auto simp: dest!: arg_cong [where f = "\<lambda>x. rw_now (snd x)"] simp: store_now)

lemma settled_steps:
  "(idem_step i c timely)\<^sup>*\<^sup>* s s' \<Longrightarrow> settled s k key v t \<Longrightarrow> rw_now (is_redis s') < t \<Longrightarrow>
    settled s' k key v t \<and> is_started s' (k, key) = is_started s (k, key)"
proof (induction rule: rtranclp_induct)
  case (step s1 s2)
  have mono: "rw_now (is_redis s1) \<le> rw_now (is_redis s2)" by (rule idem_clock_mono [OF step(2)])
  with step settled_step [OF step(2)] show ?case by fastforce
qed simp

subsection \<open>Streams\<close>

fun last_response :: "chat_stream_event list \<Rightarrow> chat_response option" where
  "last_response [] = None"
| "last_response (ChatStreamDelta t # evs) = last_response evs"
| "last_response (ChatStreamResponse r # evs) = (case last_response evs of None \<Rightarrow> Some r | Some r' \<Rightarrow> Some r')"

text \<open>Steps that leave the server up and one record alone.\<close>

definition keeps_record :: "uuid \<Rightarrow> string \<Rightarrow> 'x redis_world \<Rightarrow> 'x redis_world \<Rightarrow> bool" where
  "keeps_record k key w w' \<longleftrightarrow> rw_up w' = rw_up w \<and> stored_value w' k key = stored_value w k key"

definition primed_ok :: "uuid \<Rightarrow> string \<Rightarrow> ('g, 'x redis_world) anext \<Rightarrow> ('g \<Rightarrow> 'x redis_world \<Rightarrow> 'g \<times> 'x redis_world) \<Rightarrow> bool" where
  "primed_ok k key nx aclose \<longleftrightarrow>
     (\<forall>g w. keeps_record k key w (snd (nx g w)) \<and> keeps_record k key w (snd (aclose g w)))"

text \<open>What the store holds in the end, \<open>before\<close> being the record when no response was settled.\<close>

definition settled_as ::
  "string \<Rightarrow> idem_value option \<Rightarrow> chat_stream_event list \<Rightarrow> exn option \<Rightarrow> idem_value option \<Rightarrow> bool" where
  "settled_as fp before evs ending after \<longleftrightarrow> after = (case ending of
       Some e \<Rightarrow> Some (ambiguous_value fp (exn_str e))
     | None \<Rightarrow> (case last_response evs of None \<Rightarrow> before | Some r \<Rightarrow> Some (completed_value fp (serialize r))))"

lemma settle_except_server:
  assumes ok: "primed_ok k key nx aclose" and up: "rw_up w" and "0 < c"
  obtains w' where "settle_except (redis_port (server_store i c)) aclose key k fp g e w = ((Raised e, IG_Done), w')"
    and "stored_value w' k key = Some (ambiguous_value fp (exn_str e))"
proof -
  let ?w1 = "snd (store_mark_ambiguous (server_store i c) k key fp (exn_str e) w)"
  have "server_set (idem_key k key) (ambiguous_value fp (exn_str e)) c w = (Inr (), ?w1)"
    using up assms(3) by (simp add: server_mark server_set_def)
  then have "stored_value ?w1 k key = Some (ambiguous_value fp (exn_str e))" by (simp add: stored_server_set)
  moreover have "stored_value (snd (aclose g ?w1)) k key = stored_value ?w1 k key"
    using ok by (simp add: primed_ok_def keeps_record_def)
  ultimately show ?thesis
    using that by (simp add: settle_except_def redis_port_def server_mark)
qed

lemma settle_drive:
  fixes nx :: "('g, 'x redis_world) anext" and fp :: string and i :: int
  assumes ok: "primed_ok k key nx aclose" and c: "0 < c"
  defines "nxt \<equiv> idem_anext (redis_port (server_store i c)) nx aclose key k fp"
  shows "rw_up w \<Longrightarrow> drive nxt n (IG_Delta g) w = ((evs, Some ending), (g', w')) \<Longrightarrow>
      settled_as fp (stored_value w k key) evs ending (stored_value w' k key)"
    and "rw_up w \<Longrightarrow> drive nxt n (IG_Response r g) w = ((evs, Some ending), (g', w')) \<Longrightarrow>
      settled_as fp (Some (completed_value fp (serialize r))) evs ending (stored_value w' k key)"
proof (induction n arbitrary: g w evs r)
  case (Suc n)
  let ?port = "redis_port (server_store i c)"
  have next_ok: "settled_as fp (stored_value w k key) evs ending (stored_value w' k key)"
    if up: "rw_up w" and st: "nxt dg w0 = settle_next ?port nx aclose key k fp g w"
      and run: "drive nxt (Suc n) dg w0 = ((evs, Some ending), (g', w'))" for dg w0 g w evs
  proof -
    obtain x g1 w1 where pull: "nx g w = ((x, g1), w1)" by (metis prod.collapse)
    have keep: "rw_up w1" "stored_value w1 k key = stored_value w k key"
      using ok up pull by (auto simp: primed_ok_def keeps_record_def) (metis snd_conv)+
    show ?thesis
    proof (cases x)
      case (Yielded ev)
      show ?thesis
      proof (cases ev)
        case (ChatStreamDelta t)
        with run st pull Yielded obtain evs' where "evs = ChatStreamDelta t # evs'"
          "drive nxt n (IG_Delta g1) w1 = ((evs', Some ending), (g', w'))"
          by (auto simp: settle_next_def split: prod.splits)
        with Suc(1) keep show ?thesis by (fastforce simp: settled_as_def split: option.splits)
      next
        case (ChatStreamResponse r)
        with run st pull Yielded obtain evs' where "evs = ChatStreamResponse r # evs'"
          "drive nxt n (IG_Response r g1) w1 = ((evs', Some ending), (g', w'))"
          by (auto simp: settle_next_def split: prod.splits)
        with Suc(2) keep show ?thesis by (fastforce simp: settled_as_def split: option.splits)
      qed
    next
      case Stopped
      have "stored_value (snd (aclose g1 w1)) k key = stored_value w1 k key"
        using ok by (simp add: primed_ok_def keeps_record_def)
      with run st pull Stopped keep show ?thesis by (auto simp: settle_next_def settled_as_def)
    next
      case (Raised e)
      obtain w2 where "settle_except ?port aclose key k fp g1 e w1 = ((Raised e, IG_Done), w2)"
        "stored_value w2 k key = Some (ambiguous_value fp (exn_str e))"
        using settle_except_server [OF ok keep(1) c] by blast
      with run st pull Raised show ?thesis by (auto simp: settle_next_def settled_as_def)
    qed
  qed
  {
    case 1
    then show ?case using next_ok [of w "IG_Delta g" w g evs] by (simp add: nxt_def)
  next
    case 2
    let ?w1 = "snd (store_complete (server_store i c) k key fp (serialize r) w)"
    have set: "server_set (idem_key k key) (completed_value fp (serialize r)) c w = (Inr (), ?w1)"
      using 2(1) c by (simp add: server_complete server_set_def)
    have up: "rw_up ?w1" using 2(1) c by (simp add: server_complete server_set_def)
    have "ip_complete ?port k key fp (serialize r) w = (Inr (), ?w1)"
      using 2(1) c by (simp add: redis_port_def server_complete server_set_def)
    then have st: "nxt (IG_Response r g) w = settle_next ?port nx aclose key k fp g ?w1"
      by (simp add: nxt_def)
    from next_ok [OF up st 2(2)] stored_server_set [OF set, of k key] show ?case by simp
  }
qed simp_all

subsection \<open>Correctness properties\<close>

text \<open>What a record answers.\<close>

lemma claimed_answers:
  "claimed_outcome fp replay (outcome_existing (completed_value fp b)) = replay b"
  "claimed_outcome fp replay (outcome_existing (ambiguous_value fp t)) = Inl (IdempotencyOutcomeUnknown (Some t))"
  "claimed_outcome fp replay (outcome_existing (in_progress_value fp)) = Inl IdempotencyInProgress"
  "iv_fingerprint v \<noteq> fp \<Longrightarrow> claimed_outcome fp replay (outcome_existing v) = Inl IdempotencyKeyConflict"
  by (simp_all add: claimed_outcome_def outcome_existing_def completed_value_def ambiguous_value_def in_progress_value_def)

lemma reserve_with_record:
  assumes "stored_value w k key = Some v" and "rw_up w" and "0 < i"
  shows "\<exists>oc w1. ip_reserve (redis_port (server_store i c)) k key fp w = (Inr oc, w1)"
  using assms by (cases rule: server_reserve [of i c k key fp w])
    (auto simp: redis_port_def store_reserve_def RESERVE_ATTEMPTS_def numeral_eq_Suc server_store_def
      server_set_nx_def server_get_def stored_value_def)

text \<open>A call after one that returned a response, while the record is kept.\<close>

lemma execute_again:
  assumes "idem_execute (redis_port (server_store i c)) digest key k req op w = (Inr r, w1)"
    and "stored_value w2 k key = stored_value w1 k key" and "rw_up w2" and "0 < i"
  obtains b where "deserialize b = Inr r"
    "idem_execute (redis_port (server_store i c)) digest key k req' op' w2 =
      ((if fingerprint digest req' = fingerprint digest req then Inr r else Inl IdempotencyKeyConflict), w2)"
    "fingerprint digest req' = fingerprint digest req \<Longrightarrow>
      idem_execute_stream (redis_port (server_store i c)) digest key k req' sop w2 = (Inr (IG_Replay b), w2)"
proof -
  obtain v where v: "stored_value w2 k key = Some v" "replayable v (fingerprint digest req) r"
    using redis_idem.execute_response_stored [OF assms(1)] assms(2) by auto
  obtain oc w' where "ip_reserve (redis_port (server_store i c)) k key (fingerprint digest req') w2 = (Inr oc, w')"
    using reserve_with_record [OF v(1) assms(3,4)] by blast
  note claimed = redis_idem.execute_claimed [OF v(1) this]
  show ?thesis
    by (rule that [of "case iv_response v of None \<Rightarrow> [] | Some b \<Rightarrow> b"])
      (use v(2) claimed in \<open>auto simp: claimed_outcome_def outcome_existing_def replayable_def\<close>)
qed

text \<open>A first call that returned a response ran its operation once, between two store calls.\<close>

lemma server_set_app: "server_set rk v ttl w = (x, w') \<Longrightarrow> rw_app w' = rw_app w"
  by (auto simp: server_set_def split: if_splits)

definition settle_call ::
  "'w idem_port \<Rightarrow> string \<Rightarrow> uuid \<Rightarrow> string \<Rightarrow> chat_response result \<times> 'w \<Rightarrow> chat_response result \<times> 'w" where
  "settle_call port key k fp call = (case call of
       (Inl e, w) \<Rightarrow> (if is_UpstreamAmbiguous e then reraise e (ip_mark_ambiguous port k key fp (exn_str e) w)
                      else reraise e (ip_release port k key w))
     | (Inr r, w) \<Rightarrow> (case ip_complete port k key fp (serialize r) w of
           (Inl e, w') \<Rightarrow> (Inl e, w') | (Inr u, w') \<Rightarrow> (Inr r, w')))"

lemma settle_call_server:
  "settle_call (redis_port (server_store i c)) key k fp (Inr r, w) =
     (case server_set (idem_key k key) (completed_value fp (serialize r)) c w of
        (Inl e, w') \<Rightarrow> (Inl IdempotencyStoreUnavailable, w) | (Inr u, w') \<Rightarrow> (Inr r, w'))"
  "\<not> is_UpstreamAmbiguous e \<Longrightarrow> settle_call (redis_port (server_store i c)) key k fp (Inl e, w) =
     (Inl e, if rw_up w then w\<lparr>rw_kv := (rw_kv w)(idem_key k key := None)\<rparr> else w)"
  by (auto simp: settle_call_def redis_port_def server_complete server_release reraise_def split: prod.splits sum.splits)

lemma reserve_free:
  assumes "stored_value w k key = None" and "rw_up w" and "0 < i"
  obtains w1 where "ip_reserve (redis_port (server_store i c)) k key fp w = (Inr outcome_acquired, w1)"
    "rw_app w1 = rw_app w" "rw_up w1" "rw_now w1 = rw_now w"
proof (cases rule: server_reserve [of i c k key fp w])
  case (failed e)
  with assms show ?thesis
    by (simp add: store_reserve_def RESERVE_ATTEMPTS_def numeral_eq_Suc server_store_def server_set_nx_def
        server_set_def stored_value_def)
next
  case (won w1)
  then have "rw_app w1 = rw_app w" "rw_up w1" "rw_now w1 = rw_now w" by (auto simp: server_set_def split: if_splits)
  then show ?thesis using won(1) by (intro that [of w1]) (simp_all add: redis_port_def)
qed (use assms in simp)

lemma execute_runs:
  assumes "stored_value w k key = None" and "rw_up w" and "0 < i"
  obtains w1 where "rw_app w1 = rw_app w" "rw_up w1" "rw_now w1 = rw_now w"
    "idem_execute (redis_port (server_store i c)) digest key k req op w =
      settle_call (redis_port (server_store i c)) key k (fingerprint digest req) (op w1)"
proof -
  obtain w1 where "ip_reserve (redis_port (server_store i c)) k key (fingerprint digest req) w = (Inr outcome_acquired, w1)"
    and "rw_app w1 = rw_app w" "rw_up w1" "rw_now w1 = rw_now w"
    by (rule reserve_free [OF assms])
  then show ?thesis by (intro that [of w1]) (simp_all add: idem_execute_def outcome_acquired_def Let_def settle_call_def)
qed

lemma execute_stream_runs:
  assumes "stored_value w k key = None" and "rw_up w" and "0 < i"
  obtains w1 where "rw_app w1 = rw_app w" "rw_up w1" "rw_now w1 = rw_now w"
    "\<And>g w2. op w1 = (Inr g, w2) \<Longrightarrow>
      idem_execute_stream (redis_port (server_store i c)) digest key k req op w = (Inr (IG_Start g), w2)"
proof -
  obtain w1 where "ip_reserve (redis_port (server_store i c)) k key (fingerprint digest req) w = (Inr outcome_acquired, w1)"
    and "rw_app w1 = rw_app w" "rw_up w1" "rw_now w1 = rw_now w"
    by (rule reserve_free [OF assms])
  then show ?thesis by (intro that [of w1]) (simp_all add: idem_execute_stream_def outcome_acquired_def Let_def)
qed

lemma execute_fresh:
  assumes "idem_execute (redis_port (server_store i c)) digest key k req op w = (Inr r, w')"
    and "stored_value w k key = None"
  obtains w1 w2 where "op w1 = (Inr r, w2)" "rw_app w1 = rw_app w" "rw_app w' = rw_app w2"
proof (cases rule: server_reserve [of i c k key "fingerprint digest req" w])
  case (won w1)
  with assms(1) obtain w2 where op: "op w1 = (Inr r, w2)"
      "store_complete (server_store i c) k key (fingerprint digest req) (serialize r) w2 = (Inr (), w')"
    by (auto simp: idem_execute_def redis_port_def outcome_acquired_def Let_def reraise_def
        split: prod.splits sum.splits if_splits)
  with won(3) show ?thesis
    by (intro that [OF op(1)]) (auto simp: server_complete dest!: server_set_app split: prod.splits sum.splits)
qed (use assms in \<open>auto simp: idem_execute_def redis_port_def\<close>)

lemma replay_drive:
  "deserialize b = Inr r \<Longrightarrow> drive (idem_anext port nx aclose key k fp) 3 (IG_Replay b) w =
    (((if resp_content r = [] then [] else [ChatStreamDelta (resp_content r)]) @ [ChatStreamResponse r],
      Some None), (IG_Done, w))"
  by (simp add: numeral_eq_Suc)

text \<open>
  C9. Replay. Once a call has returned a response under an idempotency key, and as long as the
  record is kept, any further call with that key and the same request gets the identical
  response without running its operation and without changing anything, also as a stream of one
  delta and the response; the same key with another request is a conflict, and is not run either.
\<close>

theorem idempotent_replay:
  assumes "idem_execute (redis_port (server_store i c)) digest key k req op w = (Inr r, w1)"
    and "stored_value w2 k key = stored_value w1 k key" and "rw_up w2" and "0 < i"
  shows "idem_execute (redis_port (server_store i c)) digest key k req' op' w2 =
      ((if fingerprint digest req' = fingerprint digest req then Inr r else Inl IdempotencyKeyConflict), w2) \<and>
    (fingerprint digest req' = fingerprint digest req \<longrightarrow>
      (\<exists>b. idem_execute_stream (redis_port (server_store i c)) digest key k req' sop w2 = (Inr (IG_Replay b), w2) \<and>
         drive (idem_anext (redis_port (server_store i c)) nx aclose key k fp) 3 (IG_Replay b) w2 =
           (((if resp_content r = [] then [] else [ChatStreamDelta (resp_content r)]) @ [ChatStreamResponse r],
             Some None), (IG_Done, w2))))"
proof -
  obtain b where "deserialize b = Inr r"
    "idem_execute (redis_port (server_store i c)) digest key k req' op' w2 =
      ((if fingerprint digest req' = fingerprint digest req then Inr r else Inl IdempotencyKeyConflict), w2)"
    "fingerprint digest req' = fingerprint digest req \<Longrightarrow>
      idem_execute_stream (redis_port (server_store i c)) digest key k req' sop w2 = (Inr (IG_Replay b), w2)"
    using execute_again [OF assms, of req' op' sop] by metis
  then show ?thesis by (intro conjI impI exI [of _ b]) (simp_all only: replay_drive)
qed

text \<open>
  C8. Mutual exclusion. In every interleaving of any number of clients in which no claim
  expires under a running operation, server outages included, at most one client runs an operation
  under a key of a tenant, and while it does the key holds its claim, so every other call is
  answered from the record.
\<close>

theorem idempotency_mutual_exclusion:
  assumes "(idem_step i c True)\<^sup>*\<^sup>* idem_init s"
    and "is_runs s n = Some (k, key, fp)"
  shows "stored_value (is_redis s) k key = Some (in_progress_value fp) \<and>
    (\<forall>m fp'. is_runs s m = Some (k, key, fp') \<longrightarrow> m = n \<and> fp' = fp)"
proof -
  have "idem_inv s" using idem_inv_reachable [OF assms(1)] .
  with assms(2) show ?thesis unfolding idem_inv_def by (metis option.inject prod.inject)
qed


text \<open>
  After a failure. With the store up, a call that fails with an unknown upstream outcome
  leaves a marker, and a retry of the same request is told that the outcome is unknown, with the
  original failure, and is not run; a call that fails otherwise leaves the key free.
\<close>

theorem failed_call_outcome:
  assumes "stored_value w k key = None" and "rw_up w" and "0 < i" and "0 < c"
    and "\<forall>w1 x w2. op w1 = (x, w2) \<longrightarrow> rw_up w2 = rw_up w1"
    and "idem_execute (redis_port (server_store i c)) digest key k req op w = (Inl e, w')"
  shows "if is_UpstreamAmbiguous e
    then idem_execute (redis_port (server_store i c)) digest key k req op' w' =
      (Inl (IdempotencyOutcomeUnknown (Some (exn_str e))), w')
    else stored_value w' k key = None"
proof -
  let ?fp = "fingerprint digest req" and ?port = "redis_port (server_store i c)"
  obtain w1 where set: "server_set (idem_key k key) (in_progress_value ?fp) i w = (Inr (), w1)"
    and up1: "rw_up w1" using assms(2,3) by (simp add: server_set_def)
  have res: "ip_reserve ?port k key ?fp w = (Inr outcome_acquired, w1)"
    using assms(1-3) set by (simp add: redis_port_def store_reserve_def RESERVE_ATTEMPTS_def
        numeral_eq_Suc server_store_def server_set_nx_def stored_value_def)
  obtain x w2 where op: "op w1 = (x, w2)" by fastforce
  have up2: "rw_up w2" using assms(5) op up1 by blast
  have "x = Inl e" and w': "w' = (if is_UpstreamAmbiguous e
      then snd (store_mark_ambiguous (server_store i c) k key ?fp (exn_str e) w2)
      else snd (store_release (server_store i c) k key w2))"
    using assms(4,6) res op up2
    by (auto simp: idem_execute_def Let_def outcome_acquired_def reraise_def redis_port_def server_mark
        server_release server_complete server_set_def split: sum.splits if_splits)
  show ?thesis
  proof (cases "is_UpstreamAmbiguous e")
    case True
    have set': "server_set (idem_key k key) (ambiguous_value ?fp (exn_str e)) c w2 = (Inr (), w')"
      using True w' up2 assms(4) by (simp add: server_mark server_set_def)
    have v: "stored_value w' k key = Some (ambiguous_value ?fp (exn_str e))"
      using stored_server_set [OF set', of k key] by simp
    have up': "rw_up w'" using set' up2 assms(4) by (auto simp: server_set_def)
    obtain oc w3 where "ip_reserve ?port k key ?fp w' = (Inr oc, w3)"
      using reserve_with_record [OF v up' assms(3)] by blast
    from redis_idem.execute_claimed(1) [OF v this] True show ?thesis
      by (simp add: claimed_outcome_def outcome_existing_def ambiguous_value_def)
  next
    case False
    with w' up2 show ?thesis by (simp add: server_release stored_delete)
  qed
qed

text \<open>
  Settling a stream. Whatever the primed stream does short of touching this record, a
  consumer that reads the settled stream to its end finds the key completed with the terminal
  response it was sent, or, if the stream broke, marked ambiguous with the failure; a consumer that
  stops reading after the first event leaves it ambiguous. In none of these cases is the key free
  for a second execution.
\<close>

theorem settled_stream_outcome:
  assumes "primed_ok k key nx aclose" and "0 < c" and "rw_up w"
    and "stored_value w k key = Some (in_progress_value fp)"
    and "drive (idem_anext (redis_port (server_store i c)) nx aclose key k fp) n (IG_Start g) w =
      ((evs, Some ending), (g', w'))"
  shows "stored_value w' k key = Some (case ending of
      Some e \<Rightarrow> ambiguous_value fp (exn_str e)
    | None \<Rightarrow> (case last_response evs of None \<Rightarrow> in_progress_value fp
        | Some r \<Rightarrow> completed_value fp (serialize r))) \<and>
    (\<forall>r g1. stored_value (snd (idem_aclose (redis_port (server_store i c)) aclose key k fp (IG_Delta g1) w)) k key =
       Some (ambiguous_value fp []) \<and>
     stored_value (snd (idem_aclose (redis_port (server_store i c)) aclose key k fp (IG_Response r g1) w)) k key =
       Some (ambiguous_value fp []))"
proof -
  have "drive (idem_anext (redis_port (server_store i c)) nx aclose key k fp) n (IG_Start g) w =
      drive (idem_anext (redis_port (server_store i c)) nx aclose key k fp) n (IG_Delta g) w" if "0 < n"
    using that by (cases n) simp_all
  then have "drive (idem_anext (redis_port (server_store i c)) nx aclose key k fp) n (IG_Delta g) w =
      ((evs, Some ending), (g', w'))" using assms(5) by (cases n) simp_all
  from settle_drive(1) [OF assms(1-3) this] assms(4)
  have "stored_value w' k key = Some (case ending of
      Some e \<Rightarrow> ambiguous_value fp (exn_str e)
    | None \<Rightarrow> (case last_response evs of None \<Rightarrow> in_progress_value fp
        | Some r \<Rightarrow> completed_value fp (serialize r)))"
    by (simp add: settled_as_def split: option.splits)
  moreover have "stored_value (snd (settle_except (redis_port (server_store i c)) aclose key k fp g1 GeneratorExit w)) k key =
      Some (ambiguous_value fp [])" for g1
  proof -
    obtain w1 where "settle_except (redis_port (server_store i c)) aclose key k fp g1 GeneratorExit w = ((Raised GeneratorExit, IG_Done), w1)"
      and "stored_value w1 k key = Some (ambiguous_value fp (exn_str GeneratorExit))"
      by (rule settle_except_server [OF assms(1,3,2)])
    then show ?thesis by simp
  qed
  ultimately show ?thesis by simp
qed

text \<open>
  The in-flight ttl is not renewed. With the default configuration, when an operation runs
  for longer than the in-flight ttl, a second client acquires the same key and both run at once.
\<close>

theorem expired_claim_runs_twice:
  "\<exists>s. (idem_step (idempotency_inflight_ttl_s (default_settings u a)) (idempotency_ttl_s (default_settings u a)) False)\<^sup>*\<^sup>*
      idem_init s \<and>
    is_runs s 0 = Some (k, key, fp) \<and> is_runs s 1 = Some (k, key, fp) \<and> is_started s (k, key) = 2"
proof -
  let ?st = "idem_step 120 86400 False"
  let ?e = "\<lambda>t. \<lparr>rw_kv = [idem_key k key \<mapsto> (in_progress_value fp, t + 120)], rw_now = t, rw_up = True, rw_app = ()\<rparr>"
  let ?s1 = "\<lparr>is_redis = ?e 0, is_runs = [0 \<mapsto> (k, key, fp)], is_started = (\<lambda>_. 0)((k, key) := 1)\<rparr>"
  let ?s2 = "?s1\<lparr>is_redis := (?e 0)\<lparr>rw_now := 121\<rparr>\<rparr>"
  let ?s3 = "\<lparr>is_redis = ?e 121, is_runs = [0 \<mapsto> (k, key, fp), 1 \<mapsto> (k, key, fp)],
    is_started = (\<lambda>_. 0)((k, key) := 2)\<rparr>"
  have "store_reserve (server_store 120 86400) k key fp (is_redis idem_init) = (Inr outcome_acquired, ?e 0)"
    by (simp add: store_reserve_def RESERVE_ATTEMPTS_def numeral_eq_Suc server_store_def server_set_nx_def
        server_set_def live_def idem_init_def)
  from idem_step.claim [of idem_init 0, OF _ this, of False] have 1: "?st idem_init ?s1"
    by (simp add: idem_init_def outcome_acquired_def)
  have 2: "?st ?s1 ?s2" by (rule idem_step.tick [of 121]) simp_all
  have "store_reserve (server_store 120 86400) k key fp (is_redis ?s2) = (Inr outcome_acquired, ?e 121)"
    by (simp add: store_reserve_def RESERVE_ATTEMPTS_def numeral_eq_Suc server_store_def server_set_nx_def
        server_set_def live_def)
  from idem_step.claim [of ?s2 1, OF _ this, of False] have "?st ?s2 ?s3"
    by (simp add: outcome_acquired_def numeral_2_eq_2)
  with 1 2 have "?st\<^sup>*\<^sup>* idem_init ?s3" by (meson rtranclp.rtrancl_into_rtrancl rtranclp.rtrancl_refl)
  then show ?thesis by (intro exI [of _ ?s3]) (simp add: default_settings_def)
qed

subsection \<open>Instances\<close>

definition idem_world :: "unit redis_world" where
  "idem_world = \<lparr>rw_kv = Map.empty, rw_now = 0, rw_up = True, rw_app = ()\<rparr>"

definition idem_response :: chat_response where
  "idem_response = \<lparr>resp_provider = OPENAI, resp_model = ''gpt-4o'', resp_content = ''hello'',
     resp_tokens_in = 3, resp_tokens_out = 1, resp_finish_reason = ''stop'', resp_request_id = ''r1''\<rparr>"

lemma idem_world_first_run:
  "idem_execute (redis_port (server_store 120 86400)) fp_model ''k1'' 7 demo_request (\<lambda>w. (Inr idem_response, w)) idem_world =
     (Inr idem_response, idem_world\<lparr>rw_kv := [idem_key 7 ''k1'' \<mapsto>
        (completed_value (fingerprint fp_model demo_request) (serialize idem_response), 86400)]\<rparr>)"
  by (simp add: idem_execute_def redis_port_def store_reserve_def RESERVE_ATTEMPTS_def numeral_eq_Suc(1)
      server_store_def server_set_nx_def server_set_def live_def idem_world_def outcome_acquired_def
      store_complete_def)

theorem idempotent_replay_witness:
  "\<exists>w1. idem_execute (redis_port (server_store 120 86400)) fp_model ''k1'' 7 demo_request
        (\<lambda>w. (Inr idem_response, w)) idem_world = (Inr idem_response, w1) \<and>
     idem_execute (redis_port (server_store 120 86400)) fp_model ''k1'' 7 demo_request
        (\<lambda>w. (Inl TimeoutError, w)) (w1\<lparr>rw_now := 3600\<rparr>) = (Inr idem_response, w1\<lparr>rw_now := 3600\<rparr>)"
proof -
  obtain w1 where run: "idem_execute (redis_port (server_store 120 86400)) fp_model ''k1'' 7 demo_request
      (\<lambda>w. (Inr idem_response, w)) idem_world = (Inr idem_response, w1)"
    and w1: "w1 = idem_world\<lparr>rw_kv := [idem_key 7 ''k1'' \<mapsto>
        (completed_value (fingerprint fp_model demo_request) (serialize idem_response), 86400)]\<rparr>"
    using idem_world_first_run by blast
  have "stored_value (w1\<lparr>rw_now := 3600\<rparr>) 7 ''k1'' = stored_value w1 7 ''k1''" "rw_up (w1\<lparr>rw_now := 3600\<rparr>)"
    by (simp_all add: w1 stored_value_def live_def idem_world_def)
  from idempotent_replay [OF run this, of demo_request "\<lambda>w. (Inl TimeoutError, w)"] run show ?thesis by auto
qed

definition idem_claimed :: idem_system where
  "idem_claimed = \<lparr>is_redis = idem_world\<lparr>rw_kv := [idem_key 7 ''k1'' \<mapsto> (in_progress_value ''f'', 120)]\<rparr>,
     is_runs = [0 \<mapsto> (7, ''k1'', ''f'')], is_started = (\<lambda>_. 0)((7, ''k1'') := 1)\<rparr>"

definition idem_completed :: idem_system where
  "idem_completed = \<lparr>is_redis = idem_world\<lparr>rw_kv := [idem_key 7 ''k1'' \<mapsto>
       (completed_value ''f'' (serialize idem_response), 86400)]\<rparr>,
     is_runs = Map.empty, is_started = (\<lambda>_. 0)((7, ''k1'') := 1)\<rparr>"

lemma idem_claim_step: "idem_step 120 86400 True idem_init idem_claimed"
proof -
  have "store_reserve (server_store 120 86400) 7 ''k1'' ''f'' (is_redis idem_init) =
      (Inr outcome_acquired, is_redis idem_claimed)"
    by (simp add: store_reserve_def RESERVE_ATTEMPTS_def numeral_eq_Suc(1) server_store_def server_set_nx_def
        server_set_def live_def idem_init_def idem_claimed_def idem_world_def)
  from idem_step.claim [of idem_init 0, OF _ this, of True] show ?thesis
    by (simp add: idem_init_def idem_claimed_def outcome_acquired_def)
qed

lemma idem_complete_step: "idem_step 120 86400 True idem_claimed idem_completed"
proof -
  have "store_complete (server_store 120 86400) 7 ''k1'' ''f'' (serialize idem_response) (is_redis idem_claimed) =
      (Inr (), is_redis idem_completed)"
    by (simp add: store_complete_def server_store_def server_set_def idem_claimed_def idem_completed_def idem_world_def)
  from idem_step.completes [of idem_claimed 0, OF _ this, of True] show ?thesis
    by (simp add: idem_claimed_def idem_completed_def)
qed

theorem idempotency_mutual_exclusion_witness:
  "(idem_step 120 86400 True)\<^sup>*\<^sup>* idem_init idem_claimed \<and>
   stored_value (is_redis idem_claimed) 7 ''k1'' = Some (in_progress_value ''f'')"
proof -
  have r: "(idem_step 120 86400 True)\<^sup>*\<^sup>* idem_init idem_claimed" using idem_claim_step by blast
  with idempotency_mutual_exclusion [OF r, of 0 7 "''k1''" "''f''"] show ?thesis by (simp add: idem_claimed_def)
qed


theorem failed_call_outcome_witness:
  "\<exists>w'. idem_execute (redis_port (server_store 120 86400)) fp_model ''k1'' 7 demo_request
        (\<lambda>w. (Inl (UpstreamAmbiguous [Lit ''t'']), w)) idem_world = (Inl (UpstreamAmbiguous [Lit ''t'']), w') \<and>
     idem_execute (redis_port (server_store 120 86400)) fp_model ''k1'' 7 demo_request
        (\<lambda>w. (Inr idem_response, w)) w' = (Inl (IdempotencyOutcomeUnknown (Some [Lit ''t''])), w')"
proof -
  let ?op = "\<lambda>w :: unit redis_world. (Inl (UpstreamAmbiguous [Lit ''t'']) :: chat_response result, w)"
  obtain w' where run: "idem_execute (redis_port (server_store 120 86400)) fp_model ''k1'' 7 demo_request ?op idem_world =
      (Inl (UpstreamAmbiguous [Lit ''t'']), w')"
    by (simp add: idem_execute_def redis_port_def store_reserve_def RESERVE_ATTEMPTS_def numeral_eq_Suc(1)
      server_store_def server_set_nx_def server_set_def live_def idem_world_def outcome_acquired_def
      store_mark_ambiguous_def reraise_def)
  from failed_call_outcome [OF _ _ _ _ _ run, of "\<lambda>w. (Inr idem_response, w)"] run show ?thesis
    by (auto simp: idem_world_def stored_value_def live_def)
qed

fun list_anext :: "(chat_stream_event list, 'w) anext" where
  "list_anext [] w = ((Stopped, []), w)"
| "list_anext (e # es) w = ((Yielded e, es), w)"

theorem settled_stream_outcome_witness:
  "\<exists>w'. drive (idem_anext (redis_port (server_store 120 86400)) list_anext Pair ''k1'' 7 ''f'') 3
      (IG_Start [ChatStreamDelta ''hello'', ChatStreamResponse idem_response]) (is_redis idem_claimed) =
      (([ChatStreamDelta ''hello'', ChatStreamResponse idem_response], Some None), (IG_Done, w')) \<and>
    stored_value w' 7 ''k1'' = Some (completed_value ''f'' (serialize idem_response))"
proof -
  have keep: "snd (list_anext g w) = w" for g and w :: "unit redis_world" by (cases g) simp_all
  have ok: "primed_ok 7 ''k1'' (list_anext :: (_, unit redis_world) anext) Pair"
    by (simp add: primed_ok_def keeps_record_def keep)
  obtain w' where run: "drive (idem_anext (redis_port (server_store 120 86400)) list_anext Pair ''k1'' 7 ''f'') 3
      (IG_Start [ChatStreamDelta ''hello'', ChatStreamResponse idem_response]) (is_redis idem_claimed) =
      (([ChatStreamDelta ''hello'', ChatStreamResponse idem_response], Some None), (IG_Done, w'))"
    by (simp add: numeral_eq_Suc(1) settle_next_def redis_port_def store_complete_def server_store_def
        server_set_def idem_claimed_def idem_world_def eval_nat_numeral)
  have "rw_up (is_redis idem_claimed)" "stored_value (is_redis idem_claimed) 7 ''k1'' = Some (in_progress_value ''f'')"
    by (simp_all add: idem_claimed_def idem_world_def stored_value_def live_def)
  from settled_stream_outcome [OF ok _ this run] run show ?thesis by simp
qed

end
