(* ===== verification/Ledger.thy ===== *)
theory Ledger
  imports Accounting
begin

text \<open>
  The durable ledger: the tables (\<open>app/models/db\<close>), the repositories
  (\<open>app/repositories/usage_repo.py\<close>, \<open>api_key_repo.py\<close>, \<open>pricing_repo.py\<close>), the
  read and management services (\<open>app/services/usage_service.py\<close>,
  \<open>api_key_service.py\<close>), the token helpers (\<open>app/infra/security/crypto.py\<close>) and the
  transaction of a request (\<open>get_session\<close> of \<open>app/infra/database/session.py\<close>).

  A table is the list of its rows; the order \<open>ORDER BY\<close> gives to equal keys is PostgreSQL's,
  so the ordering is a parameter with the law that it sorts (locale \<open>sql_order\<close>). Amounts are
  exact (the columns round to six decimals), and the column widths are not modelled.
\<close>

subsection \<open>Tables\<close>

record usage_row =
  uw_api_key_id :: uuid
  uw_provider :: string
  uw_model :: string
  uw_token_in :: int
  uw_token_out :: int
  uw_finish_reason :: string
  uw_cost :: decimal
  uw_request_id :: string
  uw_created_at :: datetime

record pricing_row =
  pw_provider :: string
  pw_model :: string
  pw_price_per_1k_input_tokens :: decimal
  pw_price_per_1k_output_tokens :: decimal
  pw_effective_from :: datetime

text \<open>The columns of \<open>api_key\<close> are the fields of the domain object.\<close>

record database =
  db_api_keys :: "api_key list"
  db_usage :: "usage_row list"
  db_pricing :: "pricing_row list"

definition integrity_error :: exn where
  "integrity_error = OtherException [Lit ''IntegrityError'']"

subsection \<open>Usage records\<close>

definition usage_row_of :: "usage_record \<Rightarrow> usage_row" where
  "usage_row_of r = \<lparr>uw_api_key_id = ur_api_key_id r, uw_provider = provider_value (ur_provider r),
     uw_model = ur_model r, uw_token_in = ur_tokens_in r, uw_token_out = ur_tokens_out r,
     uw_finish_reason = ur_finish_reason r, uw_cost = ur_cost r, uw_request_id = ur_request_id r,
     uw_created_at = ur_created_at r\<rparr>"

definition provider_enum_of :: "string \<Rightarrow> provider_enum result" where
  "provider_enum_of s = (case provider_of_value s of Some p \<Rightarrow> Inr p
     | None \<Rightarrow> Inl (ValueError [ReprS s, Lit '' is not a valid ProviderEnum'']))"

definition usage_to_domain :: "usage_row \<Rightarrow> usage_record result" where
  "usage_to_domain row = (case provider_enum_of (uw_provider row) of
       Inl e \<Rightarrow> Inl e
     | Inr p \<Rightarrow> Inr \<lparr>ur_api_key_id = uw_api_key_id row, ur_provider = p, ur_model = uw_model row,
         ur_tokens_in = uw_token_in row, ur_tokens_out = uw_token_out row, ur_cost = uw_cost row,
         ur_finish_reason = uw_finish_reason row, ur_request_id = uw_request_id row,
         ur_created_at = uw_created_at row\<rparr>)"

text \<open>A list comprehension over calls that may raise: the first exception ends it.\<close>

fun map_result :: "('a \<Rightarrow> 'b result) \<Rightarrow> 'a list \<Rightarrow> 'b list result" where
  "map_result f [] = Inr []"
| "map_result f (x # xs) = (case f x of Inl e \<Rightarrow> Inl e
     | Inr y \<Rightarrow> (case map_result f xs of Inl e \<Rightarrow> Inl e | Inr ys \<Rightarrow> Inr (y # ys)))"

text \<open>\<open>UsageRepo.save\<close>: the flush fails when the row has no api key to refer to.\<close>

definition usage_save :: "usage_record \<Rightarrow> database \<Rightarrow> unit result \<times> database" where
  "usage_save r db =
     (if ur_api_key_id r \<in> ak_id ` set (db_api_keys db)
      then (Inr (), db\<lparr>db_usage := db_usage db @ [usage_row_of r]\<rparr>)
      else (Inl integrity_error, db))"

definition apply_window :: "datetime option \<Rightarrow> datetime option \<Rightarrow> usage_row list \<Rightarrow> usage_row list" where
  "apply_window since until rows =
     (let rows = (case since of None \<Rightarrow> rows | Some t \<Rightarrow> filter (\<lambda>r. t \<le> uw_created_at r) rows)
      in case until of None \<Rightarrow> rows | Some t \<Rightarrow> filter (\<lambda>r. uw_created_at r \<le> t) rows)"

definition caller_rows :: "database \<Rightarrow> uuid \<Rightarrow> datetime option \<Rightarrow> datetime option \<Rightarrow> usage_row list" where
  "caller_rows db api_key_id since until =
     apply_window since until (filter (\<lambda>r. uw_api_key_id r = api_key_id) (db_usage db))"

record usage_summary =
  us_total_requests :: int
  us_total_tokens_in :: int
  us_total_tokens_out :: int
  us_total_cost :: decimal
  us_since :: "datetime option"
  us_until :: "datetime option"

definition summary_by_api_key :: "database \<Rightarrow> uuid \<Rightarrow> datetime option \<Rightarrow> datetime option \<Rightarrow> usage_summary" where
  "summary_by_api_key db api_key_id since until =
     (let rows = caller_rows db api_key_id since until
      in \<lparr>us_total_requests = int (length rows), us_total_tokens_in = sum_list (map uw_token_in rows),
          us_total_tokens_out = sum_list (map uw_token_out rows),
          us_total_cost = sum_list (map uw_cost rows), us_since = since, us_until = until\<rparr>)"

definition list_by_api_key ::
  "(usage_row list \<Rightarrow> usage_row list) \<Rightarrow> database \<Rightarrow> uuid \<Rightarrow> datetime option \<Rightarrow> datetime option
   \<Rightarrow> nat \<Rightarrow> nat \<Rightarrow> usage_record list result" where
  "list_by_api_key order_created_desc db api_key_id since until limit offset =
     map_result usage_to_domain
       (take limit (drop offset (order_created_desc (caller_rows db api_key_id since until))))"

record usage_by_model =
  um_provider :: provider_enum
  um_model :: string
  um_total_requests :: int
  um_total_tokens_in :: int
  um_total_tokens_out :: int
  um_total_cost :: decimal

record usage_group =
  ug_provider :: string
  ug_model :: string
  ug_requests :: int
  ug_tokens_in :: int
  ug_tokens_out :: int
  ug_cost :: decimal

text \<open>\<open>GROUP BY provider, model\<close> with the aggregates.\<close>

definition group_of :: "usage_row list \<Rightarrow> string \<times> string \<Rightarrow> usage_group" where
  "group_of rows pm =
     (let g = filter (\<lambda>r. (uw_provider r, uw_model r) = pm) rows
      in \<lparr>ug_provider = fst pm, ug_model = snd pm, ug_requests = int (length g),
          ug_tokens_in = sum_list (map uw_token_in g), ug_tokens_out = sum_list (map uw_token_out g),
          ug_cost = sum_list (map uw_cost g)\<rparr>)"

definition group_by_model :: "usage_row list \<Rightarrow> usage_group list" where
  "group_by_model rows = map (group_of rows) (remdups (map (\<lambda>r. (uw_provider r, uw_model r)) rows))"

definition group_to_domain :: "usage_group \<Rightarrow> usage_by_model result" where
  "group_to_domain g = (case provider_enum_of (ug_provider g) of Inl e \<Rightarrow> Inl e
     | Inr p \<Rightarrow> Inr \<lparr>um_provider = p, um_model = ug_model g, um_total_requests = ug_requests g,
         um_total_tokens_in = ug_tokens_in g, um_total_tokens_out = ug_tokens_out g,
         um_total_cost = ug_cost g\<rparr>)"

definition usage_by_model_of ::
  "(usage_group list \<Rightarrow> usage_group list) \<Rightarrow> database \<Rightarrow> uuid \<Rightarrow> datetime option \<Rightarrow> datetime option
   \<Rightarrow> usage_by_model list result" where
  "usage_by_model_of order_cost_desc db api_key_id since until =
     map_result group_to_domain (order_cost_desc (group_by_model (caller_rows db api_key_id since until)))"

text \<open>\<open>UsageService\<close> hands every query to its repository.\<close>

definition usage_summary_of :: "database \<Rightarrow> uuid \<Rightarrow> datetime option \<Rightarrow> datetime option \<Rightarrow> usage_summary" where
  "usage_summary_of db api_key_id since until = summary_by_api_key db api_key_id since until"

definition usage_records_of ::
  "(usage_row list \<Rightarrow> usage_row list) \<Rightarrow> database \<Rightarrow> uuid \<Rightarrow> datetime option \<Rightarrow> datetime option
   \<Rightarrow> nat \<Rightarrow> nat \<Rightarrow> usage_record list result" where
  "usage_records_of order_created_desc db api_key_id since until limit offset =
     list_by_api_key order_created_desc db api_key_id since until limit offset"

definition usage_models_of ::
  "(usage_group list \<Rightarrow> usage_group list) \<Rightarrow> database \<Rightarrow> uuid \<Rightarrow> datetime option \<Rightarrow> datetime option
   \<Rightarrow> usage_by_model list result" where
  "usage_models_of order_cost_desc db api_key_id since until =
     usage_by_model_of order_cost_desc db api_key_id since until"

subsection \<open>Pricing rows\<close>

definition load_pricing_rates :: "database \<Rightarrow> pricing_rate list result" where
  "load_pricing_rates db = map_result (\<lambda>row. case provider_enum_of (pw_provider row) of Inl e \<Rightarrow> Inl e
     | Inr p \<Rightarrow> pricing_rate_create p (pw_model row) (pw_price_per_1k_input_tokens row)
         (pw_price_per_1k_output_tokens row) (pw_effective_from row)) (db_pricing db)"

subsection \<open>Api keys\<close>

text \<open>\<open>id\<close> is the primary key and \<open>key_hash\<close> is unique.\<close>

definition api_key_insert :: "api_key \<Rightarrow> database \<Rightarrow> unit result \<times> database" where
  "api_key_insert k db =
     (if ak_id k \<in> ak_id ` set (db_api_keys db) \<or> ak_key_hash k \<in> ak_key_hash ` set (db_api_keys db)
      then (Inl integrity_error, db)
      else (Inr (), db\<lparr>db_api_keys := db_api_keys db @ [k]\<rparr>))"

definition api_key_list_all :: "(api_key list \<Rightarrow> api_key list) \<Rightarrow> database \<Rightarrow> api_key list" where
  "api_key_list_all order_created_desc db = order_created_desc (db_api_keys db)"

definition deactivate :: "uuid \<Rightarrow> api_key \<Rightarrow> api_key" where
  "deactivate i k = (if ak_id k = i then k\<lparr>ak_is_active := False\<rparr> else k)"

definition api_key_revoke :: "uuid \<Rightarrow> database \<Rightarrow> api_key option \<times> database" where
  "api_key_revoke i db =
     (case find (\<lambda>k. ak_id k = i) (db_api_keys db) of
        None \<Rightarrow> (None, db)
      | Some k \<Rightarrow> (Some (deactivate i k), db\<lparr>db_api_keys := map (deactivate i) (db_api_keys db)\<rparr>))"

text \<open>
  \<open>generate_api_key\<close> and \<open>hash_api_key\<close>: \<open>random\<close> is what \<open>secrets.token_urlsafe(32)\<close>
  returned, \<open>digest\<close> the SHA-256 hex digest.
\<close>

definition generate_api_key :: "string \<Rightarrow> string" where
  "generate_api_key random = ''rlx_'' @ random"

definition create_api_key ::
  "(string \<Rightarrow> string) \<Rightarrow> string \<Rightarrow> uuid \<Rightarrow> datetime \<Rightarrow> string \<Rightarrow> int option \<Rightarrow> int option \<Rightarrow> database
   \<Rightarrow> (api_key \<times> string) result \<times> database" where
  "create_api_key digest random fresh_id now name rate_limit_rpm monthly_token_quota db =
     (let token = generate_api_key random in
      case api_key_create fresh_id now (digest token) name rate_limit_rpm monthly_token_quota of
        Inl e \<Rightarrow> (Inl e, db)
      | Inr k \<Rightarrow> (case api_key_insert k db of
          (Inl e, db') \<Rightarrow> (Inl e, db') | (Inr u, db') \<Rightarrow> (Inr (k, token), db')))"

definition revoke_api_key :: "uuid \<Rightarrow> database \<Rightarrow> api_key result \<times> database" where
  "revoke_api_key i db = (case api_key_revoke i db of
       (None, db') \<Rightarrow> (Inl ApiKeyNotFound, db') | (Some k, db') \<Rightarrow> (Inr k, db'))"

subsection \<open>The transaction of a request\<close>

text \<open>
  The session of a request over the shared database: \<open>ss_db\<close> is what is committed,
  \<open>ss_usage\<close> has the rows this transaction has flushed (\<open>UsageRepo.save\<close>).
\<close>

record session =
  ss_db :: database
  ss_usage :: "usage_row list"

definition session_save :: "usage_record \<Rightarrow> session \<Rightarrow> unit result \<times> session" where
  "session_save r s =
     (if ur_api_key_id r \<in> ak_id ` set (db_api_keys (ss_db s))
      then (Inr (), s\<lparr>ss_usage := ss_usage s @ [usage_row_of r]\<rparr>)
      else (Inl integrity_error, s))"

definition session_commit :: "session \<Rightarrow> session" where
  "session_commit s = \<lparr>ss_db = (ss_db s)\<lparr>db_usage := db_usage (ss_db s) @ ss_usage s\<rparr>, ss_usage = []\<rparr>"

definition session_rollback :: "session \<Rightarrow> session" where
  "session_rollback s = s\<lparr>ss_usage := []\<rparr>"

text \<open>
  \<open>get_session\<close> after its \<open>yield\<close>: what the request flushed is committed when it ended
  well and dropped when it raised (rolled back for an \<open>Exception\<close>, closed for a
  cancellation). What a commit does, failing included, is up to the argument.
\<close>

definition close_session :: "('w \<Rightarrow> 'w) \<Rightarrow> ('w \<Rightarrow> 'w) \<Rightarrow> exn option \<Rightarrow> 'w \<Rightarrow> 'w" where
  "close_session commit rollback failure w = (case failure of None \<Rightarrow> commit w | Some e \<Rightarrow> rollback w)"

subsection \<open>Lemmas on usage records\<close>

lemma provider_enum_of_value [simp]: "provider_enum_of (provider_value p) = Inr p"
  by (simp add: provider_enum_of_def)

lemma usage_roundtrip [simp]: "usage_to_domain (usage_row_of r) = Inr r"
  by (simp add: usage_to_domain_def usage_row_of_def)

lemma map_result_InrD: "map_result f xs = Inr ys \<Longrightarrow> map f xs = map Inr ys"
  by (induction xs arbitrary: ys) (auto split: sum.splits)

lemma map_result_total: "(\<And>x. x \<in> set xs \<Longrightarrow> f x = Inr (g x)) \<Longrightarrow> map_result f xs = Inr (map g xs)"
  by (induction xs) simp_all

text \<open>The usage stored, as the domain sees it.\<close>

definition rows_stored :: "usage_row list \<Rightarrow> usage_record list" where
  "rows_stored rows = concat (map (\<lambda>row. case usage_to_domain row of Inl e \<Rightarrow> [] | Inr r \<Rightarrow> [r]) rows)"

definition usage_stored :: "database \<Rightarrow> usage_record list" where
  "usage_stored db = rows_stored (db_usage db)"

interpretation ledger: usage_sink usage_save usage_stored
proof unfold_locales
  fix r db db' e
  show "usage_save r db = (Inr (), db') \<Longrightarrow> usage_stored db' = usage_stored db @ [r]"
    by (auto simp: usage_save_def usage_stored_def rows_stored_def split: if_splits)
  show "usage_save r db = (Inl e, db') \<Longrightarrow> usage_stored db' = usage_stored db"
    by (auto simp: usage_save_def split: if_splits)
qed

text \<open>A session, read as its committed and its flushed rows.\<close>

definition session_stored :: "session \<Rightarrow> usage_record list" where
  "session_stored s = rows_stored (db_usage (ss_db s) @ ss_usage s)"

interpretation session_sink: usage_sink session_save session_stored
proof unfold_locales
  fix r s s' e
  show "session_save r s = (Inr (), s') \<Longrightarrow> session_stored s' = session_stored s @ [r]"
    by (auto simp: session_save_def session_stored_def rows_stored_def split: if_splits)
  show "session_save r s = (Inl e, s') \<Longrightarrow> session_stored s' = session_stored s"
    by (auto simp: session_save_def split: if_splits)
qed

lemma session_save_errors: "session_save r s = (Inl e, s') \<Longrightarrow> \<not> is_AppError e"
  by (auto simp: session_save_def integrity_error_def is_AppError_def split: if_splits)

lemma session_commit_stored [simp]:
  "usage_stored (ss_db (session_commit s)) = session_stored s" "ss_usage (session_commit s) = []"
  "session_stored (session_commit s) = session_stored s"
  by (simp_all add: session_commit_def session_stored_def usage_stored_def rows_stored_def)

lemma session_rollback_stored [simp]:
  "ss_db (session_rollback s) = ss_db s" "ss_usage (session_rollback s) = []"
  by (simp_all add: session_rollback_def)

lemma usage_save_errors: "usage_save r db = (Inl e, db') \<Longrightarrow> \<not> is_AppError e"
  by (auto simp: usage_save_def integrity_error_def is_AppError_def split: if_splits)

lemma caller_rows_set:
  "r \<in> set (caller_rows db k since until) \<longleftrightarrow> r \<in> set (db_usage db) \<and> uw_api_key_id r = k \<and>
     (case since of None \<Rightarrow> True | Some t \<Rightarrow> t \<le> uw_created_at r) \<and>
     (case until of None \<Rightarrow> True | Some t \<Rightarrow> uw_created_at r \<le> t)"
  by (auto simp: caller_rows_def apply_window_def Let_def split: option.splits)

subsection \<open>\<open>ORDER BY ... DESC\<close>\<close>

locale sql_order =
  fixes order_by :: "'a list \<Rightarrow> 'a list"
    and key :: "'a \<Rightarrow> 'k::linorder"
  assumes perm: "mset (order_by xs) = mset xs"
    and desc: "sorted_wrt (\<lambda>x y. key y \<le> key x) (order_by xs)"
begin

lemma order_length: "length (order_by xs) = length xs"
  using perm by (metis size_mset)

lemma order_set: "set (order_by xs) = set xs"
  using perm by (metis set_mset_mset)

lemma order_sum: "sum_list (map f (order_by xs)) = sum_list (map f xs)" for f :: "'a \<Rightarrow> 'c::comm_monoid_add"
  using perm [of xs] by (metis mset_map sum_mset_sum_list)

lemma order_distinct: "distinct (map f (order_by xs)) \<longleftrightarrow> distinct (map f xs)"
  using perm [of xs] by (metis mset_map mset_eq_imp_distinct_iff)

end

text \<open>The stable sort is one such ordering.\<close>

lemma py_sorted_descending: "sorted_wrt (\<lambda>x y. f y \<le> f x) (py_sorted f True xs)"
  using py_sorted_desc [of f xs] by (simp add: sorted_wrt_rev sorted_wrt_map flip: rev_map)

interpretation newest_first: sql_order "py_sorted uw_created_at True" uw_created_at
  by unfold_locales (simp_all add: py_sorted_descending)

interpretation costliest_first: sql_order "py_sorted ug_cost True" ug_cost
  by unfold_locales (simp_all add: py_sorted_descending)

text \<open>Consecutive pages, glued together, are the list.\<close>

lemma pages_concat:
  "length xs \<le> n * limit \<Longrightarrow> concat (map (\<lambda>p. take limit (drop (p * limit) xs)) [0..<n]) = xs"
proof (induction n arbitrary: xs)
  case (Suc n)
  have "map (\<lambda>p. take limit (drop (p * limit) xs)) [0..<Suc n] =
      take limit xs # map (\<lambda>p. take limit (drop (p * limit) (drop limit xs))) [0..<n]"
    by (simp add: upt_conv_Cons map_Suc_upt [symmetric] add.commute comp_def del: upt_Suc)
  moreover have "length (drop limit xs) \<le> n * limit" using Suc(2) by simp
  ultimately show ?case using Suc(1) [of "drop limit xs"] by simp
qed simp

subsection \<open>Totals\<close>

lemma sum_by_group:
  fixes f :: "'a \<Rightarrow> 'c::comm_monoid_add"
  assumes "distinct ks" and "\<forall>x \<in> set xs. g x \<in> set ks"
  shows "sum_list (map (\<lambda>k. sum_list (map f (filter (\<lambda>x. g x = k) xs))) ks) = sum_list (map f xs)"
  using assms(2)
proof (induction xs)
  case (Cons x xs)
  have "sum_list (map (\<lambda>k. sum_list (map f (filter (\<lambda>y. g y = k) (x # xs)))) ks) =
      sum_list (map (\<lambda>k. (if g x = k then f x else 0) + sum_list (map f (filter (\<lambda>y. g y = k) xs))) ks)"
    by (rule arg_cong [where f = sum_list]) auto
  also have "\<dots> = sum_list (map (\<lambda>k. if g x = k then f x else 0) ks)
      + sum_list (map (\<lambda>k. sum_list (map f (filter (\<lambda>y. g y = k) xs))) ks)"
    by (simp add: sum_list_addf)
  also have "sum_list (map (\<lambda>k. if g x = k then f x else 0) ks) = f x"
    using assms(1) Cons(2) by (simp add: sum_list_distinct_conv_sum_set sum.delta')
  finally show ?case using Cons by simp
qed simp

lemma group_by_model_sums:
  "sum_list (map ug_requests (group_by_model rows)) = int (length rows)"
  "sum_list (map ug_tokens_in (group_by_model rows)) = sum_list (map uw_token_in rows)"
  "sum_list (map ug_tokens_out (group_by_model rows)) = sum_list (map uw_token_out rows)"
  "sum_list (map ug_cost (group_by_model rows)) = sum_list (map uw_cost rows)"
proof -
  let ?g = "\<lambda>r. (uw_provider r, uw_model r)"
  have s: "sum_list (map (\<lambda>k. sum_list (map f (filter (\<lambda>x. ?g x = k) rows))) (remdups (map ?g rows))) =
      sum_list (map f rows)" for f :: "usage_row \<Rightarrow> 'c::comm_monoid_add"
    by (rule sum_by_group) auto
  have l: "int (length xs) = sum_list (map (\<lambda>_. 1) xs)" for xs :: "usage_row list"
    by (induction xs) simp_all
  show "sum_list (map ug_requests (group_by_model rows)) = int (length rows)"
    using s [of "\<lambda>_. 1 :: int"] by (simp add: group_by_model_def group_of_def Let_def comp_def l)
  show "sum_list (map ug_tokens_in (group_by_model rows)) = sum_list (map uw_token_in rows)"
    "sum_list (map ug_tokens_out (group_by_model rows)) = sum_list (map uw_token_out rows)"
    "sum_list (map ug_cost (group_by_model rows)) = sum_list (map uw_cost rows)"
    using s [of uw_token_in] s [of uw_token_out] s [of uw_cost]
    by (simp_all add: group_by_model_def group_of_def Let_def comp_def)
qed

lemma group_by_model_keys:
  "map (\<lambda>g. (ug_provider g, ug_model g)) (group_by_model rows) =
     remdups (map (\<lambda>r. (uw_provider r, uw_model r)) rows)"
  by (simp add: group_by_model_def group_of_def Let_def comp_def)

lemma group_to_domain_Inr:
  "group_to_domain g = Inr e \<Longrightarrow> um_total_requests e = ug_requests g \<and> um_total_tokens_in e = ug_tokens_in g \<and>
     um_total_tokens_out e = ug_tokens_out g \<and> um_total_cost e = ug_cost g \<and> um_model e = ug_model g \<and>
     provider_value (um_provider e) = ug_provider g"
  by (auto simp: group_to_domain_def provider_enum_of_def provider_of_value_Some split: sum.splits option.splits)

lemma map_Inr_fields:
  assumes "map group_to_domain gs = map Inr es"
  shows "map um_total_requests es = map ug_requests gs" "map um_total_tokens_in es = map ug_tokens_in gs"
    "map um_total_tokens_out es = map ug_tokens_out gs" "map um_total_cost es = map ug_cost gs"
    "map (\<lambda>e. (provider_value (um_provider e), um_model e)) es = map (\<lambda>g. (ug_provider g, ug_model g)) gs"
  using assms
proof (induction gs arbitrary: es)
  case (Cons g gs)
  {
    case 1 then show ?case using Cons(1) group_to_domain_Inr by (cases es) auto
  next
    case 2 then show ?case using Cons(2) group_to_domain_Inr by (cases es) auto
  next
    case 3 then show ?case using Cons(3) group_to_domain_Inr by (cases es) auto
  next
    case 4 then show ?case using Cons(4) group_to_domain_Inr by (cases es) auto
  next
    case 5 then show ?case using Cons(5) group_to_domain_Inr by (cases es) auto
  }
qed simp_all

subsection \<open>Lemmas on api keys\<close>

text \<open>Ids and hashes are unique.\<close>

definition keys_wf :: "database \<Rightarrow> bool" where
  "keys_wf db \<longleftrightarrow> distinct (map ak_id (db_api_keys db)) \<and> distinct (map ak_key_hash (db_api_keys db))"

lemma deactivate_fields [simp]:
  "ak_id (deactivate i k) = ak_id k" "ak_key_hash (deactivate i k) = ak_key_hash k"
  "ak_is_active (deactivate i k) \<longleftrightarrow> ak_is_active k \<and> ak_id k \<noteq> i"
  by (simp_all add: deactivate_def)

lemma api_key_insert_wf: "keys_wf db \<Longrightarrow> keys_wf (snd (api_key_insert k db))"
  by (auto simp: keys_wf_def api_key_insert_def)

lemma api_key_revoke_wf: "keys_wf db \<Longrightarrow> keys_wf (snd (api_key_revoke i db))"
  by (auto simp: keys_wf_def api_key_revoke_def comp_def split: option.splits)

text \<open>Creating a key: a fresh hash leads to the new row, and no other lookup changes.\<close>

lemma create_api_key_Inr:
  assumes "create_api_key digest random i now name rl q db = (Inr (k, token), db')"
  shows "token = generate_api_key random" "ak_key_hash k = digest token" "ak_id k = i" "ak_is_active k"
    "api_key_insert k db = (Inr (), db')" "db_api_keys db' = db_api_keys db @ [k]"
    "ak_key_hash k \<notin> ak_key_hash ` set (db_api_keys db)" "i \<notin> ak_id ` set (db_api_keys db)"
proof -
  show t: "token = generate_api_key random"
    using assms by (auto simp: create_api_key_def Let_def split: sum.splits prod.splits)
  have c: "api_key_create i now (digest token) name rl q = Inr k" and ins: "api_key_insert k db = (Inr (), db')"
    using assms by (auto simp: create_api_key_def Let_def split: sum.splits prod.splits)
  from ins show "api_key_insert k db = (Inr (), db')" .
  show "ak_key_hash k = digest token" and id: "ak_id k = i" and "ak_is_active k" using c by (auto simp: api_key_create_Inr)
  show "db_api_keys db' = db_api_keys db @ [k]" and "ak_key_hash k \<notin> ak_key_hash ` set (db_api_keys db)"
    and "i \<notin> ak_id ` set (db_api_keys db)"
    using ins id by (auto simp: api_key_insert_def split: if_splits)
qed

lemma create_api_key_wf:
  assumes "create_api_key digest random i now name rl q db = (Inr (k, token), db')"
  shows "api_key_wf k"
  using assms by (auto simp: create_api_key_def Let_def api_key_create_Inr split: sum.splits prod.splits)

lemma create_api_key_Inl: "create_api_key digest random i now name rl q db = (Inl e, db') \<Longrightarrow> db' = db"
  by (auto simp: create_api_key_def api_key_insert_def Let_def split: sum.splits prod.splits if_splits)

subsection \<open>The database over time\<close>

text \<open>
  What the program does to its tables: keys are created and revoked, and the recorder's
  records (built by \<open>UsageRecord.create\<close>) are saved. Each failed call leaves the tables
  as they were, so only what succeeds is a step.
\<close>

inductive db_step :: "database \<Rightarrow> database \<Rightarrow> bool" where
  creates: "create_api_key digest random i now name rl q db = (Inr (k, token), db') \<Longrightarrow> db_step db db'"
| revokes: "revoke_api_key i db = (r, db') \<Longrightarrow> db_step db db'"
| records: "usage_record_create now k p m ti to c f rid = Inr r \<Longrightarrow> usage_save r db = (Inr (), db') \<Longrightarrow> db_step db db'"

inductive_cases db_stepE: "db_step db db'"

definition row_wf :: "api_key list \<Rightarrow> usage_row \<Rightarrow> bool" where
  "row_wf ks row \<longleftrightarrow> uw_api_key_id row \<in> ak_id ` set ks \<and> (\<exists>r. usage_to_domain row = Inr r \<and> usage_record_wf r)"

definition db_wf :: "database \<Rightarrow> bool" where
  "db_wf db \<longleftrightarrow> keys_wf db \<and> (\<forall>k \<in> set (db_api_keys db). api_key_wf k) \<and>
     (\<forall>row \<in> set (db_usage db). row_wf (db_api_keys db) row)"

lemma deactivate_wf: "api_key_wf k \<Longrightarrow> api_key_wf (deactivate i k)"
  by (simp add: api_key_wf_def deactivate_def)

lemma deactivate_ids: "ak_id ` deactivate i ` set ks = ak_id ` set ks"
  by (simp add: image_image)

lemma revoke_api_key_db:
  assumes "revoke_api_key i db = (r, db')"
  shows "db' = db \<or> db' = db\<lparr>db_api_keys := map (deactivate i) (db_api_keys db)\<rparr>" "keys_wf db \<Longrightarrow> keys_wf db'"
  using assms api_key_revoke_wf [of db i]
  by (auto simp: revoke_api_key_def api_key_revoke_def split: option.splits prod.splits)

lemma db_step_wf: "db_step db db' \<Longrightarrow> db_wf db \<Longrightarrow> db_wf db'"
proof (induction rule: db_step.induct)
  case (creates digest random i now name rl q db k token db')
  note c = create_api_key_Inr [OF creates(1)]
  have "db_usage db' = db_usage db" using c(5) by (auto simp: api_key_insert_def split: if_splits)
  moreover have "keys_wf db'" using api_key_insert_wf [of db k] c(5) creates(2) by (simp add: db_wf_def)
  ultimately show ?case
    using creates(2) c(6) create_api_key_wf [OF creates(1)] by (auto simp: db_wf_def row_wf_def)
next
  case (revokes i db r db')
  from revoke_api_key_db [OF revokes(1)] show ?case
  proof (elim disjE)
    assume "db' = db\<lparr>db_api_keys := map (deactivate i) (db_api_keys db)\<rparr>"
    with revokes(2) revoke_api_key_db(2) [OF revokes(1)] show ?thesis
      by (auto simp: db_wf_def row_wf_def deactivate_wf deactivate_ids)
  qed (use revokes in simp)
next
  case (records now k p m ti to c f rid r db db')
  have "usage_record_wf r" using records(1) unfolding usage_record_create_Inr by blast
  moreover have "db' = db\<lparr>db_usage := db_usage db @ [usage_row_of r]\<rparr>" "ur_api_key_id r \<in> ak_id ` set (db_api_keys db)"
    using records(2) by (auto simp: usage_save_def split: if_splits)
  ultimately show ?case using records(3)
    by (auto simp: db_wf_def keys_wf_def row_wf_def) (auto simp: usage_row_of_def)
qed

lemma db_steps_wf: "db_step\<^sup>*\<^sup>* db db' \<Longrightarrow> db_wf db \<Longrightarrow> db_wf db'"
  by (induction rule: rtranclp_induct) (auto intro: db_step_wf)

lemma row_wf_provider: "row_wf ks row \<Longrightarrow> \<exists>p. provider_enum_of (uw_provider row) = Inr p"
  by (auto simp: row_wf_def usage_to_domain_def split: sum.splits)

lemma row_wf_amounts: "row_wf ks row \<Longrightarrow> 0 \<le> uw_token_in row \<and> 0 \<le> uw_token_out row \<and> 0 \<le> uw_cost row"
  by (auto simp: row_wf_def usage_to_domain_def usage_record_wf_def split: sum.splits)

lemma map_result_Inr: "(\<And>x. x \<in> set xs \<Longrightarrow> \<exists>y. f x = Inr y) \<Longrightarrow> \<exists>ys. map_result f xs = Inr ys"
proof (induction xs)
  case (Cons x xs)
  then obtain y where "f x = Inr y" by auto
  with Cons show ?case by fastforce
qed simp

subsection \<open>Correctness properties\<close>

text \<open>
  C23. The two usage reports agree: for every caller and every window, with any ordering the
  database uses for equal costs, the per-model report lists each provider and model once,
  costliest first, and its requests, tokens and costs add up exactly to the summary.
\<close>

theorem usage_reports_agree:
  assumes "sql_order order_cost ug_cost"
    and "usage_by_model_of order_cost db k since until = Inr entries"
  shows "int (length (caller_rows db k since until)) = sum_list (map um_total_requests entries) \<and>
    us_total_requests (summary_by_api_key db k since until) = sum_list (map um_total_requests entries) \<and>
    us_total_tokens_in (summary_by_api_key db k since until) = sum_list (map um_total_tokens_in entries) \<and>
    us_total_tokens_out (summary_by_api_key db k since until) = sum_list (map um_total_tokens_out entries) \<and>
    us_total_cost (summary_by_api_key db k since until) = sum_list (map um_total_cost entries) \<and>
    sorted_wrt (\<lambda>a b. um_total_cost b \<le> um_total_cost a) entries \<and>
    distinct (map (\<lambda>e. (um_provider e, um_model e)) entries)"
proof -
  let ?gs = "order_cost (group_by_model (caller_rows db k since until))"
  have m: "map group_to_domain ?gs = map Inr entries"
    using assms(2) by (simp add: usage_by_model_of_def map_result_InrD)
  note f = map_Inr_fields [OF m]
  note sums = group_by_model_sums [of "caller_rows db k since until"]
  have "distinct (map (\<lambda>e. (provider_value (um_provider e), um_model e)) entries)"
    unfolding f(5) sql_order.order_distinct [OF assms(1)] group_by_model_keys by simp
  then have "distinct (map (\<lambda>e. (um_provider e, um_model e)) entries)"
    by (auto simp: distinct_map inj_on_def)
  moreover have "sorted_wrt (\<lambda>a b. b \<le> a) (map um_total_cost entries)"
    unfolding f(4) sorted_wrt_map by (rule sql_order.desc [OF assms(1)])
  then have "sorted_wrt (\<lambda>a b. um_total_cost b \<le> um_total_cost a) entries" by (simp add: sorted_wrt_map)
  ultimately show ?thesis
    using sums unfolding f(1-4) sql_order.order_sum [OF assms(1)]
    by (simp add: summary_by_api_key_def Let_def)
qed


text \<open>
  C25. The database stays well typed. From empty tables, whatever sequence of key creations,
  revocations and recordings happened: ids and hashes are unique, every key and every record
  satisfies the constraints of its constructor, every record belongs to an existing key. So the
  reports of every caller over every window never fail, count and add up to something
  non-negative, and a caller with a revoked key keeps its records.
\<close>

theorem ledger_well_typed:
  assumes "db_step\<^sup>*\<^sup>* \<lparr>db_api_keys = [], db_usage = [], db_pricing = []\<rparr> db"
    and "sql_order order_cost ug_cost" and "sql_order order_created uw_created_at"
  shows "db_wf db \<and>
    (\<exists>entries. usage_by_model_of order_cost db k since until = Inr entries) \<and>
    (\<exists>page. list_by_api_key order_created db k since until limit offset = Inr page \<and> list_all usage_record_wf page) \<and>
    0 \<le> us_total_tokens_in (summary_by_api_key db k since until) \<and>
    0 \<le> us_total_tokens_out (summary_by_api_key db k since until) \<and>
    0 \<le> us_total_cost (summary_by_api_key db k since until)"
proof -
  have wf: "db_wf db" using db_steps_wf [OF assms(1)] by (simp add: db_wf_def keys_wf_def)
  let ?rows = "caller_rows db k since until"
  have rows: "row_wf (db_api_keys db) row" if "row \<in> set ?rows" for row
    using that wf by (auto simp: caller_rows_set db_wf_def)
  have "\<exists>y. group_to_domain g = Inr y" if "g \<in> set (order_cost (group_by_model ?rows))" for g
  proof -
    from that obtain row where "row \<in> set ?rows" "ug_provider g = uw_provider row"
      by (auto simp: sql_order.order_set [OF assms(2)] group_by_model_def group_of_def Let_def)
    with row_wf_provider [OF rows] obtain p where "provider_enum_of (ug_provider g) = Inr p" by metis
    then show ?thesis by (simp add: group_to_domain_def)
  qed
  then have "\<exists>entries. usage_by_model_of order_cost db k since until = Inr entries"
    unfolding usage_by_model_of_def by (rule map_result_Inr)
  moreover have page: "\<exists>r. usage_to_domain row = Inr r \<and> usage_record_wf r"
    if "row \<in> set (take limit (drop offset (order_created ?rows)))" for row
    using rows [of row] in_set_takeD [OF that] in_set_dropD
    by (fastforce simp: sql_order.order_set [OF assms(3)] row_wf_def)
  then obtain page where p: "list_by_api_key order_created db k since until limit offset = Inr page"
    unfolding list_by_api_key_def using map_result_Inr [of "take limit (drop offset (order_created ?rows))" usage_to_domain]
    by blast
  moreover have "list_all usage_record_wf page"
  proof -
    have "map usage_to_domain (take limit (drop offset (order_created ?rows))) = map Inr page"
      using p unfolding list_by_api_key_def by (rule map_result_InrD)
    then have "Inr r \<in> usage_to_domain ` set (take limit (drop offset (order_created ?rows)))" if "r \<in> set page" for r
      using that by (metis image_eqI list.set_map)
    then show ?thesis using page by (fastforce simp: list_all_iff)
  qed
  ultimately show ?thesis
    using wf rows by (auto simp: summary_by_api_key_def Let_def intro!: sum_list_nonneg dest!: row_wf_amounts [OF rows])
qed

subsection \<open>Instances\<close>

definition sample_usage :: "usage_record list" where
  "sample_usage =
     [\<lparr>ur_api_key_id = 7, ur_provider = OPENAI, ur_model = ''gpt-4o'', ur_tokens_in = 10, ur_tokens_out = 5,
       ur_cost = 2, ur_finish_reason = ''stop'', ur_request_id = ''a'', ur_created_at = 1\<rparr>,
      \<lparr>ur_api_key_id = 8, ur_provider = OPENAI, ur_model = ''gpt-4o'', ur_tokens_in = 1, ur_tokens_out = 1,
       ur_cost = 1, ur_finish_reason = ''stop'', ur_request_id = ''b'', ur_created_at = 2\<rparr>,
      \<lparr>ur_api_key_id = 7, ur_provider = ANTHROPIC, ur_model = ''claude-sonnet-5'', ur_tokens_in = 20,
       ur_tokens_out = 7, ur_cost = 3, ur_finish_reason = ''stop'', ur_request_id = ''c'', ur_created_at = 3\<rparr>]"

definition sample_db :: database where
  "sample_db = \<lparr>db_api_keys = [], db_usage = map usage_row_of sample_usage, db_pricing = []\<rparr>"

theorem usage_reports_agree_witness:
  "\<exists>entries. usage_by_model_of (py_sorted ug_cost True) sample_db 7 None None = Inr entries \<and>
     map um_model entries = [''claude-sonnet-5'', ''gpt-4o''] \<and>
     us_total_cost (summary_by_api_key sample_db 7 None None) = sum_list (map um_total_cost entries)"
proof -
  let ?entries = "[\<lparr>um_provider = ANTHROPIC, um_model = ''claude-sonnet-5'', um_total_requests = 1,
      um_total_tokens_in = 20, um_total_tokens_out = 7, um_total_cost = 3\<rparr>,
    \<lparr>um_provider = OPENAI, um_model = ''gpt-4o'', um_total_requests = 1,
      um_total_tokens_in = 10, um_total_tokens_out = 5, um_total_cost = 2\<rparr>]"
  have e: "usage_by_model_of (py_sorted ug_cost True) sample_db 7 None None = Inr ?entries"
    by (simp add: usage_by_model_of_def caller_rows_def apply_window_def sample_db_def sample_usage_def
        usage_row_of_def group_by_model_def group_of_def py_sorted_def group_to_domain_def provider_enum_of_def
        provider_of_value_def)
  from usage_reports_agree [OF costliest_first.sql_order_axioms e] e show ?thesis by (intro exI [of _ ?entries]) simp
qed


lemma sample_history:
  "\<exists>db. db_step\<^sup>*\<^sup>* \<lparr>db_api_keys = [], db_usage = [], db_pricing = []\<rparr> db \<and>
     db_usage db = [usage_row_of (sample_usage ! 0)]"
proof -
  let ?db0 = "\<lparr>db_api_keys = [], db_usage = [], db_pricing = []\<rparr>"
  obtain k db1 where c: "create_api_key rev ''abc'' 7 0 ''team'' None None ?db0 = (Inr (k, ''rlx_abc''), db1)"
    by (simp add: create_api_key_def generate_api_key_def api_key_create_def api_key_insert_def py_strip_def py_space_def)
  note cr = create_api_key_Inr [OF c]
  have "usage_record_create 1 7 OPENAI ''gpt-4o'' 10 5 2 ''stop'' ''a'' = Inr (sample_usage ! 0)"
    by (simp add: usage_record_create_def sample_usage_def VALID_FINISH_REASONS_def)
  moreover have "usage_save (sample_usage ! 0) db1 = (Inr (), db1\<lparr>db_usage := db_usage db1 @ [usage_row_of (sample_usage ! 0)]\<rparr>)"
    using cr(3,6) by (simp add: usage_save_def sample_usage_def)
  ultimately have "db_step db1 (db1\<lparr>db_usage := db_usage db1 @ [usage_row_of (sample_usage ! 0)]\<rparr>)"
    by (rule db_step.records)
  moreover have "db_step ?db0 db1" using c by (rule db_step.creates)
  moreover have "db_usage db1 = []" using cr(5) by (auto simp: api_key_insert_def)
  ultimately show ?thesis
    by (intro exI [of _ "db1\<lparr>db_usage := db_usage db1 @ [usage_row_of (sample_usage ! 0)]\<rparr>"])
      (auto intro: rtranclp.rtrancl_into_rtrancl)
qed

theorem ledger_well_typed_witness:
  "\<exists>db entries. db_usage db = [usage_row_of (sample_usage ! 0)] \<and> db_wf db \<and>
     usage_by_model_of (py_sorted ug_cost True) db 7 None None = Inr entries"
proof -
  obtain db where db: "db_step\<^sup>*\<^sup>* \<lparr>db_api_keys = [], db_usage = [], db_pricing = []\<rparr> db"
    "db_usage db = [usage_row_of (sample_usage ! 0)]" using sample_history by blast
  from ledger_well_typed [OF db(1) costliest_first.sql_order_axioms newest_first.sql_order_axioms] db(2)
  show ?thesis by blast
qed

end
