(* ===== verification/Http_Api.thy ===== *)
theory Http_Api
  imports Rate_Limit Gateway Idempotency Ledger
begin

text \<open>
  The HTTP surface: the dependencies that authenticate and throttle a caller
  (\<open>app/api/deps.py\<close>), the transport schemas (\<open>app/api/v1/schemas\<close>), the endpoints
  (\<open>chat.py\<close>, \<open>usage.py\<close>, \<open>api_keys.py\<close>, \<open>health.py\<close> of \<open>app/api/v1\<close>) and the
  exception handlers of \<open>app/main.py\<close>. FastAPI resolves the dependencies of an endpoint
  before its body is checked and its handler runs; here that is the order of the cases. The
  JSON texts of the streamed frames are written out, because a client has to split the body
  into frames again; what pydantic dumps is a parameter.
\<close>

subsection \<open>Authentication\<close>

definition bearer_token :: "string option \<Rightarrow> string option" where
  "bearer_token authorization =
     (case authorization of None \<Rightarrow> None
      | Some a \<Rightarrow>
          (if a = [] \<or> \<not> py_startswith a ''Bearer '' then None
           else let token = py_strip (py_removeprefix a ''Bearer '')
                in if token = [] then None else Some token))"

text \<open>\<open>digest\<close> is \<open>hash_api_key\<close>, the SHA-256 hex digest of the token.\<close>

definition get_current_api_key ::
  "(string \<Rightarrow> string) \<Rightarrow> string option \<Rightarrow> database \<Rightarrow> api_key result" where
  "get_current_api_key digest authorization db =
     (case bearer_token authorization of
        None \<Rightarrow> Inl Unauthorized
      | Some token \<Rightarrow>
          (case find (\<lambda>k. ak_key_hash k = digest token \<and> ak_is_active k) (db_api_keys db) of
             None \<Rightarrow> Inl Unauthorized
           | Some k \<Rightarrow> Inr k))"

definition get_current_api_key_id ::
  "(string \<Rightarrow> string) \<Rightarrow> string option \<Rightarrow> database \<Rightarrow> uuid result" where
  "get_current_api_key_id digest authorization db =
     (case get_current_api_key digest authorization db of Inl e \<Rightarrow> Inl e | Inr k \<Rightarrow> Inr (ak_id k))"

text \<open>
  \<open>secrets.compare_digest\<close> on two strings: equality, and a \<open>TypeError\<close> when either has
  a character that is not ASCII.
\<close>

definition py_ascii :: "string \<Rightarrow> bool" where
  "py_ascii s = list_all (\<lambda>c. (of_char c :: nat) < 128) s"

definition compare_digest :: "string \<Rightarrow> string \<Rightarrow> bool result" where
  "compare_digest a b =
     (if py_ascii a \<and> py_ascii b then Inr (a = b)
      else Inl (TypeError [Lit ''comparing strings with non-ASCII characters is not supported'']))"

definition get_current_admin :: "settings \<Rightarrow> string option \<Rightarrow> unit result" where
  "get_current_admin config authorization =
     (case bearer_token authorization of
        None \<Rightarrow> Inl Unauthorized
      | Some token \<Rightarrow>
          (case compare_digest token (admin_api_token config) of
             Inl e \<Rightarrow> Inl e
           | Inr same \<Rightarrow> if same then Inr () else Inl Unauthorized))"

subsection \<open>Throttling\<close>

text \<open>\<open>rate_limit_rpm or default\<close>: a missing or zero limit falls back to the default.\<close>

definition effective_rpm :: "settings \<Rightarrow> api_key \<Rightarrow> int" where
  "effective_rpm config k = (case ak_rate_limit_rpm k of
       None \<Rightarrow> default_rate_limit_rpm config
     | Some r \<Rightarrow> if r = 0 then default_rate_limit_rpm config else r)"

definition enforce_rate_limit ::
  "settings \<Rightarrow> (uuid \<Rightarrow> int \<Rightarrow> 'w \<Rightarrow> unit result \<times> 'w) \<Rightarrow> api_key \<Rightarrow> 'w \<Rightarrow> unit result \<times> 'w" where
  "enforce_rate_limit config limiter k w = limiter (ak_id k) (effective_rpm config k) w"

subsection \<open>Chat schemas\<close>

record message_schema =
  ms_role :: string
  ms_content :: string

record chat_payload =
  cp_model :: string
  cp_messages :: "message_schema list"
  cp_max_tokens :: "int option"
  cp_failover_policy :: failover_policy
  cp_stream :: bool

text \<open>The field constraints of \<open>MessageSchema\<close> and \<open>ChatRequestSchema\<close>.\<close>

definition message_valid :: "message_schema \<Rightarrow> bool" where
  "message_valid m = (ms_role m \<in> {''system'', ''user'', ''assistant''} \<and> ms_content m \<noteq> [])"

definition chat_payload_valid :: "chat_payload \<Rightarrow> bool" where
  "chat_payload_valid p =
     (cp_model p \<noteq> [] \<and> cp_messages p \<noteq> [] \<and> list_all message_valid (cp_messages p) \<and>
      (case cp_max_tokens p of None \<Rightarrow> True | Some n \<Rightarrow> 0 < n))"

definition message_to_domain :: "message_schema \<Rightarrow> message" where
  "message_to_domain m = \<lparr>msg_role = ms_role m, msg_content = ms_content m\<rparr>"

definition chat_to_domain :: "chat_payload \<Rightarrow> chat_request" where
  "chat_to_domain p =
     \<lparr>req_model = cp_model p, req_messages = map message_to_domain (cp_messages p),
      req_max_tokens = cp_max_tokens p, req_failover_policy = cp_failover_policy p\<rparr>"

record chat_response_schema =
  cr_provider :: provider_enum
  cr_model :: string
  cr_content :: string
  cr_tokens_in :: int
  cr_tokens_out :: int
  cr_finish_reason :: string
  cr_request_id :: string

definition chat_from_domain :: "chat_response \<Rightarrow> chat_response_schema" where
  "chat_from_domain r =
     \<lparr>cr_provider = resp_provider r, cr_model = resp_model r, cr_content = resp_content r,
      cr_tokens_in = resp_tokens_in r, cr_tokens_out = resp_tokens_out r,
      cr_finish_reason = resp_finish_reason r, cr_request_id = resp_request_id r\<rparr>"

subsection \<open>Error bodies\<close>

text \<open>
  \<open>round(x, 3)\<close> rounds half to even. \<open>to_dict\<close> of a \<open>RateLimitExceeded\<close> adds the
  rounded waiting time.
\<close>

definition py_round3 :: "rat \<Rightarrow> rat" where
  "py_round3 x = (let y = x * 1000; n = \<lfloor>y\<rfloor>; d = y - of_int n in
     of_int (if d < 1 / 2 \<or> d = 1 / 2 \<and> even n then n else n + 1) / 1000)"

record error_body =
  eb_error_code :: string
  eb_message :: fstring
  eb_retry_after_s :: "pyfloat option"

fun retry_after_of :: "exn \<Rightarrow> pyfloat option" where
  "retry_after_of (RateLimitExceeded r) = Some r"
| "retry_after_of _ = None"

definition to_dict :: "exn \<Rightarrow> error_body option" where
  "to_dict e = (case app_error e of None \<Rightarrow> None
     | Some (m, st, code) \<Rightarrow> Some \<lparr>eb_error_code = code, eb_message = m,
         eb_retry_after_s = (case retry_after_of e of None \<Rightarrow> None
           | Some (Fin x) \<Rightarrow> Some (Fin (py_round3 x)) | Some r \<Rightarrow> Some r)\<rparr>)"

definition internal_error_body :: error_body where
  "internal_error_body = \<lparr>eb_error_code = ''INTERNAL_ERROR'',
     eb_message = [Lit ''Internal server error''], eb_retry_after_s = None\<rparr>"

subsection \<open>The exception handlers\<close>

record error_response =
  er_status :: int
  er_body :: error_body
  er_retry_after :: "int option"

definition handle_unexpected_error :: error_response where
  "handle_unexpected_error = \<lparr>er_status = 500, er_body = internal_error_body, er_retry_after = None\<rparr>"

definition handle_app_error :: "exn \<Rightarrow> error_response" where
  "handle_app_error e = (case (app_error e, to_dict e) of
       (Some (m, st, code), Some body) \<Rightarrow> \<lparr>er_status = st, er_body = body, er_retry_after = None\<rparr>
     | _ \<Rightarrow> handle_unexpected_error)"

text \<open>\<open>math.ceil\<close> of an infinity raises, and the handler of last resort answers.\<close>

definition handle_rate_limited :: "pyfloat \<Rightarrow> error_response" where
  "handle_rate_limited r = (case r of
       Fin x \<Rightarrow> (handle_app_error (RateLimitExceeded r))\<lparr>er_retry_after := Some \<lceil>x\<rceil>\<rparr>
     | _ \<Rightarrow> handle_unexpected_error)"

text \<open>The handler of the closest class; a cancellation gets no response.\<close>

definition error_response_for :: "exn \<Rightarrow> error_response option" where
  "error_response_for e =
     (case retry_after_of e of
        Some r \<Rightarrow> Some (handle_rate_limited r)
      | None \<Rightarrow> if is_AppError e then Some (handle_app_error e)
          else if is_Exception e then Some handle_unexpected_error else None)"

subsection \<open>\<open>create_completion\<close>\<close>

text \<open>
  The services behind the endpoint, over a world \<open>'w\<close>; \<open>'g\<close> are the generators of
  \<open>GatewayService.stream\<close>.
\<close>

record ('g, 'w) chat_services =
  cs_complete :: "chat_request \<Rightarrow> uuid \<Rightarrow> 'w \<Rightarrow> chat_response result \<times> 'w"
  cs_stream :: "chat_request \<Rightarrow> uuid \<Rightarrow> 'w \<Rightarrow> 'g result \<times> 'w"
  cs_anext :: "uuid \<Rightarrow> ('g, 'w) anext"
  cs_aclose :: "'g \<Rightarrow> 'w \<Rightarrow> 'g \<times> 'w"
  cs_store :: "'w idem_port"

text \<open>The event iterator handed to \<open>_encode_sse\<close>: the gateway's, or the settling one.\<close>

datatype 'g events = Plain 'g | Keyed string "'g idem_gen"

datatype 'g completion = Json chat_response_schema | EventStream "'g events"

definition create_completion ::
  "('g, 'w) chat_services \<Rightarrow> (fingerprint_payload \<Rightarrow> string) \<Rightarrow> chat_payload \<Rightarrow> uuid \<Rightarrow> string option
   \<Rightarrow> 'w \<Rightarrow> 'g completion result \<times> 'w" where
  "create_completion svc digest payload api_key_id idempotency_key w =
     (let request = chat_to_domain payload in
      if cp_stream payload then
        (case idempotency_key of
           None \<Rightarrow>
             (case cs_stream svc request api_key_id w of
                (Inl e, w') \<Rightarrow> (Inl e, w')
              | (Inr g, w') \<Rightarrow> (Inr (EventStream (Plain g)), w'))
         | Some key \<Rightarrow>
             (case idem_execute_stream (cs_store svc) digest key api_key_id request
                     (cs_stream svc request api_key_id) w of
                (Inl e, w') \<Rightarrow> (Inl e, w')
              | (Inr g, w') \<Rightarrow> (Inr (EventStream (Keyed key g)), w')))
      else
        (case (case idempotency_key of
                 None \<Rightarrow> cs_complete svc request api_key_id w
               | Some key \<Rightarrow> idem_execute (cs_store svc) digest key api_key_id request
                     (cs_complete svc request api_key_id) w) of
           (Inl e, w') \<Rightarrow> (Inl e, w')
         | (Inr result, w') \<Rightarrow> (Inr (Json (chat_from_domain result)), w')))"

definition events_anext ::
  "('g, 'w) chat_services \<Rightarrow> (fingerprint_payload \<Rightarrow> string) \<Rightarrow> chat_request \<Rightarrow> uuid \<Rightarrow> ('g events, 'w) anext" where
  "events_anext svc digest request api_key_id ev w =
     (case ev of
        Plain g \<Rightarrow> (case cs_anext svc api_key_id g w of ((p, g'), w') \<Rightarrow> ((p, Plain g'), w'))
      | Keyed key g \<Rightarrow>
          (case idem_anext (cs_store svc) (cs_anext svc api_key_id) (cs_aclose svc) key api_key_id
                  (fingerprint digest request) g w of
             ((p, g'), w') \<Rightarrow> ((p, Keyed key g'), w')))"

subsection \<open>\<open>_encode_sse\<close>\<close>

datatype sse_frame =
    DeltaFrame string
  | DoneFrame chat_response_schema
  | ErrorFrame error_body

fun frame_of :: "chat_stream_event \<Rightarrow> sse_frame" where
  "frame_of (ChatStreamDelta t) = DeltaFrame t"
| "frame_of (ChatStreamResponse r) = DoneFrame (chat_from_domain r)"

datatype 'e sse_gen = SSE_Run 'e | SSE_Done

text \<open>What the \<open>except\<close> clauses make of an exception: a last frame, or it passes.\<close>

definition error_frame :: "exn \<Rightarrow> sse_frame option" where
  "error_frame e = (case to_dict e of
       Some body \<Rightarrow> Some (ErrorFrame body)
     | None \<Rightarrow> if is_Exception e then Some (ErrorFrame internal_error_body) else None)"

fun sse_anext :: "('e, 'w) anext \<Rightarrow> 'e sse_gen \<Rightarrow> 'w \<Rightarrow> (sse_frame pull \<times> 'e sse_gen) \<times> 'w" where
  "sse_anext nx (SSE_Run ev) w =
     (case nx ev w of
        ((Yielded event, ev'), w') \<Rightarrow> ((Yielded (frame_of event), SSE_Run ev'), w')
      | ((Stopped, ev'), w') \<Rightarrow> ((Stopped, SSE_Done), w')
      | ((Raised e, ev'), w') \<Rightarrow>
          (case error_frame e of
             Some f \<Rightarrow> ((Yielded f, SSE_Done), w')
           | None \<Rightarrow> ((Raised e, SSE_Done), w')))"
| "sse_anext nx SSE_Done w = ((Stopped, SSE_Done), w)"

text \<open>The server pulls frames until the generator ends or raises; \<open>None\<close>: not within \<open>n\<close> pulls.\<close>

fun sse_frames :: "('e, 'w) anext \<Rightarrow> nat \<Rightarrow> 'e sse_gen \<Rightarrow> 'w \<Rightarrow> (sse_frame list \<times> exn option option) \<times> 'w" where
  "sse_frames nx 0 g w = (([], None), w)"
| "sse_frames nx (Suc n) g w =
     (case sse_anext nx g w of
        ((Yielded f, g'), w') \<Rightarrow> (case sse_frames nx n g' w' of ((fs, r), w'') \<Rightarrow> ((f # fs, r), w''))
      | ((Stopped, g'), w') \<Rightarrow> (([], Some None), w')
      | ((Raised e, g'), w') \<Rightarrow> (([], Some (Some e)), w'))"

subsection \<open>The completions endpoint\<close>

text \<open>
  One request up to the handler's return: the key is looked up in the committed database, the
  limiter is asked, the body is checked, the handler runs. A body that does not validate is
  FastAPI's own 422. The session is closed after the response has been sent: at once for a
  JSON response, at the end of the stream otherwise (\<open>send_events\<close>).
\<close>

datatype 'b reply = Ok 'b | Failed exn | Unprocessable

record 'w session_env =
  se_database :: "'w \<Rightarrow> database"
  se_commit :: "'w \<Rightarrow> 'w"
  se_rollback :: "'w \<Rightarrow> 'w"

definition post_completions ::
  "settings \<Rightarrow> (string \<Rightarrow> string) \<Rightarrow> (fingerprint_payload \<Rightarrow> string) \<Rightarrow> 'w session_env
   \<Rightarrow> (uuid \<Rightarrow> int \<Rightarrow> 'w \<Rightarrow> unit result \<times> 'w) \<Rightarrow> ('g, 'w) chat_services
   \<Rightarrow> string option \<Rightarrow> string option \<Rightarrow> chat_payload \<Rightarrow> 'w \<Rightarrow> 'g completion reply \<times> 'w" where
  "post_completions config digest fp_digest env limiter svc authorization idempotency_key payload w =
     (let close = close_session (se_commit env) (se_rollback env) in
      case get_current_api_key digest authorization (se_database env w) of
        Inl e \<Rightarrow> (Failed e, close (Some e) w)
      | Inr k \<Rightarrow>
          (case enforce_rate_limit config limiter k w of
             (Inl e, w1) \<Rightarrow> (Failed e, close (Some e) w1)
           | (Inr u, w1) \<Rightarrow>
               (if \<not> chat_payload_valid payload then (Unprocessable, se_rollback env w1)
                else case create_completion svc fp_digest payload (ak_id k) idempotency_key w1 of
                  (Inl e, w2) \<Rightarrow> (Failed e, close (Some e) w2)
                | (Inr (Json c), w2) \<Rightarrow> (Ok (Json c), close None w2)
                | (Inr (EventStream ev), w2) \<Rightarrow> (Ok (EventStream ev), w2))))"

definition send_events ::
  "'w session_env \<Rightarrow> ('e, 'w) anext \<Rightarrow> nat \<Rightarrow> 'e \<Rightarrow> 'w \<Rightarrow> (sse_frame list \<times> exn option option) \<times> 'w" where
  "send_events env nx n ev w = (case sse_frames nx n (SSE_Run ev) w of
       ((fs, None), w') \<Rightarrow> ((fs, None), w')
     | ((fs, Some r), w') \<Rightarrow> ((fs, Some r), close_session (se_commit env) (se_rollback env) r w'))"

subsection \<open>The usage endpoints\<close>

record usage_record_schema =
  uv_provider :: provider_enum
  uv_model :: string
  uv_tokens_in :: int
  uv_tokens_out :: int
  uv_cost :: decimal
  uv_finish_reason :: string
  uv_request_id :: string
  uv_created_at :: datetime

definition usage_record_from_domain :: "usage_record \<Rightarrow> usage_record_schema" where
  "usage_record_from_domain r =
     \<lparr>uv_provider = ur_provider r, uv_model = ur_model r, uv_tokens_in = ur_tokens_in r,
      uv_tokens_out = ur_tokens_out r, uv_cost = ur_cost r, uv_finish_reason = ur_finish_reason r,
      uv_request_id = ur_request_id r, uv_created_at = ur_created_at r\<rparr>"

record usage_summary_schema =
  sv_total_requests :: int
  sv_total_tokens_in :: int
  sv_total_tokens_out :: int
  sv_total_cost :: decimal
  sv_since :: "datetime option"
  sv_until :: "datetime option"

definition usage_summary_from_domain :: "usage_summary \<Rightarrow> usage_summary_schema" where
  "usage_summary_from_domain s =
     \<lparr>sv_total_requests = us_total_requests s, sv_total_tokens_in = us_total_tokens_in s,
      sv_total_tokens_out = us_total_tokens_out s, sv_total_cost = us_total_cost s,
      sv_since = us_since s, sv_until = us_until s\<rparr>"

record usage_by_model_schema =
  mv_provider :: provider_enum
  mv_model :: string
  mv_total_requests :: int
  mv_total_tokens_in :: int
  mv_total_tokens_out :: int
  mv_total_cost :: decimal

definition usage_by_model_from_domain :: "usage_by_model \<Rightarrow> usage_by_model_schema" where
  "usage_by_model_from_domain e =
     \<lparr>mv_provider = um_provider e, mv_model = um_model e, mv_total_requests = um_total_requests e,
      mv_total_tokens_in = um_total_tokens_in e, mv_total_tokens_out = um_total_tokens_out e,
      mv_total_cost = um_total_cost e\<rparr>"

definition get_usage_summary ::
  "(string \<Rightarrow> string) \<Rightarrow> string option \<Rightarrow> datetime option \<Rightarrow> datetime option \<Rightarrow> database
   \<Rightarrow> usage_summary_schema reply" where
  "get_usage_summary digest authorization since until db =
     (case get_current_api_key_id digest authorization db of
        Inl e \<Rightarrow> Failed e
      | Inr i \<Rightarrow> Ok (usage_summary_from_domain (usage_summary_of db i since until)))"

definition list_usage_records ::
  "(usage_row list \<Rightarrow> usage_row list) \<Rightarrow> (string \<Rightarrow> string) \<Rightarrow> string option \<Rightarrow> datetime option
   \<Rightarrow> datetime option \<Rightarrow> int \<Rightarrow> int \<Rightarrow> database \<Rightarrow> usage_record_schema list reply" where
  "list_usage_records order_created digest authorization since until limit offset db =
     (case get_current_api_key_id digest authorization db of
        Inl e \<Rightarrow> Failed e
      | Inr i \<Rightarrow>
          (if limit < 1 \<or> 200 < limit \<or> offset < 0 then Unprocessable
           else case usage_records_of order_created db i since until (nat limit) (nat offset) of
               Inl e \<Rightarrow> Failed e
             | Inr records \<Rightarrow> Ok (map usage_record_from_domain records)))"

definition get_usage_by_model ::
  "(usage_group list \<Rightarrow> usage_group list) \<Rightarrow> (string \<Rightarrow> string) \<Rightarrow> string option \<Rightarrow> datetime option
   \<Rightarrow> datetime option \<Rightarrow> database \<Rightarrow> usage_by_model_schema list reply" where
  "get_usage_by_model order_cost digest authorization since until db =
     (case get_current_api_key_id digest authorization db of
        Inl e \<Rightarrow> Failed e
      | Inr i \<Rightarrow> (case usage_models_of order_cost db i since until of
          Inl e \<Rightarrow> Failed e | Inr entries \<Rightarrow> Ok (map usage_by_model_from_domain entries)))"

subsection \<open>The api-key endpoints\<close>

record api_key_schema =
  av_id :: uuid
  av_name :: string
  av_rate_limit_rpm :: "int option"
  av_monthly_token_quota :: "int option"
  av_is_active :: bool
  av_created_at :: datetime

definition api_key_from_domain :: "api_key \<Rightarrow> api_key_schema" where
  "api_key_from_domain k =
     \<lparr>av_id = ak_id k, av_name = ak_name k, av_rate_limit_rpm = ak_rate_limit_rpm k,
      av_monthly_token_quota = ak_monthly_token_quota k, av_is_active = ak_is_active k,
      av_created_at = ak_created_at k\<rparr>"

record api_key_create_response_schema = api_key_schema +
  av_api_key :: string

definition api_key_create_from_domain :: "api_key \<Rightarrow> string \<Rightarrow> api_key_create_response_schema" where
  "api_key_create_from_domain k token =
     \<lparr>av_id = ak_id k, av_name = ak_name k, av_rate_limit_rpm = ak_rate_limit_rpm k,
      av_monthly_token_quota = ak_monthly_token_quota k, av_is_active = ak_is_active k,
      av_created_at = ak_created_at k, av_api_key = token\<rparr>"

record api_key_payload =
  kp_name :: string
  kp_rate_limit_rpm :: "int option"
  kp_monthly_token_quota :: "int option"

definition api_key_payload_valid :: "api_key_payload \<Rightarrow> bool" where
  "api_key_payload_valid p =
     (kp_name p \<noteq> [] \<and> (case kp_rate_limit_rpm p of None \<Rightarrow> True | Some n \<Rightarrow> 0 < n) \<and>
      (case kp_monthly_token_quota p of None \<Rightarrow> True | Some n \<Rightarrow> 0 < n))"

text \<open>
  The one write of each handler is its last database call, and it changes nothing when it
  fails, so the transaction adds nothing here.
\<close>

definition post_api_key ::
  "settings \<Rightarrow> (string \<Rightarrow> string) \<Rightarrow> string \<Rightarrow> uuid \<Rightarrow> datetime \<Rightarrow> string option \<Rightarrow> api_key_payload \<Rightarrow> database
   \<Rightarrow> api_key_create_response_schema reply \<times> database" where
  "post_api_key config digest random fresh_id now authorization p db =
     (case get_current_admin config authorization of
        Inl e \<Rightarrow> (Failed e, db)
      | Inr u \<Rightarrow>
          (if \<not> api_key_payload_valid p then (Unprocessable, db)
           else case create_api_key digest random fresh_id now (kp_name p) (kp_rate_limit_rpm p)
                       (kp_monthly_token_quota p) db of
               (Inl e, db') \<Rightarrow> (Failed e, db')
             | (Inr (k, token), db') \<Rightarrow> (Ok (api_key_create_from_domain k token), db')))"

definition get_api_keys ::
  "(api_key list \<Rightarrow> api_key list) \<Rightarrow> settings \<Rightarrow> string option \<Rightarrow> database \<Rightarrow> api_key_schema list reply" where
  "get_api_keys order_created config authorization db =
     (case get_current_admin config authorization of
        Inl e \<Rightarrow> Failed e
      | Inr u \<Rightarrow> Ok (map api_key_from_domain (api_key_list_all order_created db)))"

definition post_revoke ::
  "settings \<Rightarrow> string option \<Rightarrow> uuid \<Rightarrow> database \<Rightarrow> api_key_schema reply \<times> database" where
  "post_revoke config authorization api_key_id db =
     (case get_current_admin config authorization of
        Inl e \<Rightarrow> (Failed e, db)
      | Inr u \<Rightarrow>
          (case revoke_api_key api_key_id db of
             (Inl e, db') \<Rightarrow> (Failed e, db')
           | (Inr k, db') \<Rightarrow> (Ok (api_key_from_domain k), db')))"

subsection \<open>Health\<close>

text \<open>
  \<open>_probe\<close>: \<open>check\<close> is what the ping does and how long it takes; past the limit the answer
  is a \<open>TimeoutError\<close>. A cancellation passes through.
\<close>

definition probe :: "settings \<Rightarrow> string \<Rightarrow> unit result \<times> seconds \<Rightarrow> (string \<times> string) result" where
  "probe config name check =
     (case (if health_check_timeout_s config \<le> snd check then Inl TimeoutError else fst check) of
        Inr u \<Rightarrow> Inr (name, ''ok'')
      | Inl e \<Rightarrow> if e = TimeoutError then Inr (name, ''timeout'')
                 else if is_Exception e then Inr (name, ''error'') else Inl e)"

record readiness_report =
  rr_status_code :: int
  rr_status :: string
  rr_checks :: "(string \<times> string) list"

definition liveness :: "(string \<times> string) list" where
  "liveness = [(''status'', ''ok'')]"

definition readiness ::
  "settings \<Rightarrow> unit result \<times> seconds \<Rightarrow> unit result \<times> seconds \<Rightarrow> readiness_report result" where
  "readiness config ping_postgres ping_redis =
     (case map_result (\<lambda>(name, check). probe config name check)
             [(''postgres'', ping_postgres), (''redis'', ping_redis)] of
        Inl e \<Rightarrow> Inl e
      | Inr checks \<Rightarrow>
          (let ready = list_all (\<lambda>(name, state). state = ''ok'') checks
           in Inr \<lparr>rr_status_code = (if ready then 200 else 503),
                   rr_status = (if ready then ''ready'' else ''not_ready''), rr_checks = checks\<rparr>))"

subsection \<open>The text of a frame\<close>

text \<open>
  \<open>json.dumps\<close> of a string: quotes, backslashes and everything outside the printable ASCII
  range are escaped.
\<close>

abbreviation (input) newline :: char where "newline \<equiv> CHR 0x0A"
abbreviation (input) dquote :: char where "dquote \<equiv> CHR 0x22"
abbreviation (input) bslash :: char where "bslash \<equiv> CHR 0x5C"

definition json_char :: "char \<Rightarrow> string" where
  "json_char c =
     (if c = dquote \<or> c = bslash then [bslash, c]
      else if 32 \<le> (of_char c :: nat) \<and> (of_char c :: nat) \<le> 126 then [c]
      else if c = CHR 0x08 then [bslash, CHR ''b'']
      else if c = CHR 0x0C then [bslash, CHR ''f'']
      else if c = newline then [bslash, CHR ''n'']
      else if c = CHR 0x0D then [bslash, CHR ''r'']
      else if c = CHR 0x09 then [bslash, CHR ''t'']
      else bslash # CHR ''u'' # hex_digits 4 (of_char c))"

definition json_string :: "string \<Rightarrow> string" where
  "json_string s = dquote # concat (map json_char s) @ [dquote]"

definition json_field :: "string \<Rightarrow> string \<Rightarrow> string" where
  "json_field name text_value = json_string name @ '': '' @ text_value"

text \<open>
  \<open>render\<close> is the text of an f-string, \<open>show_float\<close> what \<open>json.dumps\<close> writes for a
  float, \<open>dump\<close> is pydantic's \<open>model_dump_json\<close>.
\<close>

record json_writer =
  jw_render :: "fstring \<Rightarrow> string"
  jw_show_float :: "pyfloat \<Rightarrow> string"
  jw_dump :: "chat_response_schema \<Rightarrow> string"

definition error_json :: "json_writer \<Rightarrow> error_body \<Rightarrow> string" where
  "error_json jw b = ''{'' @ py_join '', ''
     ([json_field ''error_code'' (json_string (eb_error_code b)),
       json_field ''message'' (json_string (jw_render jw (eb_message b)))]
      @ (case eb_retry_after_s b of None \<Rightarrow> []
         | Some r \<Rightarrow> [json_field ''retry_after_s'' (jw_show_float jw r)])) @ ''}''"

fun frame_name :: "sse_frame \<Rightarrow> string" where
  "frame_name (DeltaFrame t) = ''delta''"
| "frame_name (DoneFrame r) = ''done''"
| "frame_name (ErrorFrame b) = ''error''"

fun frame_data :: "json_writer \<Rightarrow> sse_frame \<Rightarrow> string" where
  "frame_data jw (DeltaFrame t) = ''{'' @ json_field ''content'' (json_string t) @ ''}''"
| "frame_data jw (DoneFrame r) = jw_dump jw r"
| "frame_data jw (ErrorFrame b) = error_json jw b"

definition frame_text :: "json_writer \<Rightarrow> sse_frame \<Rightarrow> string" where
  "frame_text jw f = ''event: '' @ frame_name f @ [newline] @ ''data: '' @ frame_data jw f @ [newline, newline]"

subsection \<open>A client of the stream\<close>

text \<open>
  The parser of the server-sent events standard, as far as these bodies use it: lines end at a
  line feed or a carriage return, a blank line dispatches the event collected so far.
\<close>

definition line_end :: "char \<Rightarrow> bool" where
  "line_end c = (c = newline \<or> c = CHR 0x0D)"

fun split_lines :: "string \<Rightarrow> string list" where
  "split_lines [] = [[]]"
| "split_lines (c # s) =
     (if line_end c then [] # split_lines s
      else case split_lines s of [] \<Rightarrow> [[c]] | l # ls \<Rightarrow> (c # l) # ls)"

fun sse_dispatch :: "string \<Rightarrow> string list \<Rightarrow> string list \<Rightarrow> (string \<times> string) list" where
  "sse_dispatch ev ds [] = []"
| "sse_dispatch ev ds (l # ls) =
     (if l = [] then
        (if ds = [] then sse_dispatch [] [] ls
         else (ev, py_join [newline] ds) # sse_dispatch [] [] ls)
      else if py_startswith l ''event: '' then sse_dispatch (drop 7 l) ds ls
      else if py_startswith l ''data: '' then sse_dispatch ev (ds @ [drop 6 l]) ls
      else sse_dispatch ev ds ls)"

definition sse_client :: "string \<Rightarrow> (string \<times> string) list" where
  "sse_client body = sse_dispatch [] [] (split_lines body)"

text \<open>Reading a JSON string back, up to its closing quote.\<close>

definition unhex :: "char \<Rightarrow> nat" where
  "unhex c = (let n = of_char c :: nat in if n < 58 then n - 48 else n - 87)"

definition unescape_char :: "char \<Rightarrow> char" where
  "unescape_char e = (if e = CHR ''b'' then CHR 0x08 else if e = CHR ''f'' then CHR 0x0C
     else if e = CHR ''n'' then newline else if e = CHR ''r'' then CHR 0x0D
     else if e = CHR ''t'' then CHR 0x09 else e)"

fun json_unescape :: "string \<Rightarrow> string" where
  "json_unescape [] = []"
| "json_unescape (c # s) =
     (if c = dquote then []
      else if c = bslash then
        (case s of [] \<Rightarrow> []
         | e # s' \<Rightarrow>
             (if e = CHR ''u'' then char_of (16 * unhex (s' ! 2) + unhex (s' ! 3)) # json_unescape (drop 4 s')
              else unescape_char e # json_unescape s'))
      else c # json_unescape s)"

text \<open>The text of a delta's data, and all the text of a body.\<close>

definition delta_text :: "string \<Rightarrow> string" where
  "delta_text d = json_unescape (drop (length (''{'' @ json_string ''content'' @ '': '') + 1) d)"

definition client_text :: "(string \<times> string) list \<Rightarrow> string" where
  "client_text es = concat (map (delta_text \<circ> snd) (filter (\<lambda>e. fst e = ''delta'') es))"

lemma hex_digit_printable: "n < 16 \<Longrightarrow> \<not> line_end (hex_digit n) \<and> unhex (hex_digit n) = n"
proof -
  assume "n < 16"
  then have "n \<in> set [0..<16]" by simp
  moreover have "\<forall>n \<in> set [0..<16]. \<not> line_end (hex_digit n) \<and> unhex (hex_digit n) = n"
    by code_simp
  ultimately show ?thesis by blast
qed

lemma hex_digits_4:
  "hex_digits 4 n = [hex_digit (n div 4096 mod 16), hex_digit (n div 256 mod 16),
     hex_digit (n div 16 mod 16), hex_digit (n mod 16)]"
proof -
  have "hex_digits (Suc (Suc (Suc (Suc 0)))) n = [hex_digit (n div 16 div 16 div 16 mod 16),
      hex_digit (n div 16 div 16 mod 16), hex_digit (n div 16 mod 16), hex_digit (n mod 16)]" by simp
  moreover have "n div 16 div 16 = n div 256" "n div 256 div 16 = n div 4096"
    by (simp_all flip: div_mult2_eq)
  moreover have "(4 :: nat) = Suc (Suc (Suc (Suc 0)))" by simp
  ultimately show ?thesis by (simp only:)
qed

lemma json_char_no_line_end: "\<forall>x \<in> set (json_char c). \<not> line_end x"
proof -
  have "\<not> line_end c" if "32 \<le> (of_char c :: nat)" using that by (auto simp: line_end_def)
  then show ?thesis
    by (simp add: json_char_def hex_digits_4 hex_digit_printable) (auto simp: line_end_def)
qed

lemma json_unescape_char: "json_unescape (json_char c @ s) = c # json_unescape s"
proof -
  have "(of_char c :: nat) div 16 < 16" using nat_of_char_less_256 [of c] by (simp add: div_less_iff_less_mult)
  then have n: "16 * ((of_char c :: nat) div 16 mod 16) + (of_char c :: nat) mod 16 = of_char c"
    by (simp only: mod_less mult_div_mod_eq)
  show ?thesis
    by (simp add: json_char_def hex_digits_4 hex_digit_printable n unescape_char_def)
qed

lemma json_string_no_line_end [simp]: "\<forall>x \<in> set (json_string s). \<not> line_end x"
  using json_char_no_line_end by (auto simp: json_string_def line_end_def)

lemma json_unescape_string: "json_unescape (concat (map json_char t) @ dquote # rest) = t"
  by (induction t) (simp_all add: json_unescape_char)

lemma delta_text_frame: "delta_text (frame_data jw (DeltaFrame t)) = t"
  by (simp add: delta_text_def json_field_def json_string_def json_unescape_string
      json_char_def [of "CHR ''c''"] json_char_def [of "CHR ''o''"] json_char_def [of "CHR ''n''"]
      json_char_def [of "CHR ''t''"] json_char_def [of "CHR ''e''"])

definition one_line :: "string \<Rightarrow> bool" where
  "one_line s = list_all (\<lambda>c. \<not> line_end c) s"

lemma one_line_simps [simp]:
  "one_line []" "one_line (c # s) \<longleftrightarrow> \<not> line_end c \<and> one_line s"
  "one_line (s @ t) \<longleftrightarrow> one_line s \<and> one_line t" "one_line (json_string s)"
  using json_string_no_line_end [of s] by (auto simp: one_line_def list_all_iff)

lemma one_line_join: "one_line sep \<Longrightarrow> list_all one_line xs \<Longrightarrow> one_line (py_join sep xs)"
  by (induction sep xs rule: py_join.induct) simp_all

lemma split_lines_line: "one_line l \<Longrightarrow> split_lines (l @ newline # s) = l # split_lines s"
  by (induction l) (simp_all add: line_end_def)

definition writes_lines :: "json_writer \<Rightarrow> bool" where
  "writes_lines jw \<longleftrightarrow> (\<forall>r. one_line (jw_dump jw r)) \<and> (\<forall>x. one_line (jw_show_float jw x))"

lemma frame_one_line:
  assumes "writes_lines jw"
  shows "one_line (frame_name f)" "one_line (frame_data jw f)"
proof -
  show "one_line (frame_name f)" by (cases f) (simp_all add: line_end_def)
  show "one_line (frame_data jw f)"
    using assms by (cases f) (auto simp: writes_lines_def error_json_def json_field_def line_end_def
        intro!: one_line_join split: option.splits)
qed

text \<open>The body splits into the frames it was made of.\<close>

lemma sse_client_frames:
  assumes "writes_lines jw"
  shows "sse_client (concat (map (frame_text jw) fs)) = map (\<lambda>f. (frame_name f, frame_data jw f)) fs"
proof -
  have frame: "split_lines (frame_text jw f @ s) =
      (''event: '' @ frame_name f) # (''data: '' @ frame_data jw f) # [] # split_lines s" for f s
  proof -
    note one = frame_one_line [OF assms, of f]
    have e: "one_line ''event: ''" "one_line ''data: ''" by (simp_all add: line_end_def)
    show ?thesis
      using split_lines_line [of "''event: '' @ frame_name f"] split_lines_line [of "''data: '' @ frame_data jw f"]
        split_lines_line [of "[]"] one e
      by (simp add: frame_text_def)
  qed
  have "sse_dispatch [] [] (split_lines (concat (map (frame_text jw) fs))) =
      map (\<lambda>f. (frame_name f, frame_data jw f)) fs"
    by (induction fs) (simp_all add: frame)
  then show ?thesis by (simp add: sse_client_def)
qed

text \<open>What the server writes for a stream that ends, and how the encoder ends.\<close>

definition last_frames :: "exn option \<Rightarrow> sse_frame list" where
  "last_frames r = (case r of None \<Rightarrow> [] | Some e \<Rightarrow> (case error_frame e of None \<Rightarrow> [] | Some f \<Rightarrow> [f]))"

definition encoder_end :: "exn option \<Rightarrow> exn option" where
  "encoder_end r = (case r of None \<Rightarrow> None | Some e \<Rightarrow> if error_frame e = None then Some e else None)"

lemma sse_frames_drive:
  "drive nx n ev w = ((evs, Some ending), (ev', w')) \<Longrightarrow> n < m \<Longrightarrow>
    sse_frames nx m (SSE_Run ev) w = ((map frame_of evs @ last_frames ending, Some (encoder_end ending)), w')"
proof (induction n arbitrary: ev w evs m)
  case (Suc n)
  obtain m' where m: "m = Suc m'" "n < m'" using Suc.prems(2) by (cases m) auto
  obtain x ev1 w1 where pull: "nx ev w = ((x, ev1), w1)" by (metis prod.collapse)
  show ?case
  proof (cases x)
    case (Yielded v)
    with Suc.prems(1) pull obtain evs' where "evs = v # evs'" "drive nx n ev1 w1 = ((evs', Some ending), (ev', w'))"
      by (auto split: prod.splits)
    with Suc.IH [OF this(2) m(2)] pull Yielded m(1) show ?thesis by simp
  next
    case Stopped
    with Suc.prems(1) pull m(1) show ?thesis by (auto simp: last_frames_def encoder_end_def)
  next
    case (Raised e)
    obtain m'' where "m' = Suc m''" using m(2) by (cases m') auto
    with Raised Suc.prems(1) pull m(1) show ?thesis
      by (auto simp: last_frames_def encoder_end_def split: option.splits)
  qed
qed simp

lemma client_text_frames:
  "client_text (map (\<lambda>f. (frame_name f, frame_data jw f)) (map frame_of evs @ last_frames r)) =
    concat (map (\<lambda>ev. case ev of ChatStreamDelta t \<Rightarrow> t | ChatStreamResponse x \<Rightarrow> []) evs)"
proof -
  have "client_text (map (\<lambda>f. (frame_name f, frame_data jw f)) (last_frames r)) = []"
    by (auto simp: last_frames_def error_frame_def client_text_def split: option.splits)
  moreover have "client_text (map (\<lambda>f. (frame_name f, frame_data jw f)) (map frame_of evs)) =
    concat (map (\<lambda>ev. case ev of ChatStreamDelta t \<Rightarrow> t | ChatStreamResponse x \<Rightarrow> []) evs)"
  proof (induction evs)
    case (Cons ev evs)
    then show ?case by (cases ev) (simp_all add: client_text_def delta_text_frame del: frame_data.simps)
  qed (simp add: client_text_def)
  ultimately show ?thesis by (simp add: client_text_def)
qed

subsection \<open>Api keys\<close>

lemma py_strip_no_space: "list_all (\<lambda>c. \<not> py_space c) s \<Longrightarrow> py_strip s = s"
  by (metis dropWhile_eq_self_iff hd_in_set list_all_iff py_strip_def rev_rev_ident set_rev)

lemma bearer_token_of:
  assumes "list_all (\<lambda>c. \<not> py_space c) token" and "token \<noteq> []"
  shows "bearer_token (Some (''Bearer '' @ token)) = Some token"
  using assms by (simp add: bearer_token_def py_removeprefix_def py_strip_no_space)

lemma find_append: "find P (xs @ ys) = (case find P xs of None \<Rightarrow> find P ys | Some x \<Rightarrow> Some x)"
  by (induction xs) auto

definition active_with :: "string \<Rightarrow> api_key \<Rightarrow> bool" where
  "active_with h k \<longleftrightarrow> ak_key_hash k = h \<and> ak_is_active k"

lemma get_current_api_key_find:
  "get_current_api_key digest a db = (case bearer_token a of None \<Rightarrow> Inl Unauthorized
     | Some t \<Rightarrow> (case find (active_with (digest t)) (db_api_keys db) of None \<Rightarrow> Inl Unauthorized | Some k \<Rightarrow> Inr k))"
  by (simp add: get_current_api_key_def active_with_def [abs_def] split: option.splits)

lemma find_deactivated_other:
  "\<forall>k \<in> set ks. ak_key_hash k = h \<longrightarrow> ak_id k \<noteq> i \<Longrightarrow> find (active_with h) (map (deactivate i) ks) = find (active_with h) ks"
  by (induction ks) (auto simp: active_with_def deactivate_def)

lemma find_deactivated:
  "\<forall>k \<in> set ks. ak_key_hash k = h \<longrightarrow> ak_id k = i \<Longrightarrow> find (active_with h) (map (deactivate i) ks) = None"
  by (induction ks) (auto simp: active_with_def)

subsection \<open>Correctness properties\<close>

text \<open>
  C15. The life of an api key. When the admin creates a key, the token handed out authenticates
  as exactly the key shown; when the admin revokes it, the revocation succeeds, the token is
  rejected from then on, a completion request with it is answered with 401 and reaches neither
  the limiter nor a provider, and whether any other token authenticates, and as which key, is
  the same as before the key was created. Ids and hashes stay unique throughout.
\<close>

theorem api_key_lifecycle:
  assumes "keys_wf db"
    and "post_api_key config digest random i now auth p db = (Ok view, db1)"
    and "list_all (\<lambda>c. \<not> py_space c) random"
    and "post_revoke config auth (av_id view) db1 = (r, db2)"
    and "se_database env w = db2"
  shows "(\<exists>k. get_current_api_key digest (Some (''Bearer '' @ av_api_key view)) db1 = Inr k \<and> api_key_create_from_domain k (av_api_key view) = view) \<and>
    (\<exists>view'. r = Ok view' \<and> \<not> av_is_active view' \<and> av_id view' = av_id view) \<and>
    get_current_api_key digest (Some (''Bearer '' @ av_api_key view)) db2 = Inl Unauthorized \<and>
    post_completions config digest fpd env limiter svc (Some (''Bearer '' @ av_api_key view)) ikey payload w =
      (Failed Unauthorized, se_rollback env w) \<and>
    (\<forall>a. (\<forall>t. bearer_token a = Some t \<longrightarrow> digest t \<noteq> digest (av_api_key view)) \<longrightarrow>
      get_current_api_key digest a db2 = get_current_api_key digest a db) \<and>
    keys_wf db1 \<and> keys_wf db2"
proof -
  obtain k token where admin: "get_current_admin config auth = Inr ()"
    and c: "create_api_key digest random i now (kp_name p) (kp_rate_limit_rpm p) (kp_monthly_token_quota p) db = (Inr (k, token), db1)"
    and view: "view = api_key_create_from_domain k token"
    using assms(2) by (auto simp: post_api_key_def split: sum.splits prod.splits if_splits)
  have token: "av_api_key view = token" "av_id view = ak_id k" by (simp_all add: view api_key_create_from_domain_def)
  note cr = create_api_key_Inr [OF c]
  have tok: "bearer_token (Some (''Bearer '' @ token)) = Some token"
    using assms(3) by (intro bearer_token_of) (auto simp: cr(1) generate_api_key_def py_space_def Let_def)
  have fresh: "\<forall>x \<in> set (db_api_keys db). ak_key_hash x \<noteq> digest token \<and> ak_id x \<noteq> i"
    using cr(2,7,8) by (metis image_eqI)
  then have none: "find (active_with (digest token)) (db_api_keys db) = None"
    by (auto simp: find_None_iff active_with_def)
  have here: "find (active_with (digest token)) (db_api_keys db1) = Some k"
    using cr none by (simp add: find_append active_with_def)
  have "find (\<lambda>x. ak_id x = i) (db_api_keys db) = None" using fresh by (auto simp: find_None_iff)
  then have "find (\<lambda>x. ak_id x = i) (db_api_keys db1) = Some k" using cr by (simp add: find_append)
  then have rev: "api_key_revoke i db1 = (Some (deactivate i k), db1\<lparr>db_api_keys := map (deactivate i) (db_api_keys db1)\<rparr>)"
    by (simp add: api_key_revoke_def)
  then have r: "r = Ok (api_key_from_domain (deactivate i k))"
    and db2: "db2 = db1\<lparr>db_api_keys := map (deactivate i) (db_api_keys db1)\<rparr>"
    using assms(4) admin cr(3) by (auto simp: post_revoke_def revoke_api_key_def token)
  have gone: "find (active_with (digest token)) (db_api_keys db2) = None"
    using find_deactivated [of "db_api_keys db1" "digest token" i] cr(2,3) fresh by (auto simp: db2 cr(6))
  then have out: "get_current_api_key digest (Some (''Bearer '' @ token)) db2 = Inl Unauthorized"
    unfolding get_current_api_key_find tok by simp
  have "get_current_api_key digest (Some (''Bearer '' @ token)) db1 = Inr k"
    unfolding get_current_api_key_find tok using here by simp
  note auths = this out
  have other: "get_current_api_key digest a db2 = get_current_api_key digest a db"
    if "\<forall>t. bearer_token a = Some t \<longrightarrow> digest t \<noteq> digest token" for a
  proof -
    have "find (active_with (digest t)) (db_api_keys db2) = find (active_with (digest t)) (db_api_keys db)"
      if "digest t \<noteq> digest token" for t
    proof -
      have "find (active_with (digest t)) (db_api_keys db2) = find (active_with (digest t)) (db_api_keys db1)"
        using find_deactivated_other [of "db_api_keys db1" "digest t" i] that fresh cr(2,3) by (auto simp: db2 cr(6))
      also have "\<dots> = find (active_with (digest t)) (db_api_keys db)"
        using that cr(2) by (simp add: cr(6) find_append active_with_def split: option.splits)
      finally show ?thesis .
    qed
    then show ?thesis using that by (simp add: get_current_api_key_find split: option.splits)
  qed
  have "keys_wf db1" "keys_wf db2"
    using api_key_insert_wf [OF assms(1), of k] api_key_revoke_wf [of db1 i] cr(5) rev db2 by auto
  moreover have "post_completions config digest fpd env limiter svc (Some (''Bearer '' @ token)) ikey payload w =
      (Failed Unauthorized, se_rollback env w)"
    using out assms(5) by (simp add: post_completions_def close_session_def)
  moreover have "\<exists>view'. r = Ok view' \<and> \<not> av_is_active view' \<and> av_id view' = av_id view"
    by (simp add: r token api_key_from_domain_def cr(3))
  ultimately show ?thesis using auths other view unfolding token(1) by blast
qed


lemma py_round3_error: "\<bar>py_round3 x - x\<bar> \<le> 1 / 2000"
proof -
  define n where "n = \<lfloor>x * 1000\<rfloor>"
  have "of_int n \<le> x * 1000" "x * 1000 < of_int n + 1" unfolding n_def by linarith+
  then show ?thesis by (auto simp: py_round3_def Let_def abs_le_iff field_simps simp flip: n_def)
qed

text \<open>
  C35. The \<open>Retry-After\<close> header. A caller the Redis limiter denies gets a 429 whose header is a
  positive whole number of seconds; a retry after that many seconds is admitted, and a retry a
  full second earlier is still denied. The \<open>retry_after_s\<close> of the body is within half a
  millisecond of the exact wait.
\<close>

theorem retry_after_header:
  assumes "redis_ok t hs" "t \<le> now" "0 < rpm" and "redis_limiter_check now k rpm hs = (Inl e, hs')" and "now \<le> now'"
  shows "\<exists>resp h wait. error_response_for e = Some resp \<and> er_status resp = 429 \<and> er_retry_after resp = Some h \<and> 0 < h \<and>
    (now + of_int h \<le> now' \<longrightarrow> fst (redis_limiter_check now' k rpm hs') = Inr ()) \<and>
    (now' \<le> now + of_int h - 1 \<longrightarrow> fst (redis_limiter_check now' k rpm hs') \<noteq> Inr ()) \<and>
    eb_retry_after_s (er_body resp) = Some (Fin wait) \<and>
    (now + wait + 1 / 2000 \<le> now' \<longrightarrow> fst (redis_limiter_check now' k rpm hs') = Inr ())"
proof -
  define x where "x = (1 - redis_level hs k rpm now) / (of_int rpm / 60)"
  have e: "e = RateLimitExceeded (Fin x)" and "redis_level hs k rpm now < 1"
    using red.decide [OF assms(1-3), of k] assms(4) by (auto simp: x_def split: if_splits)
  then have x: "0 < x" using assms(3) by (simp add: x_def)
  have exact: "fst (redis_limiter_check now' k rpm hs') = Inr () \<longleftrightarrow> now + x \<le> now'"
    using red.retry_after_exact [OF assms(1-3) _ assms(5)] assms(4) e by blast
  have "now + of_int \<lceil>x\<rceil> \<le> now' \<longrightarrow> now + x \<le> now'" "now' \<le> now + of_int \<lceil>x\<rceil> - 1 \<longrightarrow> \<not> now + x \<le> now'"
    by linarith+
  moreover have "now + py_round3 x + 1 / 2000 \<le> now' \<longrightarrow> now + x \<le> now'"
    using py_round3_error [of x] by linarith
  moreover have "error_response_for e = Some ((handle_app_error e)\<lparr>er_retry_after := Some \<lceil>x\<rceil>\<rparr>)"
    "er_status (handle_app_error e) = 429"
    "eb_retry_after_s (er_body (handle_app_error e)) = Some (Fin (py_round3 x))"
    by (simp_all add: e error_response_for_def handle_rate_limited_def handle_app_error_def to_dict_def)
  ultimately show ?thesis
    using x unfolding exact
    by (intro exI [of _ "(handle_app_error e)\<lparr>er_retry_after := Some \<lceil>x\<rceil>\<rparr>"] exI [of _ "\<lceil>x\<rceil>"] exI [of _ "py_round3 x"])
      auto
qed

text \<open>
  A bearer token with a character outside ASCII makes the comparison raise, and the request is
  answered with 500, not with 401.
\<close>

theorem admin_token_non_ascii:
  assumes "bearer_token auth = Some token" and "\<not> py_ascii token"
  shows "\<exists>e. post_api_key config digest random i now auth p db = (Failed e, db) \<and>
    error_response_for e = Some handle_unexpected_error"
  using assms by (simp add: post_api_key_def get_current_admin_def compare_digest_def error_response_for_def is_AppError_def)

subsection \<open>Instances\<close>

theorem retry_after_header_witness:
  "\<exists>resp. error_response_for (RateLimitExceeded (Fin (3 / 2))) = Some resp \<and> er_retry_after resp = Some 2 \<and>
     redis_limiter_check 10 5 20 [redis_bucket_key 5 \<mapsto> ((1/2, 10), 130)] =
       (Inl (RateLimitExceeded (Fin (3 / 2))), [redis_bucket_key 5 \<mapsto> ((1/2, 10), 130)]) \<and>
     fst (redis_limiter_check 12 5 20 [redis_bucket_key 5 \<mapsto> ((1/2, 10), 130)]) = Inr ()"
proof -
  let ?hs = "[redis_bucket_key 5 \<mapsto> ((1/2, 10), 130)]"
  have ok: "redis_ok 10 ?hs" by (simp add: redis_ok_def redis_hashes_wf_def)
  have d: "redis_limiter_check 10 5 20 ?hs = (Inl (RateLimitExceeded (Fin (3 / 2))), ?hs)"
    by (simp add: redis_limiter_check_level redis_level_def live_hash_def Let_def)
  have "\<lceil>3 / 2 :: rat\<rceil> = 2" by (simp add: ceiling_unique)
  with retry_after_header [OF ok _ _ d, of 12] d show ?thesis
    by (auto simp: error_response_for_def handle_rate_limited_def)
qed

definition demo_writer :: json_writer where
  "demo_writer = \<lparr>jw_render = (\<lambda>t. ''error''), jw_show_float = (\<lambda>x. ''0.5''), jw_dump = (\<lambda>r. ''{}'')\<rparr>"


definition demo_admin :: "string option" where
  "demo_admin = Some ''Bearer admin''"

definition demo_key_payload :: api_key_payload where
  "demo_key_payload = \<lparr>kp_name = ''team'', kp_rate_limit_rpm = Some 30, kp_monthly_token_quota = None\<rparr>"

definition empty_db :: database where
  "empty_db = \<lparr>db_api_keys = [], db_usage = [], db_pricing = []\<rparr>"

lemma demo_created:
  "\<exists>view db1. post_api_key demo_settings rev ''abc'' 7 0 demo_admin demo_key_payload empty_db =
     (Ok view, db1) \<and> av_api_key view = ''rlx_abc''"
  by (simp add: post_api_key_def demo_admin_def get_current_admin_def bearer_token_def py_removeprefix_def
      py_strip_def py_space_def compare_digest_def py_ascii_def demo_settings_def default_settings_def
      demo_key_payload_def api_key_payload_valid_def create_api_key_def generate_api_key_def api_key_create_def
      api_key_insert_def empty_db_def api_key_create_from_domain_def)

theorem api_key_lifecycle_witness:
  "\<exists>view db1 r db2. post_api_key demo_settings rev ''abc'' 7 0 demo_admin demo_key_payload empty_db =
       (Ok view, db1) \<and> av_api_key view = ''rlx_abc'' \<and>
     post_revoke demo_settings demo_admin (av_id view) db1 = (r, db2) \<and>
     get_current_api_key rev (Some ''Bearer rlx_abc'') db2 = Inl Unauthorized"
proof -
  obtain view db1 where c: "post_api_key demo_settings rev ''abc'' 7 0 demo_admin demo_key_payload empty_db =
      (Ok view, db1)" and tok: "av_api_key view = ''rlx_abc''" using demo_created by blast
  obtain r db2 where r: "post_revoke demo_settings demo_admin (av_id view) db1 = (r, db2)" by fastforce
  have wf: "keys_wf empty_db" by (simp add: keys_wf_def empty_db_def)
  have env: "se_database \<lparr>se_database = id, se_commit = id, se_rollback = id\<rparr> db2 = db2" by simp
  have "list_all (\<lambda>c. \<not> py_space c) ''abc''" by (simp add: py_space_def)
  from api_key_lifecycle [OF wf c this r env, THEN conjunct2, THEN conjunct2, THEN conjunct1] c r tok
  show ?thesis by auto
qed

end
