(* ===== verification/Observability.thy ===== *)
theory Observability
  imports Relayix_Config
begin

text \<open>
  Logging and tracing (\<open>app/observability\<close>): the filter that stamps a record with the ids
  of the active span, the configuration \<open>setup_logging\<close> hands to \<open>dictConfig\<close> with
  what the standard library makes of it (which handlers a record reaches), and what
  \<open>setup_tracing\<close> switches on. The OpenTelemetry SDK supplies the span context and takes the
  settings; the text of the JSON formatter is its library's.
\<close>

subsection \<open>Hexadecimal numbers\<close>

text \<open>\<open>format(n, "x")\<close> and \<open>format(n, "0\<dots>x")\<close>.\<close>

fun py_hex :: "nat \<Rightarrow> string" where
  "py_hex n = (if n < 16 then [hex_digit n] else py_hex (n div 16) @ [hex_digit (n mod 16)])"

declare py_hex.simps [simp del]

definition py_format_hex :: "nat \<Rightarrow> nat \<Rightarrow> string" where
  "py_format_hex width n = replicate (width - length (py_hex n)) (CHR ''0'') @ py_hex n"

text \<open>\<open>int(s, 16)\<close> on lower-case digits.\<close>

definition hex_value :: "char \<Rightarrow> nat" where
  "hex_value c = (let n = of_char c :: nat in if n < 58 then n - 48 else n - 87)"

definition py_int16 :: "string \<Rightarrow> nat" where
  "py_int16 s = foldl (\<lambda>n c. 16 * n + hex_value c) 0 s"

subsection \<open>\<open>TraceContextFilter\<close>\<close>

record span_context =
  sc_trace_id :: nat
  sc_span_id :: nat
  sc_is_valid :: bool

record log_record =
  lr_name :: string
  lr_levelno :: int
  lr_message :: string
  lr_trace_id :: "string option"
  lr_span_id :: "string option"

definition trace_filter :: "span_context \<Rightarrow> log_record \<Rightarrow> bool \<times> log_record" where
  "trace_filter ctx r =
     (True, r\<lparr>lr_trace_id := Some (if sc_is_valid ctx then py_format_hex 32 (sc_trace_id ctx) else ''-''),
              lr_span_id := Some (if sc_is_valid ctx then py_format_hex 16 (sc_span_id ctx) else ''-'')\<rparr>)"

subsection \<open>\<open>setup_logging\<close>\<close>

definition level_DEBUG :: int where "level_DEBUG = 10"
definition level_INFO :: int where "level_INFO = 20"
definition level_WARNING :: int where "level_WARNING = 30"

record handler_config =
  hc_stream :: string
  hc_formatter :: string
  hc_filters :: "string list"

text \<open>An entry under \<open>loggers\<close>; what is \<open>None\<close> is not given.\<close>

record logger_entry =
  le_level :: "int option"
  le_handlers :: "string list"
  le_propagate :: "bool option"

record logging_config =
  lg_disable_existing :: bool
  lg_handlers :: "(string \<times> handler_config) list"
  lg_root :: "int \<times> string list"
  lg_loggers :: "(string \<times> logger_entry) list"

definition logging_dict :: "settings \<Rightarrow> logging_config" where
  "logging_dict config =
     (let log_level = (if is_production config then level_INFO else level_DEBUG);
          propagating = \<lparr>le_level = None, le_handlers = [], le_propagate = Some True\<rparr>
      in \<lparr>lg_disable_existing = False,
          lg_handlers = [(''stdout'', \<lparr>hc_stream = ''ext://sys.stdout'',
             hc_formatter = (if is_production config then ''json'' else ''plain''),
             hc_filters = [''trace_context'']\<rparr>)],
          lg_root = (log_level, [''stdout'']),
          lg_loggers = [(''uvicorn'', propagating), (''uvicorn.access'', propagating),
             (''uvicorn.error'', propagating),
             (''sqlalchemy.engine'', propagating\<lparr>le_level := Some level_WARNING\<rparr>)]\<rparr>)"

text \<open>
  The loggers of the process: a level (0 is \<open>NOTSET\<close>), the names of the handlers attached,
  whether records are passed on to the parent, and whether the logger is disabled. The first
  component of \<open>logging_state\<close> is the root logger, which has no parent.
\<close>

record logger =
  lo_level :: int
  lo_handlers :: "string list"
  lo_propagate :: bool
  lo_disabled :: bool

type_synonym logging_state = "logger \<times> (string \<Rightarrow> logger)"

definition fresh_logger :: logger where
  "fresh_logger = \<lparr>lo_level = 0, lo_handlers = [], lo_propagate = True, lo_disabled = False\<rparr>"

text \<open>
  \<open>dictConfig\<close>: a configured logger loses the handlers it had, gets the ones listed, and its
  level and its \<open>propagate\<close> flag only when they are given; an existing logger that is not
  mentioned is disabled if the configuration says so.
\<close>

definition configure_logger :: "logger_entry \<Rightarrow> logger \<Rightarrow> logger" where
  "configure_logger e l =
     \<lparr>lo_level = (case le_level e of None \<Rightarrow> lo_level l | Some n \<Rightarrow> n), lo_handlers = le_handlers e,
      lo_propagate = (case le_propagate e of None \<Rightarrow> lo_propagate l | Some b \<Rightarrow> b), lo_disabled = False\<rparr>"

definition dict_config :: "logging_config \<Rightarrow> logging_state \<Rightarrow> logging_state" where
  "dict_config cfg st =
     ((fst st)\<lparr>lo_level := fst (lg_root cfg), lo_handlers := snd (lg_root cfg)\<rparr>,
      \<lambda>name. case map_of (lg_loggers cfg) name of
         Some e \<Rightarrow> configure_logger e (snd st name)
       | None \<Rightarrow> if lg_disable_existing cfg then (snd st name)\<lparr>lo_disabled := True\<rparr> else snd st name)"

definition setup_logging :: "settings \<Rightarrow> logging_state \<Rightarrow> logging_state" where
  "setup_logging config st = dict_config (logging_dict config) st"

subsection \<open>Where a record goes\<close>

text \<open>The parent of a dotted name, and a logger with its ancestors below the root.\<close>

definition logger_parent :: "string \<Rightarrow> string option" where
  "logger_parent name =
     (if CHR ''.'' \<in> set name then Some (rev (tl (dropWhile (\<lambda>c. c \<noteq> CHR ''.'') (rev name)))) else None)"

lemma logger_parent_shorter: "logger_parent name = Some p \<Longrightarrow> length p < length name"
proof -
  assume "logger_parent name = Some p"
  then have "name \<noteq> []" "p = rev (tl (dropWhile (\<lambda>c. c \<noteq> CHR ''.'') (rev name)))"
    by (auto simp: logger_parent_def split: if_splits)
  moreover have "length (dropWhile (\<lambda>c. c \<noteq> CHR ''.'') (rev name)) \<le> length name"
    by (metis length_dropWhile_le length_rev)
  moreover have "0 < length name" using \<open>name \<noteq> []\<close> by blast
  ultimately show ?thesis by (simp del: length_greater_0_conv)
qed

function logger_chain :: "string \<Rightarrow> string list" where
  "logger_chain name = name # (case logger_parent name of None \<Rightarrow> [] | Some p \<Rightarrow> logger_chain p)"
  by pat_completeness auto
termination
  by (relation "measure length") (auto simp: logger_parent_shorter)

declare logger_chain.simps [simp del]

text \<open>\<open>getEffectiveLevel\<close> and \<open>callHandlers\<close>, along the chain and then at the root.\<close>

fun effective_level :: "logging_state \<Rightarrow> string list \<Rightarrow> int" where
  "effective_level st [] = lo_level (fst st)"
| "effective_level st (n # ns) =
     (if lo_level (snd st n) \<noteq> 0 then lo_level (snd st n) else effective_level st ns)"

fun called_handlers :: "logging_state \<Rightarrow> string list \<Rightarrow> string list" where
  "called_handlers st [] = lo_handlers (fst st)"
| "called_handlers st (n # ns) =
     lo_handlers (snd st n) @ (if lo_propagate (snd st n) then called_handlers st ns else [])"

text \<open>The handlers that write a record of level \<open>lvl\<close> emitted on the logger \<open>name\<close>.\<close>

definition delivered :: "logging_state \<Rightarrow> string \<Rightarrow> int \<Rightarrow> string list" where
  "delivered st name lvl =
     (if lo_disabled (snd st name) \<or> lvl < effective_level st (logger_chain name) then []
      else called_handlers st (logger_chain name))"

text \<open>The line of the plain formatter.\<close>

definition plain_line :: "string \<Rightarrow> string \<Rightarrow> log_record \<Rightarrow> string" where
  "plain_line asctime levelname r =
     asctime @ '' '' @ lr_name r @ '' '' @ levelname @ '' ['' @
     (case lr_trace_id r of None \<Rightarrow> [] | Some t \<Rightarrow> t) @ ''] '' @ lr_message r"

subsection \<open>\<open>setup_tracing\<close>\<close>

datatype instrumentation =
    FastAPIInstrumentor string
  | HTTPXClientInstrumentor
  | RedisInstrumentor
  | SQLAlchemyInstrumentor

record tracer_setup =
  tr_service_name :: string
  tr_environment :: string
  tr_endpoint :: string
  tr_insecure :: bool
  tr_instrumented :: "instrumentation list"

definition setup_tracing :: "settings \<Rightarrow> tracer_setup option" where
  "setup_tracing config =
     (if \<not> otel_enabled config then None
      else Some \<lparr>tr_service_name = otel_service_name config, tr_environment = environment config,
                 tr_endpoint = otel_exporter_otlp_endpoint config, tr_insecure = True,
                 tr_instrumented = [FastAPIInstrumentor ''health'', HTTPXClientInstrumentor,
                   RedisInstrumentor, SQLAlchemyInstrumentor]\<rparr>)"

subsection \<open>Lemmas on identifiers\<close>

lemma hex_value_digit: "n < 16 \<Longrightarrow> hex_value (hex_digit n) = n"
proof -
  assume "n < 16"
  then have "n \<in> set [0..<16]" by simp
  moreover have "\<forall>n \<in> set [0..<16]. hex_value (hex_digit n) = n" by code_simp
  ultimately show ?thesis by blast
qed

lemma py_int16_append: "py_int16 (s @ [c]) = 16 * py_int16 s + hex_value c"
  by (simp add: py_int16_def)

lemma py_int16_hex: "py_int16 (py_hex n) = n"
proof (induction n rule: py_hex.induct)
  case (1 n)
  then show ?case
    by (cases "n < 16") (simp_all add: py_hex.simps [of n] py_int16_append hex_value_digit, simp add: py_int16_def hex_value_digit)
qed

lemma py_int16_zeros: "py_int16 (replicate k (CHR ''0'') @ s) = py_int16 s"
proof -
  have "foldl (\<lambda>n c. 16 * n + hex_value c) 0 (replicate k (CHR ''0'')) = 0"
    by (induction k) (simp_all add: hex_value_def)
  then show ?thesis by (simp add: py_int16_def)
qed

lemma py_int16_format: "py_int16 (py_format_hex width n) = n"
  by (simp add: py_format_hex_def py_int16_zeros py_int16_hex)

lemma py_hex_length: "n < 16 ^ Suc k \<Longrightarrow> length (py_hex n) \<le> Suc k"
proof (induction k arbitrary: n)
  case (Suc k)
  show ?case
  proof (cases "n < 16")
    case False
    have "n div 16 < 16 ^ Suc k" using Suc.prems by (simp add: less_mult_imp_div_less mult.commute)
    with Suc.IH False show ?thesis by (simp add: py_hex.simps [of n])
  qed (simp add: py_hex.simps [of n])
qed (simp add: py_hex.simps)

lemma py_format_hex_length: "n < 16 ^ Suc k \<Longrightarrow> length (py_format_hex (Suc k) n) = Suc k"
  using py_hex_length by (simp add: py_format_hex_def)

subsection \<open>Lemmas on delivery\<close>

abbreviation configured :: "string set" where
  "configured \<equiv> {''uvicorn'', ''uvicorn.access'', ''uvicorn.error'', ''sqlalchemy.engine''}"

lemma setup_logging_root:
  "lo_handlers (fst (setup_logging config st)) = [''stdout'']"
  "lo_level (fst (setup_logging config st)) = (if is_production config then level_INFO else level_DEBUG)"
  by (simp_all add: setup_logging_def dict_config_def logging_dict_def Let_def)

lemma setup_logging_other: "n \<notin> configured \<Longrightarrow> snd (setup_logging config st) n = snd st n"
  by (simp add: setup_logging_def dict_config_def logging_dict_def Let_def)

lemma setup_logging_configured:
  assumes "n \<in> configured"
  shows "snd (setup_logging config st) n = \<lparr>lo_level = (if n = ''sqlalchemy.engine'' then level_WARNING else lo_level (snd st n)),
    lo_handlers = [], lo_propagate = True, lo_disabled = False\<rparr>"
  using assms by (auto simp: setup_logging_def dict_config_def logging_dict_def configure_logger_def Let_def)

text \<open>No logger but the configured ones was touched before start-up: uvicorn sets up its own.\<close>

definition untouched :: "logging_state \<Rightarrow> bool" where
  "untouched st \<longleftrightarrow> (\<forall>n. n \<notin> configured \<longrightarrow> snd st n = fresh_logger)"

lemma setup_logging_quiet:
  assumes "untouched st"
  shows "lo_handlers (snd (setup_logging config st) n) = []" "lo_propagate (snd (setup_logging config st) n)"
    "\<not> lo_disabled (snd (setup_logging config st) n)"
    "n \<notin> configured \<Longrightarrow> lo_level (snd (setup_logging config st) n) = 0"
    "lo_level (snd (setup_logging config st) ''sqlalchemy.engine'') = level_WARNING"
  using assms setup_logging_other [of n config st] setup_logging_configured [of n config st]
    setup_logging_configured [of "''sqlalchemy.engine''" config st]
  by (cases "n \<in> configured"; simp add: untouched_def fresh_logger_def)+

lemma called_once: "untouched st \<Longrightarrow> called_handlers (setup_logging config st) ns = [''stdout'']"
  by (induction ns) (simp_all add: setup_logging_quiet setup_logging_root)

lemma effective_root:
  "untouched st \<Longrightarrow> set ns \<inter> configured = {} \<Longrightarrow>
   effective_level (setup_logging config st) ns = (if is_production config then level_INFO else level_DEBUG)"
proof (induction ns)
  case (Cons n ns)
  then have "n \<notin> configured" by auto
  from setup_logging_quiet(4) [OF Cons.prems(1) this] Cons show ?case by simp
qed (simp add: setup_logging_root)

lemma effective_engine:
  "untouched st \<Longrightarrow> set ns \<inter> configured = {} \<Longrightarrow>
   effective_level (setup_logging config st) (ns @ ''sqlalchemy.engine'' # ms) = level_WARNING"
proof (induction ns)
  case (Cons n ns)
  then have "n \<notin> configured" by auto
  from setup_logging_quiet(4) [OF Cons.prems(1) this] Cons show ?case by simp
qed (simp add: setup_logging_quiet, simp add: level_WARNING_def)

lemma delivered_setup:
  "untouched st \<Longrightarrow> delivered (setup_logging config st) name lvl =
    (if lvl < effective_level (setup_logging config st) (logger_chain name) then [] else [''stdout''])"
  by (simp add: delivered_def called_once setup_logging_quiet)

lemma logger_chain_engine:
  assumes "CHR ''.'' \<notin> set s"
  shows "logger_chain (''sqlalchemy.engine.'' @ s) =
    (''sqlalchemy.engine.'' @ s) # logger_chain ''sqlalchemy.engine''"
proof -
  have "dropWhile (\<lambda>c. c \<noteq> CHR ''.'') (rev s @ CHR ''.'' # r) = CHR ''.'' # r" for r
    using assms by (subst dropWhile_append2) auto
  then have "logger_parent (''sqlalchemy.engine.'' @ s) = Some ''sqlalchemy.engine''"
    by (simp add: logger_parent_def)
  then show ?thesis by (subst logger_chain.simps) (simp only: option.case)
qed

subsection \<open>Correctness properties\<close>

text \<open>
  Trace ids round trip. The ids the filter stamps on a record are 32 and 16 digits long
  for ids of 128 and 64 bits, and the span's ids can be read back from them, so distinct traces
  never share an id in the log.
\<close>

theorem trace_ids_roundtrip:
  assumes "sc_is_valid ctx" and "sc_trace_id ctx < 2 ^ 128" and "sc_span_id ctx < 2 ^ 64"
    and "trace_filter ctx r = (keep, r')"
  shows "keep \<and> (\<exists>t s. lr_trace_id r' = Some t \<and> lr_span_id r' = Some s \<and> length t = 32 \<and> length s = 16 \<and>
    py_int16 t = sc_trace_id ctx \<and> py_int16 s = sc_span_id ctx)"
proof -
  have "sc_trace_id ctx < 16 ^ Suc 31" "sc_span_id ctx < 16 ^ Suc 15" using assms(2,3) by simp_all
  from py_format_hex_length [OF this(1)] py_format_hex_length [OF this(2)]
  have "length (py_format_hex 32 (sc_trace_id ctx)) = 32" "length (py_format_hex 16 (sc_span_id ctx)) = 16" by simp_all
  with assms(1,4) show ?thesis by (auto simp: trace_filter_def py_int16_format)
qed

text \<open>
  Where log records go. After \<open>setup_logging\<close>, whatever handlers and levels uvicorn had
  installed on its own loggers, a record is written to standard output at most once, never twice:
  records of the application's own loggers exactly when they reach INFO in production and DEBUG
  elsewhere; records of the SQL engine, also of its sub-loggers, exactly when they are at least
  warnings (\<open>db_echo\<close>, with which SQLAlchemy bypasses the level of its loggers, being off);
  records of uvicorn unless its own level suppresses them.
\<close>

theorem log_delivery:
  assumes "untouched st"
  shows "(set (logger_chain name) \<inter> configured = {} \<longrightarrow>
      delivered (setup_logging config st) name lvl =
        (if (if is_production config then level_INFO else level_DEBUG) \<le> lvl then [''stdout''] else [])) \<and>
    (CHR ''.'' \<notin> set s \<longrightarrow>
      delivered (setup_logging config st) (''sqlalchemy.engine.'' @ s) lvl =
        (if level_WARNING \<le> lvl then [''stdout''] else [])) \<and>
    (name \<in> {''uvicorn'', ''uvicorn.access'', ''uvicorn.error''} \<and> lo_level (snd st name) \<noteq> 0 \<longrightarrow>
      delivered (setup_logging config st) name lvl =
        (if lo_level (snd st name) \<le> lvl then [''stdout''] else []))"
proof (intro conjI impI)
  assume "set (logger_chain name) \<inter> configured = {}"
  then show "delivered (setup_logging config st) name lvl =
      (if (if is_production config then level_INFO else level_DEBUG) \<le> lvl then [''stdout''] else [])"
    using assms by (simp add: delivered_setup effective_root not_less)
next
  assume dot: "CHR ''.'' \<notin> set s"
  have chain: "logger_chain ''sqlalchemy.engine'' = ''sqlalchemy.engine'' # logger_chain ''sqlalchemy''"
    by (simp add: logger_chain.simps [of "''sqlalchemy.engine''"] logger_parent_def)
  have "effective_level (setup_logging config st)
      ([''sqlalchemy.engine.'' @ s] @ ''sqlalchemy.engine'' # logger_chain ''sqlalchemy'') = level_WARNING"
    by (rule effective_engine [OF assms]) auto
  then have "effective_level (setup_logging config st) (logger_chain (''sqlalchemy.engine.'' @ s)) = level_WARNING"
    unfolding logger_chain_engine [OF dot] chain by (simp only: append_Cons append_Nil)
  then show "delivered (setup_logging config st) (''sqlalchemy.engine.'' @ s) lvl = (if level_WARNING \<le> lvl then [''stdout''] else [])"
    using assms by (simp add: delivered_setup not_less)
next
  assume u: "name \<in> {''uvicorn'', ''uvicorn.access'', ''uvicorn.error''} \<and> lo_level (snd st name) \<noteq> 0"
  then have "lo_level (snd (setup_logging config st) name) = lo_level (snd st name)"
    using setup_logging_configured [of name config st] by auto
  with u have "effective_level (setup_logging config st) (logger_chain name) = lo_level (snd st name)"
    by (simp add: logger_chain.simps [of name])
  then show "delivered (setup_logging config st) name lvl = (if lo_level (snd st name) \<le> lvl then [''stdout''] else [])"
    using assms by (simp add: delivered_setup not_less)
qed

subsection \<open>Instances\<close>

definition sample_span :: span_context where
  "sample_span = \<lparr>sc_trace_id = 255, sc_span_id = 16, sc_is_valid = True\<rparr>"

definition sample_record :: log_record where
  "sample_record = \<lparr>lr_name = ''app'', lr_levelno = 20, lr_message = ''hi'', lr_trace_id = None, lr_span_id = None\<rparr>"

theorem trace_ids_roundtrip_witness:
  "\<exists>t s. lr_trace_id (snd (trace_filter sample_span sample_record)) = Some t \<and>
     lr_span_id (snd (trace_filter sample_span sample_record)) = Some s \<and>
     length t = 32 \<and> py_int16 t = 255 \<and> py_int16 s = 16"
proof -
  obtain keep r' where f: "trace_filter sample_span sample_record = (keep, r')" by fastforce
  from trace_ids_roundtrip [OF _ _ _ f] f show ?thesis by (auto simp: sample_span_def)
qed

text \<open>uvicorn as it starts: its own handlers, no propagation.\<close>

definition uvicorn_loggers :: logging_state where
  "uvicorn_loggers = (fresh_logger\<lparr>lo_level := level_WARNING\<rparr>,
     \<lambda>n. if n = ''uvicorn'' then \<lparr>lo_level = 20, lo_handlers = [''default''], lo_propagate = False, lo_disabled = False\<rparr>
         else if n = ''uvicorn.access'' then \<lparr>lo_level = 20, lo_handlers = [''access''], lo_propagate = False, lo_disabled = False\<rparr>
         else if n = ''uvicorn.error'' then \<lparr>lo_level = 20, lo_handlers = [], lo_propagate = True, lo_disabled = False\<rparr>
         else fresh_logger)"

theorem log_delivery_witness:
  "delivered (setup_logging (default_settings ''db'' ''admin'') uvicorn_loggers) ''app.main'' 10 = [''stdout''] \<and>
   delivered (setup_logging (default_settings ''db'' ''admin'') uvicorn_loggers) ''sqlalchemy.engine.Engine'' 20 = [] \<and>
   delivered (setup_logging (default_settings ''db'' ''admin'') uvicorn_loggers) ''uvicorn.access'' 20 = [''stdout'']"
proof -
  have u: "untouched uvicorn_loggers" by (simp add: untouched_def uvicorn_loggers_def)
  have "set (logger_chain ''app.main'') \<inter> configured = {}"
    by (simp add: logger_chain.simps logger_parent_def)
  with log_delivery [OF u, of "''app.main''" "default_settings ''db'' ''admin''" 10]
    log_delivery [OF u, of "''uvicorn.access''" "default_settings ''db'' ''admin''" 20 "''Engine''"]
  show ?thesis
    by (simp add: uvicorn_loggers_def is_production_def default_settings_def level_DEBUG_def level_WARNING_def)
qed

end
