(* ===== verification/Relayix_System.thy ===== *)
theory Relayix_System
  imports Http_Api Observability
begin

text \<open>
  The process as a whole: what \<open>lifespan\<close> of \<open>app/main.py\<close> builds at start-up, and the
  wiring of a request by \<open>app/api/deps.py\<close>, over one state: Redis with the claims, around the
  breakers and the execution counter, around the session of the request and the rest of the
  process, which holds the limiter's breaker and buckets. Everything outside the program (SDKs,
  clocks, other tasks, Redis traffic of others, commits that fail) is a field of a \<open>host\<close>.
\<close>

subsection \<open>The state\<close>

text \<open>
  \<open>pr_hashes\<close> are the token buckets in Redis, which the limiter's script works on;
  \<open>pr_env\<close> is whatever else the host has, for one the readings of its clocks.
\<close>

record 'z process =
  pr_limiter_breaker :: circuit_breaker
  pr_buckets :: buckets
  pr_hashes :: redis_hashes
  pr_env :: 'z

type_synonym 'z app_world = "(session \<times> 'z process) world"
type_synonym 'z system = "'z app_world redis_world"

definition system_session :: "'z system \<Rightarrow> session" where
  "system_session w = fst (outer (rw_app w))"

definition process_of :: "'z system \<Rightarrow> 'z process" where
  "process_of w = snd (outer (rw_app w))"

definition on_session :: "(session \<Rightarrow> session) \<Rightarrow> 'z system \<Rightarrow> 'z system" where
  "on_session f w = w\<lparr>rw_app := (rw_app w)\<lparr>outer := (f (system_session w), process_of w)\<rparr>\<rparr>"

definition on_process :: "('z process \<Rightarrow> 'z process) \<Rightarrow> 'z system \<Rightarrow> 'z system" where
  "on_process f w = w\<lparr>rw_app := (rw_app w)\<lparr>outer := (system_session w, f (process_of w))\<rparr>\<rparr>"

subsection \<open>The host\<close>

text \<open>
  The code outside the repository and the interference of others: the clocks, what other tasks do
  to the process while Redis is asked, the SDK calls and what happens while they are awaited, what
  becomes of the claims in Redis, of its clock and of the server meanwhile, the hash functions,
  the readings of the wall clock by the recorder, and whether a commit fails.
\<close>

type_synonym redis_part = "(string \<Rightarrow> (idem_value \<times> seconds) option) \<times> seconds \<times> bool"

record 'z host =
  h_monotonic :: "'z \<Rightarrow> seconds"
  h_wall :: "'z \<Rightarrow> seconds"
  h_tasks :: "'z process \<Rightarrow> 'z process"
  h_openai :: "string \<Rightarrow> seconds \<Rightarrow> (openai_params, openai_raw, 'z process) sdk_call"
  h_openai_stream :: "string \<Rightarrow> seconds \<Rightarrow> openai_params \<Rightarrow> openai_chunk sdk_stream"
  h_anthropic :: "string \<Rightarrow> seconds \<Rightarrow> (anthropic_params, anthropic_raw, 'z process) sdk_call"
  h_anthropic_stream :: "string \<Rightarrow> seconds \<Rightarrow> anthropic_params \<Rightarrow> anthropic_event sdk_stream"
  h_io :: "'z process awaiting"
  h_meanwhile :: "'z system \<Rightarrow> redis_part"
  h_hash_api_key :: "string \<Rightarrow> string"
  h_fingerprint_digest :: "fingerprint_payload \<Rightarrow> string"
  h_rate_time :: "'z process \<Rightarrow> datetime"
  h_record_time :: "'z process \<Rightarrow> datetime"
  h_commit_error :: "'z system \<Rightarrow> exn option"

text \<open>SDK calls and awaits do not reach the session, which belongs to the request.\<close>

definition sdk_on_process ::
  "('p, 'raw, 'z process) sdk_call \<Rightarrow> ('p, 'raw, session \<times> 'z process) sdk_call" where
  "sdk_on_process call params x =
     (case x of (bs, (s, p)) \<Rightarrow> case call params (bs, p) of (r, (bs', p')) \<Rightarrow> (r, (bs', (s, p'))))"

definition io_on_process :: "'z process awaiting \<Rightarrow> (session \<times> 'z process) awaiting" where
  "io_on_process io x = (case x of (bs, (s, p)) \<Rightarrow> case io (bs, p) of (bs', p') \<Rightarrow> (bs', (s, p')))"

definition host_clock :: "'z host \<Rightarrow> session \<times> 'z process \<Rightarrow> seconds" where
  "host_clock h x = h_monotonic h (pr_env (snd x))"

definition meanwhile :: "'z host \<Rightarrow> 'z system \<Rightarrow> 'z system" where
  "meanwhile h w = (case h_meanwhile h w of (kv, now, up) \<Rightarrow> w\<lparr>rw_kv := kv, rw_now := now, rw_up := up\<rparr>)"

subsection \<open>The limiter of the process\<close>

text \<open>The Redis client of the limiter: a script runs on the server, which may be down.\<close>

definition system_script_call :: "'z system script_call" where
  "system_script_call k script w =
     (if \<not> rw_up w then (Inl (OSError [Lit ''connection refused'']), w)
      else case server_script_call (rw_now w) k script (pr_hashes (process_of w)) of
             (r, hs) \<Rightarrow> (r, on_process (pr_hashes_update (\<lambda>_. hs)) w))"

text \<open>
  The two limiters as the resilient one calls them, with the breaker beside the state. Other
  tasks run while Redis is asked, and may move the shared breaker.
\<close>

definition redis_limiter :: "'z host \<Rightarrow> 'z system check" where
  "redis_limiter h key rpm s =
     (case s of (cb, w) \<Rightarrow>
        case redis_check system_script_call (h_wall h (pr_env (process_of w))) key rpm w of
          (r, w') \<Rightarrow>
            (let w'' = on_process (\<lambda>p. h_tasks h (p\<lparr>pr_limiter_breaker := cb\<rparr>)) w'
             in (r, (pr_limiter_breaker (process_of w''), w''))))"

definition memory_limiter :: "'z host \<Rightarrow> 'z system check" where
  "memory_limiter h key rpm s =
     (case s of (cb, w) \<Rightarrow>
        case in_memory_check (h_monotonic h (pr_env (process_of w))) key rpm (pr_buckets (process_of w)) of
          (r, bs) \<Rightarrow> (r, (cb, on_process (pr_buckets_update (\<lambda>_. bs)) w)))"

subsection \<open>Start-up\<close>

record 'z app_state =
  as_logging :: logging_state
  as_registry :: "(sdk_gen ra_gen, 'z app_world) registry_map"
  as_router :: routing_service
  as_pricing :: pricing_table
  as_rate_limiter :: "'z system check"

definition host_registry ::
  "'z host \<Rightarrow> settings \<Rightarrow> 'z app_world \<Rightarrow> (sdk_gen ra_gen, 'z app_world) registry_map \<times> 'z app_world" where
  "host_registry h config w = build_registry (host_clock h)
     (\<lambda>key t. openai_adapter (sdk_on_process (h_openai h key t)) (h_openai_stream h key t) (io_on_process (h_io h)))
     (\<lambda>key t. anthropic_adapter (sdk_on_process (h_anthropic h key t)) (h_anthropic_stream h key t)
        (io_on_process (h_io h)))
     config w"

text \<open>
  \<open>lifespan\<close> up to its \<open>yield\<close>: logging, the registry, the router, the pricing table from the
  database, and the limiter with an empty in-memory bucket and its own closed breaker.
\<close>

definition lifespan ::
  "'z host \<Rightarrow> settings \<Rightarrow> logging_state \<Rightarrow> 'z app_world \<Rightarrow> 'z app_state result \<times> 'z app_world" where
  "lifespan h config loggers w =
     (let logging = setup_logging config loggers;
          (registry, w1) = host_registry h config w
      in case build_router None None None None of
           Inl e \<Rightarrow> (Inl e, w1)
         | Inr router \<Rightarrow>
             (case load_pricing_rates (ss_db (fst (outer w1))) of
                Inl e \<Rightarrow> (Inl e, w1)
              | Inr rates \<Rightarrow>
                  (Inr \<lparr>as_logging = logging, as_registry = registry, as_router = router,
                        as_pricing = build_pricing_table rates,
                        as_rate_limiter = resilient_check (\<lambda>w. h_monotonic h (pr_env (process_of w)))
                          (redis_limiter h) (memory_limiter h)\<rparr>,
                   w1\<lparr>outer := (fst (outer w1), (snd (outer w1))\<lparr>pr_buckets := Map.empty,
                       pr_limiter_breaker := cb_init (ratelimit_breaker_fail_threshold config)
                         (ratelimit_breaker_reset_timeout_s config)\<rparr>)\<rparr>)))"

record 'z deployment =
  dp_host :: "'z host"
  dp_config :: settings
  dp_app :: "'z app_state"

text \<open>A process that came up.\<close>

definition started :: "'z deployment \<Rightarrow> bool" where
  "started d \<longleftrightarrow> (\<exists>loggers w w'. lifespan (dp_host d) (dp_config d) loggers w = (Inr (dp_app d), w'))"

subsection \<open>The dependencies of a request\<close>

text \<open>The request-scoped repository, on the outer part of the world.\<close>

definition repo_save :: "usage_record \<Rightarrow> session \<times> 'y \<Rightarrow> unit result \<times> (session \<times> 'y)" where
  "repo_save r x = (case session_save r (fst x) of (res, s) \<Rightarrow> (res, (s, snd x)))"

definition get_registry :: "'z deployment \<Rightarrow> (sdk_gen ra_gen, 'z app_world) registry_map" where
  "get_registry d = as_registry (dp_app d)"

definition get_pricing_table :: "'z deployment \<Rightarrow> pricing_table" where
  "get_pricing_table d = as_pricing (dp_app d)"

definition get_router :: "'z deployment \<Rightarrow> routing_service" where
  "get_router d = as_router (dp_app d)"

definition get_usage_recorder :: "'z deployment \<Rightarrow> 'z app_world recorder" where
  "get_usage_recorder d = gw_recorder repo_save (get_pricing_table d)
     (\<lambda>x. h_rate_time (dp_host d) (snd x)) (\<lambda>x. h_record_time (dp_host d) (snd x))"

definition get_idempotency_service :: "'z deployment \<Rightarrow> 'z system idem_port" where
  "get_idempotency_service d = redis_port (server_store (idempotency_inflight_ttl_s (dp_config d))
     (idempotency_ttl_s (dp_config d)))"

text \<open>The process-wide limiter; its breaker is part of the state of the process.\<close>

definition get_rate_limiter :: "'z deployment \<Rightarrow> uuid \<Rightarrow> int \<Rightarrow> 'z system \<Rightarrow> unit result \<times> 'z system" where
  "get_rate_limiter d key rpm w =
     (case as_rate_limiter (dp_app d) key rpm (pr_limiter_breaker (process_of w), w) of
        (r, (cb, w')) \<Rightarrow> (r, on_process (pr_limiter_breaker_update (\<lambda>_. cb)) w'))"

text \<open>\<open>get_session\<close>: a commit that fails is rolled back.\<close>

definition get_session :: "'z deployment \<Rightarrow> 'z system session_env" where
  "get_session d = \<lparr>se_database = (\<lambda>w. ss_db (system_session w)),
     se_commit = (\<lambda>w. case h_commit_error (dp_host d) w of
        None \<Rightarrow> on_session session_commit w | Some e \<Rightarrow> on_session session_rollback w),
     se_rollback = on_session session_rollback\<rparr>"

text \<open>A call of the gateway inside the process; Redis does not stand still until it returns.\<close>

definition in_process :: "'z host \<Rightarrow> ('z app_world \<Rightarrow> 'a \<times> 'z app_world) \<Rightarrow> 'z system \<Rightarrow> 'a \<times> 'z system" where
  "in_process h f w = (case f (rw_app w) of (x, a) \<Rightarrow> (x, meanwhile h (w\<lparr>rw_app := a\<rparr>)))"

type_synonym 'z gateway_gen = "(sdk_gen ra_gen, 'z app_world) drain_gen"

definition get_gateway_service :: "'z deployment \<Rightarrow> ('z gateway_gen, 'z system) chat_services" where
  "get_gateway_service d =
     \<lparr>cs_complete = (\<lambda>request k. in_process (dp_host d)
        (gw_complete (get_registry d) (get_router d) (get_usage_recorder d) request k)),
      cs_stream = (\<lambda>request k. in_process (dp_host d) (gw_stream (get_registry d) (get_router d) request)),
      cs_anext = (\<lambda>k g. in_process (dp_host d) (drain_anext (get_usage_recorder d) k g)),
      cs_aclose = (\<lambda>g w. (drain_aclose g, w)),
      cs_store = get_idempotency_service d\<rparr>"

definition authenticate :: "'z deployment \<Rightarrow> string option \<Rightarrow> 'z system \<Rightarrow> api_key result" where
  "authenticate d authorization w =
     get_current_api_key (h_hash_api_key (dp_host d)) authorization (ss_db (system_session w))"

definition throttle :: "'z deployment \<Rightarrow> api_key \<Rightarrow> 'z system \<Rightarrow> unit result \<times> 'z system" where
  "throttle d k w = enforce_rate_limit (dp_config d) (get_rate_limiter d) k w"

definition serve_chat ::
  "'z deployment \<Rightarrow> string option \<Rightarrow> string option \<Rightarrow> chat_payload \<Rightarrow> 'z system
   \<Rightarrow> 'z gateway_gen completion reply \<times> 'z system" where
  "serve_chat d authorization idempotency_key payload =
     post_completions (dp_config d) (h_hash_api_key (dp_host d)) (h_fingerprint_digest (dp_host d))
       (get_session d) (get_rate_limiter d) (get_gateway_service d) authorization idempotency_key payload"

text \<open>The server sends the events of a streamed response to the end.\<close>

definition serve_events ::
  "'z deployment \<Rightarrow> chat_payload \<Rightarrow> api_key \<Rightarrow> nat \<Rightarrow> 'z gateway_gen events \<Rightarrow> 'z system
   \<Rightarrow> (sse_frame list \<times> exn option option) \<times> 'z system" where
  "serve_events d payload k =
     send_events (get_session d) (events_anext (get_gateway_service d) (h_fingerprint_digest (dp_host d))
       (chat_to_domain payload) (ak_id k))"

subsection \<open>Parts of the state\<close>

lemma on_session_simps [simp]:
  "system_session (on_session f w) = f (system_session w)" "process_of (on_session f w) = process_of w"
  "executions (rw_app (on_session f w)) = executions (rw_app w)" "breakers (rw_app (on_session f w)) = breakers (rw_app w)"
  "stored_value (on_session f w) k key = stored_value w k key" "rw_up (on_session f w) = rw_up w"
  "rw_now (on_session f w) = rw_now w" "rw_kv (on_session f w) = rw_kv w"
  by (simp_all add: on_session_def system_session_def process_of_def stored_value_def live_def split: option.splits)

lemma on_process_simps [simp]:
  "system_session (on_process f w) = system_session w" "process_of (on_process f w) = f (process_of w)"
  "executions (rw_app (on_process f w)) = executions (rw_app w)" "breakers (rw_app (on_process f w)) = breakers (rw_app w)"
  "stored_value (on_process f w) k key = stored_value w k key" "rw_up (on_process f w) = rw_up w"
  "rw_now (on_process f w) = rw_now w" "rw_kv (on_process f w) = rw_kv w"
  by (simp_all add: on_process_def system_session_def process_of_def stored_value_def live_def split: option.splits)

lemma on_session_same: "f (system_session w) = system_session w \<Longrightarrow> on_session f w = w"
  by (simp add: on_session_def system_session_def process_of_def)

lemma on_process_twice: "on_process f (on_process g w) = on_process (\<lambda>p. f (g p)) w"
  by (simp add: on_process_def process_of_def system_session_def)

lemma meanwhile_app [simp]: "rw_app (meanwhile h w) = rw_app w"
  by (simp add: meanwhile_def split: prod.splits)

text \<open>
  What a step of the limiter may touch: the process, and nothing of the session, the claims, the
  breakers of the providers and the counter.
\<close>

definition only_process :: "'z system \<Rightarrow> 'z system \<Rightarrow> bool" where
  "only_process w w' \<longleftrightarrow> system_session w' = system_session w \<and> executions (rw_app w') = executions (rw_app w) \<and>
     breakers (rw_app w') = breakers (rw_app w) \<and> rw_up w' = rw_up w \<and> rw_now w' = rw_now w \<and> rw_kv w' = rw_kv w"

lemma only_process_refl [simp]: "only_process w w"
  by (simp add: only_process_def)

lemma only_process_trans [trans]: "only_process w w1 \<Longrightarrow> only_process w1 w2 \<Longrightarrow> only_process w w2"
  by (simp add: only_process_def)

lemma only_process_on [simp]: "only_process w (on_process f w') \<longleftrightarrow> only_process w w'"
  by (simp add: only_process_def)

lemma only_process_stored: "only_process w w' \<Longrightarrow> stored_value w' k key = stored_value w k key"
  by (simp add: only_process_def stored_value_def live_def split: option.split)

text \<open>A limiter that touches nothing but the process.\<close>

locale process_limiter =
  fixes check :: "'z system check"
  assumes check_process: "check key rpm (cb, w) = (r, (cb', w')) \<Longrightarrow> only_process w w'"

interpretation redis_proc: process_limiter "redis_limiter h" for h
proof unfold_locales
  fix key rpm cb r cb' and w w' :: "'a system"
  assume "redis_limiter h key rpm (cb, w) = (r, (cb', w'))"
  then show "only_process w w'"
    by (auto simp: redis_limiter_def redis_check_def system_script_call_def Let_def
        split: prod.splits sum.splits if_splits)
qed

interpretation memory_proc: process_limiter "memory_limiter h" for h
  by unfold_locales (auto simp: memory_limiter_def split: prod.splits)

lemma resilient_process:
  assumes "process_limiter primary" and "process_limiter fallback"
  shows "process_limiter (resilient_check clock primary fallback)"
proof unfold_locales
  fix key rpm cb r cb' w w'
  assume run: "resilient_check clock primary fallback key rpm (cb, w) = (r, (cb', w'))"
  note p = process_limiter.check_process [OF assms(1)] and f = process_limiter.check_process [OF assms(2)]
  obtain al g cb1 where a: "cb_allow (clock w) cb = ((al, g), cb1)" by (metis prod.collapse)
  obtain x cb2 w2 where c: "primary key rpm (cb1, w) = (x, (cb2, w2))" by (metis prod.collapse)
  show "only_process w w'"
  proof (cases "al \<and> x = Inl RateLimiterUnavailable")
    case True
    with run a c have "fallback key rpm (cb_record_failure (clock w2) g cb2, w2) = (r, (cb', w'))"
      by (simp add: resilient_check_def)
    from p [OF c] f [OF this] show ?thesis by (rule only_process_trans)
  next
    case False
    then show ?thesis
      using run a p [OF c] c by (auto simp: resilient_check_def dest: f split: sum.splits exn.splits if_splits)
  qed
qed

subsection \<open>A process that came up\<close>

abbreviation host_sdks_registry :: "'z host \<Rightarrow> settings \<Rightarrow> 'z app_world \<Rightarrow> (sdk_gen ra_gen, 'z app_world) registry_map" where
  "host_sdks_registry h config w \<equiv> deployed_registry (host_clock h)
     (\<lambda>key t. sdk_on_process (h_openai h key t)) (h_openai_stream h)
     (\<lambda>key t. sdk_on_process (h_anthropic h key t)) (h_anthropic_stream h) (io_on_process (h_io h)) config w"

lemma lifespan_Inr:
  assumes "lifespan h config loggers w = (Inr st, w')"
  obtains rates where "as_logging st = setup_logging config loggers"
    "as_registry st = host_sdks_registry h config w" "build_router None None None None = Inr (as_router st)"
    "load_pricing_rates (ss_db (fst (outer (snd (host_registry h config w))))) = Inr rates"
    "as_pricing st = build_pricing_table rates"
    "as_rate_limiter st = resilient_check (\<lambda>w. h_monotonic h (pr_env (process_of w))) (redis_limiter h) (memory_limiter h)"
proof -
  obtain reg w1 where hr: "host_registry h config w = (reg, w1)" by fastforce
  then have reg: "reg = host_sdks_registry h config w"
    by (simp add: host_registry_def deployed_registry_def)
  from assms hr obtain router rates where "build_router None None None None = Inr router"
    "load_pricing_rates (ss_db (fst (outer w1))) = Inr rates"
    "st = \<lparr>as_logging = setup_logging config loggers, as_registry = reg, as_router = router,
       as_pricing = build_pricing_table rates,
       as_rate_limiter = resilient_check (\<lambda>w. h_monotonic h (pr_env (process_of w))) (redis_limiter h) (memory_limiter h)\<rparr>"
    by (auto simp: lifespan_def Let_def split: sum.splits)
  then show ?thesis by (intro that [of rates]) (simp_all add: hr reg)
qed

lemma startedE:
  assumes "started d"
  obtains w where "get_registry d = host_sdks_registry (dp_host d) (dp_config d) w"
    "build_router None None None None = Inr (get_router d)"
    "as_rate_limiter (dp_app d) = resilient_check (\<lambda>w. h_monotonic (dp_host d) (pr_env (process_of w)))
       (redis_limiter (dp_host d)) (memory_limiter (dp_host d))"
proof -
  from assms obtain loggers w w' where "lifespan (dp_host d) (dp_config d) loggers w = (Inr (dp_app d), w')"
    unfolding started_def by blast
  from lifespan_Inr [OF this] that show ?thesis by (simp add: get_registry_def get_router_def) blast
qed

lemma throttle_process:
  assumes "started d" and "throttle d k w = (x, w')"
  shows "only_process w w'"
proof -
  have "process_limiter (as_rate_limiter (dp_app d))"
    using startedE [OF assms(1)]
    by (metis resilient_process redis_proc.process_limiter_axioms memory_proc.process_limiter_axioms)
  from process_limiter.check_process [OF this] assms(2) show ?thesis
    by (auto simp: throttle_def enforce_rate_limit_def get_rate_limiter_def split: prod.splits)
qed

lemma throttleD:
  assumes "started d" and "throttle d k w = (x, w')"
  shows "system_session w' = system_session w" "executions (rw_app w') = executions (rw_app w)"
    "rw_up w' = rw_up w" "stored_value w' k' key = stored_value w k' key"
  using throttle_process [OF assms] only_process_stored by (auto simp: only_process_def)

text \<open>No provider call touches the session.\<close>

lemma counted_session: "counted (sdk_on_process call) ps w = (r, w') \<Longrightarrow> fst (outer w') = fst (outer w)"
  by (auto simp: counted_def sdk_on_process_def count_execution_def Let_def split: prod.splits)

lemma calls_keep_session:
  assumes "started d" and "get_registry d p = Some a" and "ad_complete a rq u = (x, v)"
  shows "fst (outer v) = fst (outer u)"
proof -
  obtain w where reg: "host_sdks_registry (dp_host d) (dp_config d) w p = Some a"
    using startedE [OF assms(1)] assms(2) by metis
  from deployed_adapter [OF reg] obtain inner key where a: "a = resilient_adapter (host_clock (dp_host d)) (provider_timeout_s (dp_config d)) p inner"
    and inner: "inner = openai_adapter (sdk_on_process (h_openai (dp_host d) key (provider_timeout_s (dp_config d))))
         (h_openai_stream (dp_host d) key (provider_timeout_s (dp_config d))) (io_on_process (h_io (dp_host d))) \<and> p = OPENAI \<or>
       inner = anthropic_adapter (sdk_on_process (h_anthropic (dp_host d) key (provider_timeout_s (dp_config d))))
         (h_anthropic_stream (dp_host d) key (provider_timeout_s (dp_config d))) (io_on_process (h_io (dp_host d))) \<and> p = ANTHROPIC"
    by metis
  have "fst (outer w') = fst (outer w)" if "ad_complete inner rq w = (r, w')" for w r w'
    using inner that by (auto simp: openai_adapter_def anthropic_adapter_def openai_complete_def anthropic_complete_def
        dest!: counted_session split: prod.splits sum.splits if_splits)
  then show ?thesis
    using assms(3) unfolding a by (auto simp: resilient_adapter_def ra_complete_def Let_def split: prod.splits sum.splits if_splits)
qed

interpretation request_sink: usage_sink repo_save "\<lambda>x. session_stored (fst x)"
proof unfold_locales
  fix r e and x x' :: "session \<times> 'y"
  show "repo_save r x = (Inr (), x') \<Longrightarrow> session_stored (fst x') = session_stored (fst x) @ [r]"
    by (auto simp: repo_save_def dest: session_sink.save_ok split: prod.splits)
  show "repo_save r x = (Inl e, x') \<Longrightarrow> session_stored (fst x') = session_stored (fst x)"
    by (auto simp: repo_save_def dest: session_sink.save_failed split: prod.splits)
qed

lemma repo_save_errors: "repo_save r x = (Inl e, x') \<Longrightarrow> \<not> is_AppError e"
  by (auto simp: repo_save_def dest: session_save_errors split: prod.splits)

lemma repo_save_db: "repo_save r x = (res, x') \<Longrightarrow> ss_db (fst x') = ss_db (fst x)"
  by (auto simp: repo_save_def session_save_def split: if_splits)

text \<open>What every adapter call and the recorder keep of the outer world, the gateway keeps.\<close>

lemma gw_complete_loop_keeps:
  assumes calls: "\<And>p a rq u x v. registry p = Some a \<Longrightarrow> ad_complete a rq u = (x, v) \<Longrightarrow> f (outer v) = f (outer u)"
    and rec: "\<And>r u x v. recorder k r u = (x, v) \<Longrightarrow> f (outer v) = f (outer u)"
    and "gw_complete_loop registry recorder req k amb cs w = (r, w')"
  shows "f (outer w') = f (outer w)"
  using assms(3)
proof (induction cs arbitrary: amb w)
  case (Cons c cs)
  show ?case
  proof (cases "registry (cand_provider c)")
    case None
    with Cons show ?thesis by (simp add: registry_get_def)
  next
    case (Some a)
    obtain x w1 where call: "ad_complete a (req\<lparr>req_model := cand_model c\<rparr>) w = (x, w1)" by fastforce
    show ?thesis
      using Cons.prems Some call calls [OF Some call] Cons.IH [of amb w1] Cons.IH [of "Some (projl x)" w1]
      by (auto simp: registry_get_def dest: rec split: if_splits sum.splits prod.splits)
  qed
qed simp

subsection \<open>A keyed completion request, step by step\<close>

abbreviation fp_digest :: "'z deployment \<Rightarrow> fingerprint_payload \<Rightarrow> string" where
  "fp_digest d \<equiv> h_fingerprint_digest (dp_host d)"

abbreviation commit_session :: "'z deployment \<Rightarrow> 'z system \<Rightarrow> 'z system" where
  "commit_session d \<equiv> se_commit (get_session d)"

definition gateway_call ::
  "'z deployment \<Rightarrow> chat_payload \<Rightarrow> api_key \<Rightarrow> 'z app_world \<Rightarrow> chat_response result \<times> 'z app_world" where
  "gateway_call d payload k =
     gw_complete (get_registry d) (get_router d) (get_usage_recorder d) (chat_to_domain payload) (ak_id k)"

definition complete_call ::
  "'z deployment \<Rightarrow> chat_payload \<Rightarrow> api_key \<Rightarrow> 'z system \<Rightarrow> chat_response result \<times> 'z system" where
  "complete_call d payload k = in_process (dp_host d) (gateway_call d payload k)"

lemma commit_session_ok:
  "h_commit_error (dp_host d) w = None \<Longrightarrow> commit_session d w = on_session session_commit w"
  by (simp add: get_session_def)

lemma commit_session_failed:
  "h_commit_error (dp_host d) w = Some e \<Longrightarrow> commit_session d w = on_session session_rollback w"
  by (simp add: get_session_def)

lemma commit_session_simps [simp]:
  "executions (rw_app (commit_session d w)) = executions (rw_app w)"
  "stored_value (commit_session d w) k key = stored_value w k key" "rw_up (commit_session d w) = rw_up w"
  "process_of (commit_session d w) = process_of w"
  by (simp_all add: get_session_def split: option.splits)

text \<open>A request that reached the handler was authenticated, let through and valid.\<close>

lemma serve_chat_answered:
  assumes "serve_chat d auth ikey payload w = (Ok c, w')"
  obtains k w0 where "authenticate d auth w = Inr k" "throttle d k w = (Inr (), w0)" "chat_payload_valid payload"
  using assms by (auto simp: serve_chat_def post_completions_def get_session_def authenticate_def throttle_def Let_def
      split: prod.splits sum.splits if_splits)

text \<open>The request with a key and without streaming, once the caller is let in.\<close>

lemma serve_chat_keyed:
  assumes "authenticate d auth w = Inr k" and "throttle d k w = (Inr (), w0)"
    and "chat_payload_valid payload" and "\<not> cp_stream payload"
  shows "serve_chat d auth (Some key) payload w =
    (case idem_execute (get_idempotency_service d) (fp_digest d) key (ak_id k) (chat_to_domain payload)
       (complete_call d payload k) w0 of
       (Inl e, w2) \<Rightarrow> (Failed e, on_session session_rollback w2)
     | (Inr r, w2) \<Rightarrow> (Ok (Json (chat_from_domain r)), commit_session d w2))"
  using assms by (simp add: serve_chat_def post_completions_def authenticate_def throttle_def get_session_def
      create_completion_def close_session_def get_gateway_service_def
      complete_call_def gateway_call_def Let_def split: prod.splits sum.splits)

lemma complete_callD:
  assumes "complete_call d payload k w = (x, w')"
  shows "gateway_call d payload k (rw_app w) = (x, rw_app w')"
  using assms by (auto simp: complete_call_def in_process_def split: prod.splits)

lemma gateway_call_once:
  assumes "started d" and "cp_failover_policy payload = AT_MOST_ONCE" and "gateway_call d payload k w = (Inr r, w')"
  shows "executions w' = executions w + 1"
proof -
  have "req_failover_policy (chat_to_domain payload) = AT_MOST_ONCE" using assms(2) by (simp add: chat_to_domain_def)
  note once = deployed.at_most_once [OF this]
  obtain w0 where reg: "get_registry d = host_sdks_registry (dp_host d) (dp_config d) w0"
    using startedE [OF assms(1)] by metis
  obtain cs where "gw_complete_loop (get_registry d) (get_usage_recorder d) (chat_to_domain payload) (ak_id k) None cs w = (Inr r, w')"
    using assms(3) by (auto simp: gateway_call_def gw_complete_def split: sum.splits)
  from once [OF this [unfolded reg get_usage_recorder_def]] show ?thesis by blast
qed

lemma gateway_call_bills:
  assumes "started d" and "gateway_call d payload k w = (Inr r, w')"
  shows "\<exists>rec. session_stored (fst (outer w')) = session_stored (fst (outer w)) @ [rec] \<and> bills (ak_id k) r rec"
proof -
  obtain cs where "gw_complete_loop (get_registry d) (get_usage_recorder d) (chat_to_domain payload) (ak_id k) None cs w = (Inr r, w')"
    using assms(2) by (auto simp: gateway_call_def gw_complete_def split: sum.splits)
  moreover have "session_stored (fst (outer v)) = session_stored (fst (outer u))"
    if "get_registry d p = Some a" "ad_complete a rq u = (x, v)" for p a rq u x v
    using calls_keep_session [OF assms(1) that] by simp
  ultimately have "billing_ok (ak_id k) (session_stored (fst (outer w))) (Inr r) (session_stored (fst (outer w')))"
    using gw_complete_loop_bills [OF request_sink.usage_sink_axioms] unfolding get_usage_recorder_def by blast
  then show ?thesis by (simp add: billing_ok_def)
qed

lemma recorder_keeps_db: "get_usage_recorder d k r u = (x, v) \<Longrightarrow> ss_db (fst (outer v)) = ss_db (fst (outer u))"
  by (auto simp: get_usage_recorder_def gw_recorder_def recorder_record_def outer_save_def
      dest: repo_save_db split: prod.splits sum.splits)

lemma gateway_call_keeps_db:
  assumes "started d" and "gateway_call d payload k w = (r, w')"
  shows "ss_db (fst (outer w')) = ss_db (fst (outer w))"
proof (cases "candidates_for (get_router d) (req_model (chat_to_domain payload))")
  case (Inl e)
  with assms(2) show ?thesis by (simp add: gateway_call_def gw_complete_def)
next
  case (Inr cs)
  have calls: "ss_db (fst (outer v)) = ss_db (fst (outer u))"
    if "get_registry d p = Some a" "ad_complete a rq u = (x, v)" for p a rq u x v
    using calls_keep_session [OF assms(1) that] by simp
  have run: "gw_complete_loop (get_registry d) (get_usage_recorder d) (chat_to_domain payload) (ak_id k) None cs w = (r, w')"
    using assms(2) Inr by (simp add: gateway_call_def gw_complete_def)
  show ?thesis
    by (rule gw_complete_loop_keeps [where f = "\<lambda>x. ss_db (fst x)", OF calls recorder_keeps_db run])
qed

lemma session_stored_clean: "ss_usage s = [] \<Longrightarrow> session_stored s = usage_stored (ss_db s)"
  by (simp add: session_stored_def usage_stored_def)

text \<open>The run of a keyed completion that was answered.\<close>

lemma keyed_completion_run:
  assumes "started d" and "\<not> cp_stream payload" and "authenticate d auth w = Inr k"
    and "stored_value w (ak_id k) key = None" and "serve_chat d auth (Some key) payload w = (Ok (Json c), w1)"
  obtains w0 r u w1' where "throttle d k w = (Inr (), w0)" "chat_payload_valid payload"
    "c = chat_from_domain r" "w1 = commit_session d w1'"
    "idem_execute (get_idempotency_service d) (fp_digest d) key (ak_id k) (chat_to_domain payload)
        (complete_call d payload k) w0 = (Inr r, w1')"
    "gateway_call d payload k u = (Inr r, rw_app w1')" "u = rw_app w0"
proof -
  obtain w0 where lim: "throttle d k w = (Inr (), w0)" and valid: "chat_payload_valid payload"
    using assms(3,5) by (elim serve_chat_answered) auto
  obtain r w1' where run: "idem_execute (get_idempotency_service d) (fp_digest d) key (ak_id k) (chat_to_domain payload)
        (complete_call d payload k) w0 = (Inr r, w1')"
    and c: "c = chat_from_domain r" and w1: "w1 = commit_session d w1'"
    using assms(5) unfolding serve_chat_keyed [OF assms(3) lim valid assms(2)] by (auto split: prod.splits sum.splits)
  have "stored_value w0 (ak_id k) key = None" using throttleD(4) [OF assms(1) lim] assms(4) by simp
  from execute_fresh [OF run [unfolded get_idempotency_service_def] this] obtain v v'
    where "complete_call d payload k v = (Inr r, v')" "rw_app v = rw_app w0" "rw_app w1' = rw_app v'" .
  with that [OF lim valid c w1 run _ refl] complete_callD show ?thesis by metis
qed

text \<open>With a free key and Redis up, the call runs between two calls of the store.\<close>

lemma keyed_runs:
  assumes "stored_value w0 (ak_id k) key = None" and "rw_up w0" and "0 < idempotency_inflight_ttl_s (dp_config d)"
  obtains w1 where "rw_app w1 = rw_app w0" "rw_up w1" "rw_now w1 = rw_now w0"
    "idem_execute (get_idempotency_service d) (fp_digest d) key (ak_id k) (chat_to_domain payload)
        (complete_call d payload k) w0 = settle_call (get_idempotency_service d) key (ak_id k)
          (fingerprint (fp_digest d) (chat_to_domain payload)) (complete_call d payload k w1)"
  using execute_runs [OF assms] that unfolding get_idempotency_service_def by blast

subsection \<open>What start-up needs and leaves\<close>

lemma host_registry_outer: "outer (snd (host_registry h config w)) = outer w"
  by (simp add: host_registry_def build_registry_def with_resilience_def Let_def)

lemma map_result_succeeds: "(\<exists>ys. map_result f xs = Inr ys) \<longleftrightarrow> (\<forall>x \<in> set xs. \<exists>y. f x = Inr y)"
proof (induction xs)
  case (Cons x xs)
  then show ?case by (cases "f x"; cases "map_result f xs") auto
qed simp

lemma load_pricing_succeeds:
  "(\<exists>rates. load_pricing_rates db = Inr rates) \<longleftrightarrow>
    (\<forall>row \<in> set (db_pricing db). provider_of_value (pw_provider row) \<noteq> None \<and> py_strip (pw_model row) \<noteq> [] \<and>
       0 \<le> pw_price_per_1k_input_tokens row \<and> 0 \<le> pw_price_per_1k_output_tokens row)"
  unfolding load_pricing_rates_def map_result_succeeds
  by (intro ball_cong refl) (auto simp: provider_enum_of_def pricing_rate_create_def not_less split: option.splits)

lemma lifespan_succeeds:
  "(\<exists>st w'. lifespan h config loggers w = (Inr st, w')) \<longleftrightarrow>
    (\<exists>rates. load_pricing_rates (ss_db (fst (outer w))) = Inr rates)"
proof -
  obtain svc where r: "build_router None None None None = Inr svc" using default_router_tiers by blast
  obtain reg w1 where hr: "host_registry h config w = (reg, w1)" by fastforce
  then have "outer w1 = outer w" using host_registry_outer [of h config w] by simp
  then show ?thesis by (auto simp: lifespan_def hr r Let_def split: sum.splits)
qed

lemma build_registry_breakers:
  "fst (build_registry clock mk_o mk_a config w) p \<noteq> None \<Longrightarrow>
    breakers (snd (build_registry clock mk_o mk_a config w)) p = fresh_breaker config"
  by (cases p) (auto simp: build_registry_def with_resilience_def registry_register_def Let_def split: if_splits)

lemma lifespan_registry:
  assumes "lifespan h config loggers w = (Inr st, w')"
  shows "as_registry st p \<noteq> None \<longleftrightarrow>
      opt_str_truthy (case p of OPENAI \<Rightarrow> openai_api_key config | ANTHROPIC \<Rightarrow> anthropic_api_key config)"
    and "as_registry st p \<noteq> None \<Longrightarrow> breakers w' p = fresh_breaker config"
proof -
  have st: "as_registry st = fst (host_registry h config w)" "breakers w' = breakers (snd (host_registry h config w))"
    using assms by (auto simp: lifespan_def Let_def split: sum.splits prod.splits)
  show "as_registry st p \<noteq> None \<longleftrightarrow>
      opt_str_truthy (case p of OPENAI \<Rightarrow> openai_api_key config | ANTHROPIC \<Rightarrow> anthropic_api_key config)"
    by (rule lifespan_Inr [OF assms])
      (auto simp: deployed_registry_def build_registry_get opt_str_truthy_def split: option.splits provider_enum.splits)
  show "as_registry st p \<noteq> None \<Longrightarrow> breakers w' p = fresh_breaker config"
    unfolding st host_registry_def by (rule build_registry_breakers)
qed

lemma lifespan_tiers:
  assumes "lifespan h config loggers w = (Inr st, w')"
  shows "\<forall>tier \<in> {''default'', ''reasoning'', ''low_cost''}. \<exists>c cs. candidates_for (as_router st) tier = Inr (c # cs)"
proof -
  obtain rates where "build_router None None None None = Inr (as_router st)" by (rule lifespan_Inr [OF assms])
  then show ?thesis using default_router_tiers by auto
qed

lemma lifespan_process:
  assumes "lifespan h config loggers w = (Inr st, w')"
  shows "pr_buckets (snd (outer w')) = Map.empty"
    and "pr_limiter_breaker (snd (outer w')) =
      cb_init (ratelimit_breaker_fail_threshold config) (ratelimit_breaker_reset_timeout_s config)"
    and "fst (outer w') = fst (outer w)"
proof -
  obtain reg w1 where hr: "host_registry h config w = (reg, w1)" by fastforce
  then have "outer w1 = outer w" using host_registry_outer [of h config w] by simp
  with assms hr show "pr_buckets (snd (outer w')) = Map.empty"
    and "pr_limiter_breaker (snd (outer w')) =
      cb_init (ratelimit_breaker_fail_threshold config) (ratelimit_breaker_reset_timeout_s config)"
    and "fst (outer w') = fst (outer w)"
    by (auto simp: lifespan_def Let_def split: sum.splits)
qed

end
