(* ===== verification/Stream_Serving.thy ===== *)
theory Stream_Serving
  imports Relayix_System
begin

text \<open>
  A streamed request from the endpoint to the last frame: the generator of the gateway inside the
  one that settles the idempotency key, inside the one that writes the frames, and the session
  that is closed when the last frame was sent.
\<close>

subsection \<open>Generators inside one another\<close>

text \<open>Pulling a generator inside the process yields what it yields, whatever happens in Redis.\<close>

lemma drive_in_process:
  "drive f n g (rw_app w) = ((evs, ending), (g', a)) \<Longrightarrow>
    \<exists>w'. rw_app w' = a \<and> drive (\<lambda>g. in_process h (f g)) n g w = ((evs, ending), (g', w'))"
proof (induction n arbitrary: g w evs)
  case (Suc n)
  obtain x g1 a1 where pull: "f g (rw_app w) = ((x, g1), a1)" by (metis prod.collapse)
  let ?w1 = "meanwhile h (w\<lparr>rw_app := a1\<rparr>)"
  have step: "in_process h (f g) w = ((x, g1), ?w1)" by (simp add: in_process_def pull)
  show ?case
  proof (cases x)
    case (Yielded v)
    with Suc.prems pull obtain evs' where "evs = v # evs'" "drive f n g1 (rw_app ?w1) = ((evs', ending), (g', a))"
      by (auto split: prod.splits)
    with Suc.IH [of g1 ?w1 evs'] step Yielded show ?thesis by auto
  qed (use Suc.prems pull step in auto)
qed simp

lemma events_anext_simps:
  "events_anext svc digest req k (Plain g) w = (case cs_anext svc k g w of ((p, g'), w') \<Rightarrow> ((p, Plain g'), w'))"
  "events_anext svc digest req k (Keyed key ig) w =
     (case idem_anext (cs_store svc) (cs_anext svc k) (cs_aclose svc) key k (fingerprint digest req) ig w of
        ((p, g'), w') \<Rightarrow> ((p, Keyed key g'), w'))"
  by (simp_all add: events_anext_def)

lemma events_drive_plain:
  "drive (cs_anext svc k) n g w = ((evs, r), (g', w')) \<Longrightarrow>
    drive (events_anext svc digest req k) n (Plain g) w = ((evs, r), (Plain g', w'))"
proof (induction n arbitrary: g w evs)
  case (Suc n)
  obtain x g1 w1 where pull: "cs_anext svc k g w = ((x, g1), w1)" by (metis prod.collapse)
  with Suc.prems show ?case
    by (cases x) (auto simp: events_anext_simps Suc.IH split: prod.splits)
qed simp

lemma events_drive_keyed:
  "drive (idem_anext (cs_store svc) (cs_anext svc k) (cs_aclose svc) key k (fingerprint digest req)) n g w =
      ((evs, r), (g', w')) \<Longrightarrow>
    drive (events_anext svc digest req k) n (Keyed key g) w = ((evs, r), (Keyed key g', w'))"
proof (induction n arbitrary: g w evs)
  case (Suc n)
  obtain x g1 w1 where pull: "idem_anext (cs_store svc) (cs_anext svc k) (cs_aclose svc) key k
      (fingerprint digest req) g w = ((x, g1), w1)" by (metis prod.collapse)
  with Suc.prems show ?case
    by (cases x) (auto simp: events_anext_simps Suc.IH split: prod.splits)
qed simp

subsection \<open>Settling a stream of the gateway\<close>

lemma settle_except_app:
  "\<exists>w'. settle_except (redis_port (server_store i c)) (\<lambda>g w. (close g, w)) key k fp g e w = ((Raised e, IG_Done), w') \<and>
    rw_app w' = rw_app w"
proof -
  obtain x w1 where set: "server_set (idem_key k key) (ambiguous_value fp (exn_str e)) c w = (x, w1)" by fastforce
  from server_set_app [OF set] set show ?thesis
    by (cases x) (auto simp: settle_except_def redis_port_def server_mark dest: server_set_failed)
qed

text \<open>A generator whose last pull does nothing.\<close>

definition stops_quietly :: "('g, 'w) anext \<Rightarrow> bool" where
  "stops_quietly f \<longleftrightarrow> (\<forall>g w g' w'. f g w = ((Stopped, g'), w') \<longrightarrow> w' = w)"

lemma drain_stops_quietly: "stops_quietly (drain_anext rec k)"
proof -
  have e: "drain_except rec k it e w \<noteq> ((Stopped, g'), w')" for it e g' and w w' :: 'b
    by (auto simp: drain_except_def split: exn.splits option.splits prod.splits sum.splits)
  have m: "drain_emit rec k nx it ev w \<noteq> ((Stopped, g'), w')" for nx it ev g' and w w' :: 'b
    by (cases ev) (auto simp: e split: prod.splits sum.splits)
  have "drain_anext rec k g w = ((Stopped, g'), w') \<longrightarrow> w' = w" for g g' and w w' :: 'b
    by (cases g) (auto simp: e m split: prod.splits pull.splits)
  then show ?thesis by (auto simp: stops_quietly_def)
qed

text \<open>
  What the settling generator makes of a complete stream: the same events, and at the end either
  the key is completed or the store is unavailable, which the consumer is told; of a broken
  stream: the same events and the same failure.
\<close>

lemma settle_complete_stream:
  assumes "stops_quietly f"
    and "drive f n g (rw_app w) = ((map ChatStreamDelta ds @ [ChatStreamResponse r], Some None), (g', a))"
  shows "\<exists>w' ending. drive (idem_anext (redis_port (server_store i c)) (\<lambda>g. in_process h (f g)) (\<lambda>g w. (close g, w)) key k fp)
      n (IG_Delta g) w = ((map ChatStreamDelta ds @ [ChatStreamResponse r], Some ending), (IG_Done, w')) \<and>
    rw_app w' = a \<and> (ending = None \<or> ending = Some IdempotencyStoreUnavailable)"
  using assms(2)
proof (induction ds arbitrary: n g w)
  case (Cons d ds)
  then obtain m g1 a1 where n: "n = Suc m" and pull: "f g (rw_app w) = ((Yielded (ChatStreamDelta d), g1), a1)"
    and rest: "drive f m g1 a1 = ((map ChatStreamDelta ds @ [ChatStreamResponse r], Some None), (g', a))"
    by (cases n) (auto split: prod.splits pull.splits)
  let ?w1 = "meanwhile h (w\<lparr>rw_app := a1\<rparr>)"
  have "drive f m g1 (rw_app ?w1) = ((map ChatStreamDelta ds @ [ChatStreamResponse r], Some None), (g', a))"
    using rest by simp
  from Cons.IH [OF this] show ?case by (auto simp: n settle_next_def in_process_def pull)
next
  case Nil
  then obtain m g1 a1 where n: "n = Suc m" and pull: "f g (rw_app w) = ((Yielded (ChatStreamResponse r), g1), a1)"
    and rest: "drive f m g1 a1 = (([], Some None), (g', a))"
    by (cases n) (auto split: prod.splits pull.splits)
  then obtain m' g2 where m: "m = Suc m'" and stop: "f g1 a1 = ((Stopped, g2), a)"
    by (cases m) (auto split: prod.splits pull.splits)
  have a: "a = a1" using assms(1) stop by (auto simp: stops_quietly_def)
  let ?w1 = "meanwhile h (w\<lparr>rw_app := a1\<rparr>)"
  obtain x w2 where set: "server_set (idem_key k key) (completed_value fp (serialize r)) c ?w1 = (x, w2)" by fastforce
  have w2: "rw_app w2 = a1" using server_set_app [OF set] by simp
  show ?case
  proof (cases x)
    case (Inr u)
    with set w2 stop a show ?thesis
      by (simp add: n m settle_next_def in_process_def pull redis_port_def server_complete)
  next
    case (Inl e)
    have "w2 = ?w1" using server_set_failed set Inl by blast
    obtain w' where "settle_except (redis_port (server_store i c)) (\<lambda>g w. (close g, w)) key k fp g1
        IdempotencyStoreUnavailable ?w1 = ((Raised IdempotencyStoreUnavailable, IG_Done), w')" "rw_app w' = a1"
      using settle_except_app [of i c close key k fp g1 IdempotencyStoreUnavailable ?w1] by auto
    moreover have "ip_complete (redis_port (server_store i c)) k key fp (serialize r) ?w1 = (Inl IdempotencyStoreUnavailable, ?w1)"
      using set Inl \<open>w2 = ?w1\<close> by (simp add: redis_port_def server_complete)
    ultimately show ?thesis using a
      by (simp add: n m settle_next_def in_process_def pull)
  qed
qed

lemma settle_broken_stream:
  assumes "drive f n g (rw_app w) = ((map ChatStreamDelta ds, Some (Some e)), (g', a))"
  shows "\<exists>w'. drive (idem_anext (redis_port (server_store i c)) (\<lambda>g. in_process h (f g)) (\<lambda>g w. (close g, w)) key k fp)
      n (IG_Delta g) w = ((map ChatStreamDelta ds, Some (Some e)), (IG_Done, w')) \<and> rw_app w' = a"
  using assms
proof (induction ds arbitrary: n g w)
  case (Cons d ds)
  then obtain m g1 a1 where n: "n = Suc m" and pull: "f g (rw_app w) = ((Yielded (ChatStreamDelta d), g1), a1)"
    and rest: "drive f m g1 a1 = ((map ChatStreamDelta ds, Some (Some e)), (g', a))"
    by (cases n) (auto split: prod.splits pull.splits)
  have "drive f m g1 (rw_app (meanwhile h (w\<lparr>rw_app := a1\<rparr>))) = ((map ChatStreamDelta ds, Some (Some e)), (g', a))"
    using rest by simp
  from Cons.IH [OF this] show ?case by (auto simp: n settle_next_def in_process_def pull)
next
  case Nil
  then obtain m where n: "n = Suc m" and pull: "f g (rw_app w) = ((Raised e, g'), a)"
    by (cases n) (auto split: prod.splits pull.splits)
  from settle_except_app [of i c close key k fp g' e "meanwhile h (w\<lparr>rw_app := a\<rparr>)"] show ?case
    by (auto simp: n settle_next_def in_process_def pull)
qed

subsection \<open>What a stream keeps of the world\<close>

text \<open>
  A view of the outer world that no await and no recording changes is not changed by opening and
  draining a stream of a deployed adapter either.
\<close>

lemma await_keeps: "(\<And>bs x. f (snd (io (bs, x))) = f x) \<Longrightarrow> f (outer (await io w)) = f (outer w)"
  by (cases "io (breakers w, outer w)") (simp add: await_def, metis snd_conv)

lemma sdk_anext_keeps:
  assumes "\<And>bs x. f (snd (io (bs, x))) = f x" and "sdk_anext io g w = (y, w')"
  shows "f (outer w') = f (outer w)"
  using assms(2) await_keeps [of f io w, OF assms(1)]
  by (cases "(io, g, w)" rule: sdk_anext.cases) (auto simp: count_execution_def)

lemma ra_anext_keeps:
  assumes inner: "\<And>g w y w'. nx g w = (y, w') \<Longrightarrow> f (outer w') = f (outer w)"
    and "ra_anext clock limit p st nx it w = (y, w')"
  shows "f (outer w') = f (outer w)"
proof -
  have round: "f (outer w2) = f (outer w1)" if "ra_round clock limit p nx g i e w1 = (z, w2)" for g i e w1 z w2
    using that inner [of i w1]
    by (auto simp: ra_round_def Let_def split: prod.splits pull.splits chat_stream_event.splits if_splits)
  show ?thesis
    using assms(2) by (cases it) (auto simp: Let_def dest: round split: prod.splits if_splits)
qed

fun drains_with :: "('g, 'w) anext \<Rightarrow> ('g, 'w) drain_gen \<Rightarrow> bool" where
  "drains_with nx (DR_Start nx' it ev) = (nx' = nx)"
| "drains_with nx (DR_Delta nx' it) = (nx' = nx)"
| "drains_with nx _ = True"

lemma drain_keeps:
  assumes nx: "\<And>g w y w'. nx g w = (y, w') \<Longrightarrow> f (outer w') = f (outer w)"
    and rec: "\<And>r u x v. rec k r u = (x, v) \<Longrightarrow> f (outer v) = f (outer u)"
    and "drains_with nx dg" and "drain_anext rec k dg w = ((x, dg'), w')"
  shows "f (outer w') = f (outer w) \<and> drains_with nx dg'"
proof -
  have e: "f (outer v) = f (outer u) \<and> drains_with nx g" if "drain_except rec k it e u = ((y, g), v)" for it e u y g v
    using that by (auto simp: drain_except_def dest: rec split: exn.splits option.splits prod.splits sum.splits)
  have m: "f (outer v) = f (outer u) \<and> drains_with nx g" if "drain_emit rec k nx it ev u = ((y, g), v)" for it ev u y g v
  proof (cases ev)
    case (ChatStreamResponse r)
    obtain x1 u1 where "rec k r u = (x1, u1)" by fastforce
    with that ChatStreamResponse rec [OF this] show ?thesis by (cases x1) (auto dest: e)
  qed (use that in auto)
  show ?thesis
  proof (cases dg)
    case (DR_Delta nx' it)
    obtain x1 it1 w1 where p: "nx it w = ((x1, it1), w1)" by (metis prod.collapse)
    have "f (outer w1) = f (outer w)" using nx [OF p] .
    with assms(3,4) DR_Delta p show ?thesis by (cases x1) (auto dest: m e)
  qed (use assms(3,4) in \<open>auto dest: m\<close>)
qed

lemma drive_drain_keeps:
  assumes nx: "\<And>g w y w'. nx g w = (y, w') \<Longrightarrow> f (outer w') = f (outer w)"
    and rec: "\<And>r u x v. rec k r u = (x, v) \<Longrightarrow> f (outer v) = f (outer u)"
  shows "drains_with nx dg \<Longrightarrow> drive (drain_anext rec k) n dg w = ((evs, r), (dg', w')) \<Longrightarrow> f (outer w') = f (outer w)"
proof (induction n arbitrary: dg w evs)
  case (Suc n)
  obtain x g1 w1 where pull: "drain_anext rec k dg w = ((x, g1), w1)" by (metis prod.collapse)
  from drain_keeps [of nx f rec k, OF nx rec Suc.prems(1) pull]
  have "f (outer w1) = f (outer w)" "drains_with nx g1" by auto
  with Suc pull show ?case by (cases x) (auto split: prod.splits)
qed simp

lemma gw_stream_loop_keeps:
  assumes "\<And>p a it u y v. registry p = Some a \<Longrightarrow> ad_anext a it u = (y, v) \<Longrightarrow> f (outer v) = f (outer u)"
  shows "gw_stream_loop registry req amb cs w = (r, w') \<Longrightarrow> f (outer w') = f (outer w)"
proof (induction cs arbitrary: amb w)
  case (Cons c cs)
  show ?case
  proof (cases "registry (cand_provider c)")
    case None
    with Cons show ?thesis by (simp add: registry_get_def)
  next
    case (Some a)
    obtain x it w1 where pull: "ad_anext a (ad_stream a (req\<lparr>req_model := cand_model c\<rparr>)) w = ((x, it), w1)"
      by (metis prod.collapse)
    from assms [OF Some pull] Cons Some pull show ?thesis
      by (cases x) (auto simp: registry_get_def split: if_splits)
  qed
qed simp

lemma system_anext_keeps:
  assumes "started d" and "get_registry d p = Some a" and "ad_anext a it u = (y, v)"
  shows "fst (outer v) = fst (outer u)"
proof -
  have io: "fst (snd (io_on_process io (bs, x))) = fst x" for io bs and x :: "session \<times> 'a process"
    by (simp add: io_on_process_def split: prod.splits)
  obtain w where reg: "host_sdks_registry (dp_host d) (dp_config d) w p = Some a"
    using startedE [OF assms(1)] assms(2) by metis
  then obtain inner where "a = resilient_adapter (host_clock (dp_host d)) (provider_timeout_s (dp_config d)) p inner"
    and "ad_anext inner = sdk_anext (io_on_process (h_io (dp_host d)))"
    by (elim deployed_adapter) (auto simp: openai_adapter_def anthropic_adapter_def)
  with assms(3) have run: "ra_anext (host_clock (dp_host d)) (provider_timeout_s (dp_config d)) p (ad_stream inner)
      (sdk_anext (io_on_process (h_io (dp_host d)))) it u = (y, v)"
    by (simp add: resilient_adapter_def)
  show ?thesis by (rule ra_anext_keeps [of _ fst, OF sdk_anext_keeps [of fst, OF io] run])
qed

subsection \<open>A streamed request, step by step\<close>

definition stream_call :: "'z deployment \<Rightarrow> chat_payload \<Rightarrow> 'z system \<Rightarrow> 'z gateway_gen result \<times> 'z system" where
  "stream_call d payload = in_process (dp_host d) (gw_stream (get_registry d) (get_router d) (chat_to_domain payload))"

lemma serve_chat_stream:
  assumes "authenticate d auth w = Inr k" and "throttle d k w = (Inr (), w0)"
    and "chat_payload_valid payload" and "cp_stream payload"
  shows "serve_chat d auth (Some key) payload w =
    (case idem_execute_stream (get_idempotency_service d) (fp_digest d) key (ak_id k) (chat_to_domain payload)
       (stream_call d payload) w0 of
       (Inl e, w2) \<Rightarrow> (Failed e, on_session session_rollback w2)
     | (Inr g, w2) \<Rightarrow> (Ok (EventStream (Keyed key g)), w2))"
  using assms by (simp add: serve_chat_def post_completions_def authenticate_def throttle_def get_session_def
      create_completion_def close_session_def get_gateway_service_def stream_call_def Let_def
      split: prod.splits sum.splits)

lemma execute_stream_fresh:
  assumes "idem_execute_stream (redis_port (server_store i c)) digest key k req op w = (Inr ig, w')"
    and "stored_value w k key = None"
  obtains w1 g where "op w1 = (Inr g, w')" "ig = IG_Start g" "rw_app w1 = rw_app w" "rw_up w1"
    "stored_value w1 k key = Some (in_progress_value (fingerprint digest req))"
proof (cases rule: server_reserve [of i c k key "fingerprint digest req" w])
  case (won w1)
  have "rw_app w1 = rw_app w" "rw_up w1" using won(3) by (auto simp: server_set_def split: if_splits)
  moreover have "stored_value w1 k key = Some (in_progress_value (fingerprint digest req))"
    using stored_server_set [OF won(3), of k key] by simp
  moreover obtain g where "op w1 = (Inr g, w')" "ig = IG_Start g"
    using assms(1) won(1) by (auto simp: idem_execute_stream_def redis_port_def outcome_acquired_def Let_def reraise_def
        split: prod.splits sum.splits if_splits)
  ultimately show ?thesis using that by blast
qed (use assms in \<open>auto simp: idem_execute_stream_def redis_port_def\<close>)

text \<open>What the gateway made of the request: a stream it committed to, with one execution.\<close>

lemma stream_callD:
  assumes "stream_call d payload w = (Inr g, w')"
  shows "gw_stream (get_registry d) (get_router d) (chat_to_domain payload) (rw_app w) = (Inr g, rw_app w')"
  using assms by (auto simp: stream_call_def in_process_def split: prod.splits)

abbreviation late_safe_host :: "'z host \<Rightarrow> bool" where
  "late_safe_host h \<equiv> (\<forall>key t ps. late_safe (h_openai_stream h key t ps)) \<and>
     (\<forall>key t ps. late_safe (h_anthropic_stream h key t ps))"

lemma opened_once:
  assumes "started d" and "late_safe_host (dp_host d)" and "cp_failover_policy payload = AT_MOST_ONCE"
    and "gw_stream (get_registry d) (get_router d) (chat_to_domain payload) w = (Inr g, w')"
  shows "executions w' = executions w + 1"
proof -
  obtain w0 where reg: "get_registry d = host_sdks_registry (dp_host d) (dp_config d) w0"
    using startedE [OF assms(1)] by metis
  have "req_failover_policy (chat_to_domain payload) = AT_MOST_ONCE" using assms(3) by (simp add: chat_to_domain_def)
  from gw_stream_executions [OF this _ _ assms(4) [unfolded reg]] assms(2) show ?thesis by blast
qed

lemma opened_session:
  assumes "started d" and "gw_stream (get_registry d) (get_router d) (chat_to_domain payload) w = (Inr g, w')"
  shows "fst (outer w') = fst (outer w)"
proof -
  obtain cs where "gw_stream_loop (get_registry d) (chat_to_domain payload) None cs w = (Inr g, w')"
    using assms(2) by (auto simp: gw_stream_def split: sum.splits)
  from gw_stream_loop_keeps [of "get_registry d" fst, OF system_anext_keeps [OF assms(1)] this] show ?thesis .
qed

lemma opened_drained:
  assumes "started d" and "gw_stream (get_registry d) (get_router d) (chat_to_domain payload) w = (Inr g, w1)"
  obtains enough where "\<And>n. enough \<le> n \<Longrightarrow> \<exists>evs ending g' w2.
    drive (drain_anext (get_usage_recorder d) k) n g w1 = ((evs, Some ending), (g', w2)) \<and>
    stream_billing k [] (session_stored (fst (outer w1))) evs ending (session_stored (fst (outer w2))) \<and>
    executions w2 = executions w1 \<and> ss_db (fst (outer w2)) = ss_db (fst (outer w1))"
proof -
  obtain w0 where reg: "get_registry d = host_sdks_registry (dp_host d) (dp_config d) w0"
    using startedE [OF assms(1)] by metis
  have io: "\<forall>bs x. session_stored (fst (snd (io_on_process (h_io (dp_host d)) (bs, x)))) = session_stored (fst x)"
    by (auto simp: io_on_process_def split: prod.splits)
  have save: "\<forall>r x e x'. repo_save r x = (Inl e, x') \<longrightarrow> \<not> is_AppError e" using repo_save_errors by blast
  from gw_stream_drains [OF request_sink.usage_sink_axioms save io assms(2) [unfolded reg], of
      "get_pricing_table d" "\<lambda>x. h_rate_time (dp_host d) (snd x)" "\<lambda>x. h_record_time (dp_host d) (snd x)" k]
  obtain enough where e: "\<And>n. enough \<le> n \<Longrightarrow> \<exists>evs ending g' w2.
    drive (drain_anext (get_usage_recorder d) k) n g w1 = ((evs, Some ending), (g', w2)) \<and>
    stream_billing k [] (session_stored (fst (outer w1))) evs ending (session_stored (fst (outer w2))) \<and>
    executions w2 = executions w1"
    unfolding get_usage_recorder_def by blast
  obtain cs where "gw_stream_loop (get_registry d) (chat_to_domain payload) None cs w = (Inr g, w1)"
    using assms(2) by (auto simp: gw_stream_def split: sum.splits)
  from gw_stream_committed [OF this] obtain p a u it ev
    where a: "get_registry d p = Some a" "g = DR_Start (ad_anext a) it ev" by blast
  then have "drains_with (ad_anext a) g" by simp
  then have "ss_db (fst (outer w2)) = ss_db (fst (outer w1))"
    if "drive (drain_anext (get_usage_recorder d) k) n g w1 = ((evs, r), (g', w2))" for n evs r g' w2
    using drive_drain_keeps [of "ad_anext a" "\<lambda>x. ss_db (fst x)" "get_usage_recorder d" k] that
      system_anext_keeps [OF assms(1) a(1)] recorder_keeps_db by metis
  with e that show ?thesis by meson
qed

subsection \<open>The end of a streamed request\<close>

text \<open>
  What a client that reads the stream of a keyed request has got, what was billed (\<open>before\<close> and
  \<open>after\<close> are the committed usage records) and what is to be kept under the key: all the text, the
  final frame and one record of the response, with a last error frame when the key could not be
  settled; or the text up to an interruption, its error frame and one record of exactly that
  text; or the text up to another failure and no record.
\<close>

definition stream_result ::
  "uuid \<Rightarrow> string \<Rightarrow> sse_frame list \<Rightarrow> exn option \<Rightarrow> usage_record list \<Rightarrow> usage_record list \<Rightarrow> idem_value \<Rightarrow> bool" where
  "stream_result k fp frames failure before after kept \<longleftrightarrow> (\<exists>ds.
     (\<exists>r rec tail. frames = map DeltaFrame ds @ DoneFrame (chat_from_domain r) # tail \<and>
        (tail = [] \<or> tail = last_frames (Some IdempotencyStoreUnavailable)) \<and> failure = None \<and>
        resp_content r = concat ds \<and> bills k r rec \<and> after = before @ [rec] \<and>
        kept = (if tail = [] then completed_value fp (serialize r)
                else ambiguous_value fp (exn_str IdempotencyStoreUnavailable))) \<or>
     (\<exists>m part rec. frames = map DeltaFrame ds @ last_frames (Some (UpstreamStreamInterrupted m (Some part))) \<and>
        failure = None \<and> resp_content part = concat ds \<and> bills k part rec \<and> after = before @ [rec] \<and>
        kept = ambiguous_value fp (exn_str (UpstreamStreamInterrupted m (Some part)))) \<or>
     (\<exists>e. frames = map DeltaFrame ds @ last_frames (Some e) \<and> failure = encoder_end (Some e) \<and> after = before \<and>
        kept = ambiguous_value fp (exn_str e)))"

text \<open>Whoever works on Redis meanwhile keeps it up and this key's record as it is.\<close>

definition leaves_key :: "'z host \<Rightarrow> uuid \<Rightarrow> string \<Rightarrow> bool" where
  "leaves_key h k key \<longleftrightarrow> (\<forall>w. keeps_record k key w (meanwhile h w))"

lemma leaves_key_up: "leaves_key h k key \<Longrightarrow> rw_up (meanwhile h w) = rw_up w"
  by (simp add: leaves_key_def keeps_record_def)

text \<open>What the acceptance of a keyed stream means: it was opened by one execution, in a session left as it was.\<close>

lemma keyed_stream_opened:
  assumes "started d" and "late_safe_host (dp_host d)" and "cp_failover_policy payload = AT_MOST_ONCE" and "cp_stream payload"
    and "authenticate d auth w = Inr k" and "stored_value w (ak_id k) key = None"
    and "serve_chat d auth (Some key) payload w = (Ok (EventStream ev), w1)"
  obtains g a where "ev = Keyed key (IG_Start g)"
    "gw_stream (get_registry d) (get_router d) (chat_to_domain payload) a = (Inr g, rw_app w1)"
    "executions (rw_app w1) = executions (rw_app w) + 1" "system_session w1 = system_session w"
    "leaves_key (dp_host d) (ak_id k) key \<longrightarrow> rw_up w1"
proof -
  obtain w0 where lim: "throttle d k w = (Inr (), w0)" and valid: "chat_payload_valid payload"
    using assms(5,7) by (elim serve_chat_answered) auto
  note apart = throttleD [OF assms(1) lim]
  obtain ig where ev: "ev = Keyed key ig"
    and run: "idem_execute_stream (get_idempotency_service d) (fp_digest d) key (ak_id k) (chat_to_domain payload)
      (stream_call d payload) w0 = (Inr ig, w1)"
    using assms(7) unfolding serve_chat_stream [OF assms(5) lim valid assms(4)] by (auto split: prod.splits sum.splits)
  have "stored_value w0 (ak_id k) key = None" using apart assms(6) by simp
  from execute_stream_fresh [OF run [unfolded get_idempotency_service_def] this] obtain u g
    where op: "stream_call d payload u = (Inr g, w1)" and ig: "ig = IG_Start g" and u: "rw_app u = rw_app w0" and up: "rw_up u" .
  note opened = stream_callD [OF op]
  have "executions (rw_app w1) = executions (rw_app w) + 1"
    using opened_once [OF assms(1-3) opened] apart(2) by (simp add: u)
  moreover have "system_session w1 = system_session w"
    using opened_session [OF assms(1) opened] apart(1) by (simp add: system_session_def u)
  moreover have "rw_up w1" if "leaves_key (dp_host d) (ak_id k) key"
  proof -
    obtain x a where "gw_stream (get_registry d) (get_router d) (chat_to_domain payload) (rw_app u) = (x, a)" by fastforce
    with op have "w1 = meanwhile (dp_host d) (u\<lparr>rw_app := a\<rparr>)" by (simp add: stream_call_def in_process_def)
    then show ?thesis using up by (simp add: leaves_key_up [OF that])
  qed
  ultimately show ?thesis using that [OF _ opened] ev ig by blast
qed

lemma leaves_key_primed:
  assumes "leaves_key h k key"
  shows "primed_ok k key (\<lambda>g. in_process h (f g)) (\<lambda>g w. (close g, w))"
proof -
  have "keeps_record k key w (snd (in_process h (f g) w))" for g and w :: "'a system"
  proof -
    obtain x a where "f g (rw_app w) = (x, a)" by fastforce
    moreover have "keeps_record k key (w\<lparr>rw_app := a\<rparr>) (meanwhile h (w\<lparr>rw_app := a\<rparr>))"
      using assms by (simp add: leaves_key_def)
    ultimately show ?thesis
      by (simp add: in_process_def keeps_record_def stored_value_def live_def cong: option.case_cong)
  qed
  then show ?thesis by (simp add: primed_ok_def keeps_record_def)
qed

lemma error_frame_interrupted: "error_frame (UpstreamStreamInterrupted m p) \<noteq> None" "error_frame IdempotencyStoreUnavailable \<noteq> None"
  by (simp_all add: error_frame_def to_dict_def)

text \<open>The settling generator over the gateway's, with its billing.\<close>

definition settle_anext :: "'z deployment \<Rightarrow> chat_payload \<Rightarrow> uuid \<Rightarrow> string \<Rightarrow> ('z gateway_gen idem_gen, 'z system) anext" where
  "settle_anext d payload k key = idem_anext (cs_store (get_gateway_service d)) (cs_anext (get_gateway_service d) k)
     (cs_aclose (get_gateway_service d)) key k (fingerprint (fp_digest d) (chat_to_domain payload))"

lemma settle_anext_eq:
  "settle_anext d payload k key = idem_anext (redis_port (server_store (idempotency_inflight_ttl_s (dp_config d))
       (idempotency_ttl_s (dp_config d)))) (\<lambda>g. in_process (dp_host d) (drain_anext (get_usage_recorder d) k g))
     (\<lambda>g w. (drain_aclose g, w)) key k (fingerprint (fp_digest d) (chat_to_domain payload))"
  by (simp add: settle_anext_def get_gateway_service_def get_idempotency_service_def)

lemma settle_start: "drive (settle_anext d payload k key) n (IG_Start g) w = drive (settle_anext d payload k key) n (IG_Delta g) w"
  if "0 < n"
  using that by (cases n) (simp_all add: settle_anext_def)

lemma settled_drive:
  assumes run: "drive (drain_anext (get_usage_recorder d) k) n g (rw_app w) = ((evs, Some ending), (g', a))"
    and bill: "stream_billing k [] before evs ending after" and "0 < n"
  obtains ending' w' where "drive (settle_anext d payload k key) n (IG_Start g) w = ((evs, Some ending'), (IG_Done, w'))"
    "rw_app w' = a" "ending' = ending \<or> ending = None \<and> ending' = Some IdempotencyStoreUnavailable"
proof -
  from bill obtain ds where ds: "case ending of None \<Rightarrow> (\<exists>r. evs = map ChatStreamDelta ds @ [ChatStreamResponse r])
      | Some e \<Rightarrow> evs = map ChatStreamDelta ds"
    unfolding stream_billing_def by (auto split: option.splits)
  show ?thesis
  proof (cases ending)
    case None
    with ds obtain r where "evs = map ChatStreamDelta ds @ [ChatStreamResponse r]" by auto
    then obtain w' ending' where "drive (settle_anext d payload k key) n (IG_Delta g) w = ((evs, Some ending'), (IG_Done, w'))"
      "rw_app w' = a" "ending' = None \<or> ending' = Some IdempotencyStoreUnavailable"
      using settle_complete_stream [OF drain_stops_quietly, of "get_usage_recorder d" k n g w ds r] run None
      unfolding settle_anext_eq by blast
    with that [of ending' w'] None show ?thesis by (simp add: settle_start [OF \<open>0 < n\<close>])
  next
    case (Some e)
    with ds have "evs = map ChatStreamDelta ds" by simp
    then obtain w' where "drive (settle_anext d payload k key) n (IG_Delta g) w = ((evs, Some ending), (IG_Done, w'))" "rw_app w' = a"
      using settle_broken_stream [of "drain_anext (get_usage_recorder d) k" n g w ds e] run Some
      unfolding settle_anext_eq by blast
    with that [of ending w'] show ?thesis by (simp add: settle_start [OF \<open>0 < n\<close>])
  qed
qed

lemma settled_kept:
  assumes "leaves_key (dp_host d) k key" and "0 < idempotency_ttl_s (dp_config d)" and "rw_up w" and "0 < n"
    and "drive (settle_anext d payload k key) n (IG_Start g) w = ((evs, Some ending), (IG_Done, w'))"
    and "case ending of None \<Rightarrow> last_response evs = Some r | Some e \<Rightarrow> True"
  shows "stored_value w' k key = Some (case ending of
      None \<Rightarrow> completed_value (fingerprint (fp_digest d) (chat_to_domain payload)) (serialize r)
    | Some e \<Rightarrow> ambiguous_value (fingerprint (fp_digest d) (chat_to_domain payload)) (exn_str e))"
  using settle_drive(1) [OF leaves_key_primed [OF assms(1)] assms(2,3) assms(5) [unfolded settle_start [OF assms(4)], unfolded settle_anext_eq]] assms(6)
  by (auto simp: settled_as_def split: option.splits)

lemma last_response_deltas: "last_response (map ChatStreamDelta ds @ [ChatStreamResponse r]) = Some r"
  by (induction ds) simp_all

lemma frames_of_deltas: "map frame_of (map ChatStreamDelta ds) = map DeltaFrame ds"
  by (induction ds) simp_all

text \<open>From the billing of the drained stream and the end of the settled one to the result.\<close>

lemma stream_result_settled:
  assumes bill: "stream_billing k [] before evs ending after"
    and ends: "ending' = ending \<or> ending = None \<and> ending' = Some IdempotencyStoreUnavailable"
    and committed: "encoder_end ending' = None \<Longrightarrow> done = after" and rolled: "encoder_end ending' \<noteq> None \<Longrightarrow> done = before"
  obtains kept r where "stream_result k fp (map frame_of evs @ last_frames ending') (encoder_end ending') before done kept"
    "kept = (case ending' of None \<Rightarrow> completed_value fp (serialize r) | Some e \<Rightarrow> ambiguous_value fp (exn_str e))"
    "ending' = None \<Longrightarrow> last_response evs = Some r"
proof -
  note ef = error_frame_interrupted
  from bill obtain ds where ds: "case ending of
        None \<Rightarrow> (\<exists>r rec. evs = map ChatStreamDelta ds @ [ChatStreamResponse r] \<and>
          resp_content r = concat ds \<and> after = before @ [rec] \<and> bills k r rec)
      | Some e \<Rightarrow> evs = map ChatStreamDelta ds \<and>
          ((\<exists>m part rec. e = UpstreamStreamInterrupted m (Some part) \<and>
              resp_content part = concat ds \<and> after = before @ [rec] \<and> bills k part rec) \<or> after = before)"
    unfolding stream_billing_def by (auto split: option.splits)
  show ?thesis
  proof (cases ending)
    case None
    with ds obtain r rec where r: "evs = map ChatStreamDelta ds @ [ChatStreamResponse r]" "resp_content r = concat ds"
      "after = before @ [rec]" "bills k r rec" by auto
    have u: "encoder_end ending' = None" using ends None ef(2) by (auto simp: encoder_end_def split: option.splits)
    let ?kept = "case ending' of None \<Rightarrow> completed_value fp (serialize r) | Some e \<Rightarrow> ambiguous_value fp (exn_str e)"
    have "last_frames ending' = [] \<or> last_frames ending' = last_frames (Some IdempotencyStoreUnavailable)"
      "ending' = None \<longleftrightarrow> last_frames ending' = []"
      "ending' \<noteq> None \<Longrightarrow> ending' = Some IdempotencyStoreUnavailable"
      using ends None ef(2) by (auto simp: last_frames_def split: option.splits)
    then have "stream_result k fp (map frame_of evs @ last_frames ending') (encoder_end ending') before done ?kept"
      unfolding stream_result_def using r u committed [OF u]
      by (intro exI [of _ ds] disjI1 exI [of _ r] exI [of _ rec] exI [of _ "last_frames ending'"])
        (auto simp: frames_of_deltas split: option.splits)
    with that [of ?kept r] show ?thesis by (simp add: r(1) last_response_deltas)
  next
    case (Some e)
    with ends have e: "ending' = Some e" by simp
    from ds Some have evs: "evs = map ChatStreamDelta ds"
      and c: "(\<exists>m part rec. e = UpstreamStreamInterrupted m (Some part) \<and>
              resp_content part = concat ds \<and> after = before @ [rec] \<and> bills k part rec) \<or> after = before" by auto
    have sr: "stream_result k fp (map frame_of evs @ last_frames ending') (encoder_end ending') before done (ambiguous_value fp (exn_str e))"
      using c
    proof (elim disjE exE conjE)
      fix m part rec
      assume p: "e = UpstreamStreamInterrupted m (Some part)" "resp_content part = concat ds" "after = before @ [rec]" "bills k part rec"
      then have u: "encoder_end ending' = None" using ef(1) e by (simp add: encoder_end_def split: option.splits)
      show ?thesis unfolding stream_result_def evs e
        by (intro exI [of _ ds] disjI2 disjI1 exI [of _ m] exI [of _ part] exI [of _ rec])
          (use p u committed [OF u] e in \<open>simp_all add: frames_of_deltas\<close>)
    next
      assume "after = before"
      then have "done = before" using committed rolled by (cases "encoder_end ending'") auto
      then show ?thesis unfolding stream_result_def evs e
        by (intro exI [of _ ds] disjI2 exI [of _ e]) (simp add: frames_of_deltas)
    qed
    show ?thesis by (rule that [OF sr]) (simp_all add: e)
  qed
qed

lemma served_stream:
  assumes "started d" and opened: "gw_stream (get_registry d) (get_router d) (chat_to_domain payload) a = (Inr g, rw_app w1)"
    and clean: "ss_usage (system_session w1) = []" and commits: "\<forall>u. h_commit_error (dp_host d) u = None"
  obtains enough where "\<And>n. enough \<le> n \<Longrightarrow> \<exists>frames failure w2 kept.
    serve_events d payload k n (Keyed key (IG_Start g)) w1 = ((frames, Some failure), w2) \<and>
    executions (rw_app w2) = executions (rw_app w1) \<and>
    stream_result (ak_id k) (fingerprint (fp_digest d) (chat_to_domain payload)) frames failure
      (usage_stored (ss_db (system_session w1))) (usage_stored (ss_db (system_session w2))) kept \<and>
    (leaves_key (dp_host d) (ak_id k) key \<and> 0 < idempotency_ttl_s (dp_config d) \<and> rw_up w1 \<longrightarrow>
      stored_value w2 (ak_id k) key = Some kept)"
proof -
  let ?fp = "fingerprint (fp_digest d) (chat_to_domain payload)"
  obtain enough where en: "\<And>n. enough \<le> n \<Longrightarrow> \<exists>evs ending g' w2.
    drive (drain_anext (get_usage_recorder d) (ak_id k)) n g (rw_app w1) = ((evs, Some ending), (g', w2)) \<and>
    stream_billing (ak_id k) [] (session_stored (fst (outer (rw_app w1)))) evs ending (session_stored (fst (outer w2))) \<and>
    executions w2 = executions (rw_app w1) \<and> ss_db (fst (outer w2)) = ss_db (fst (outer (rw_app w1)))"
    using opened_drained [OF assms(1) opened] by blast
  show ?thesis
  proof (rule that [of "Suc (Suc enough)"])
    fix n
    assume "Suc (Suc enough) \<le> n"
    then have m: "Suc enough < n" "0 < Suc enough" "enough \<le> Suc enough" by auto
    from en [OF m(3)] obtain evs ending g' a2
      where run: "drive (drain_anext (get_usage_recorder d) (ak_id k)) (Suc enough) g (rw_app w1) = ((evs, Some ending), (g', a2))"
        and bill: "stream_billing (ak_id k) [] (session_stored (fst (outer (rw_app w1)))) evs ending (session_stored (fst (outer a2)))"
        and ex: "executions a2 = executions (rw_app w1)" and db: "ss_db (fst (outer a2)) = ss_db (fst (outer (rw_app w1)))" by blast
    obtain ending' w' where settled: "drive (settle_anext d payload (ak_id k) key) (Suc enough) (IG_Start g) w1 = ((evs, Some ending'), (IG_Done, w'))"
      and w': "rw_app w' = a2" and ends: "ending' = ending \<or> ending = None \<and> ending' = Some IdempotencyStoreUnavailable"
      by (rule settled_drive [OF run bill m(2)])
    from events_drive_keyed [OF settled [unfolded settle_anext_def]]
    have frames: "sse_frames (events_anext (get_gateway_service d) (fp_digest d) (chat_to_domain payload) (ak_id k)) n
        (SSE_Run (Keyed key (IG_Start g))) w1 = ((map frame_of evs @ last_frames ending', Some (encoder_end ending')), w')"
      by (rule sse_frames_drive [OF _ m(1)])
    define w2 where "w2 = close_session (se_commit (get_session d)) (se_rollback (get_session d)) (encoder_end ending') w'"
    have sent: "serve_events d payload k n (Keyed key (IG_Start g)) w1 =
        ((map frame_of evs @ last_frames ending', Some (encoder_end ending')), w2)"
      by (simp add: serve_events_def send_events_def frames w2_def)
    have "session_stored (fst (outer (rw_app w1))) = usage_stored (ss_db (system_session w1))"
      using clean by (simp add: system_session_def session_stored_clean)
    note bill = bill [unfolded this]
    have committed: "usage_stored (ss_db (system_session w2)) = session_stored (fst (outer a2))" if "encoder_end ending' = None"
      using that commits by (simp add: w2_def close_session_def commit_session_ok) (simp add: system_session_def w')
    have rolled: "usage_stored (ss_db (system_session w2)) = usage_stored (ss_db (system_session w1))" if "encoder_end ending' \<noteq> None"
      using that db by (auto simp: w2_def close_session_def get_session_def) (simp add: system_session_def w')
    obtain kept r where res: "stream_result (ak_id k) ?fp (map frame_of evs @ last_frames ending') (encoder_end ending')
          (usage_stored (ss_db (system_session w1))) (usage_stored (ss_db (system_session w2))) kept"
      and kept: "kept = (case ending' of None \<Rightarrow> completed_value ?fp (serialize r) | Some e \<Rightarrow> ambiguous_value ?fp (exn_str e))"
      and lr: "ending' = None \<Longrightarrow> last_response evs = Some r"
      by (rule stream_result_settled [OF bill ends committed rolled, of ?fp]) auto
    have "stored_value w2 (ak_id k) key = stored_value w' (ak_id k) key" "executions (rw_app w2) = executions (rw_app w')"
      by (simp_all add: w2_def close_session_def get_session_def split: option.splits)
    then show "\<exists>frames failure w2 kept. serve_events d payload k n (Keyed key (IG_Start g)) w1 = ((frames, Some failure), w2) \<and>
        executions (rw_app w2) = executions (rw_app w1) \<and>
        stream_result (ak_id k) ?fp frames failure (usage_stored (ss_db (system_session w1)))
          (usage_stored (ss_db (system_session w2))) kept \<and>
        (leaves_key (dp_host d) (ak_id k) key \<and> 0 < idempotency_ttl_s (dp_config d) \<and> rw_up w1 \<longrightarrow>
          stored_value w2 (ak_id k) key = Some kept)"
      using sent res ex w' settled_kept [OF _ _ _ m(2) settled, of r] kept lr
      by (intro exI conjI) (auto split: option.splits)
  qed
qed

text \<open>The stream that replays a completed record: its text at once, and the final frame.\<close>

definition replay_frames :: "chat_response \<Rightarrow> sse_frame list" where
  "replay_frames r = (if resp_content r = [] then [] else [DeltaFrame (resp_content r)]) @ [DoneFrame (chat_from_domain r)]"

lemma served_replay:
  assumes "deserialize b = Inr r" and "4 \<le> n"
  shows "serve_events d payload k n (Keyed key (IG_Replay b)) w =
    ((replay_frames r, Some None),
     commit_session d w)"
proof -
  have "drive (settle_anext d payload (ak_id k) key) 3 (IG_Replay b) w =
      (((if resp_content r = [] then [] else [ChatStreamDelta (resp_content r)]) @ [ChatStreamResponse r], Some None), (IG_Done, w))"
    unfolding settle_anext_def by (rule replay_drive [OF assms(1)])
  from sse_frames_drive [OF events_drive_keyed [OF this [unfolded settle_anext_def]], of n] assms(2)
  show ?thesis by (simp add: serve_events_def send_events_def last_frames_def encoder_end_def close_session_def replay_frames_def)
qed

subsection \<open>A client that leaves\<close>

text \<open>
  When the client goes away, nothing pulls the stream any more: the iterator behind the encoder is
  closed and the session ends, by a commit or with the cancellation, whichever the server makes
  of it (\<open>failure\<close>).
\<close>

definition events_aclose ::
  "('g, 'w) chat_services \<Rightarrow> (fingerprint_payload \<Rightarrow> string) \<Rightarrow> chat_request \<Rightarrow> uuid \<Rightarrow> 'g events \<Rightarrow> 'w \<Rightarrow> 'g events \<times> 'w" where
  "events_aclose svc digest request api_key_id ev w =
     (case ev of
        Plain g \<Rightarrow> (case cs_aclose svc g w of (g', w') \<Rightarrow> (Plain g', w'))
      | Keyed key g \<Rightarrow>
          (case idem_aclose (cs_store svc) (cs_aclose svc) key api_key_id (fingerprint digest request) g w of
             (g', w') \<Rightarrow> (Keyed key g', w')))"

definition client_leaves ::
  "'z deployment \<Rightarrow> chat_payload \<Rightarrow> api_key \<Rightarrow> nat \<Rightarrow> exn option \<Rightarrow> 'z gateway_gen events \<Rightarrow> 'z system
   \<Rightarrow> sse_frame list \<times> 'z system" where
  "client_leaves d payload k n failure ev w =
     (let svc = get_gateway_service d; digest = h_fingerprint_digest (dp_host d); request = chat_to_domain payload in
      case drive (events_anext svc digest request (ak_id k)) n ev w of
        ((evs, r), (ev', w')) \<Rightarrow>
          (map frame_of evs, close_session (se_commit (get_session d)) (se_rollback (get_session d)) failure
             (snd (events_aclose svc digest request (ak_id k) ev' w'))))"

text \<open>A pull that yields a delta writes nothing.\<close>

lemma delta_pull_keeps:
  assumes nx: "\<And>g w y w'. nx g w = (y, w') \<Longrightarrow> f (outer w') = f (outer w)"
    and "drains_with nx dg" and "drain_anext rec k dg w = ((Yielded (ChatStreamDelta t), dg'), w')"
  shows "f (outer w') = f (outer w) \<and> drains_with nx dg'"
proof -
  have e: "drain_except rec k it e u \<noteq> ((Yielded y, g), v)" for it e u y g v
    by (auto simp: drain_except_def split: exn.splits option.splits prod.splits sum.splits)
  have m: "v = u \<and> drains_with nx g" if "drain_emit rec k nx it ev u = ((Yielded (ChatStreamDelta t), g), v)" for it ev u g v
    using that by (cases ev) (auto simp: e split: prod.splits sum.splits)
  show ?thesis
  proof (cases dg)
    case (DR_Delta nx' it)
    obtain x1 it1 w1 where p: "nx it w = ((x1, it1), w1)" by (metis prod.collapse)
    from nx [OF p] assms(2,3) DR_Delta p show ?thesis by (cases x1) (auto simp: e dest: m)
  qed (use assms(2,3) in \<open>auto dest: m\<close>)
qed

lemma delta_drive:
  assumes nx: "\<And>g w y w'. nx g w = (y, w') \<Longrightarrow> fst (outer w') = fst (outer w)"
  shows "drains_with nx g \<Longrightarrow>
    drive (settle_anext d payload k key) n (IG_Delta g) w = ((map ChatStreamDelta ds, r), (ig, w')) \<Longrightarrow> length ds = n \<Longrightarrow>
    \<exists>g'. ig = IG_Delta g' \<and> system_session w' = system_session w \<and>
      (leaves_key (dp_host d) k key \<longrightarrow> keeps_record k key w w')"
proof (induction n arbitrary: g w ds)
  case 0
  then show ?case by (auto simp: keeps_record_def)
next
  case (Suc n)
  then obtain t ts where ds: "ds = t # ts" "length ts = n" by (cases ds) auto
  obtain x g1 a where pull: "drain_anext (get_usage_recorder d) k g (rw_app w) = ((x, g1), a)" by (metis prod.collapse)
  let ?w1 = "meanwhile (dp_host d) (w\<lparr>rw_app := a\<rparr>)"
  have step: "in_process (dp_host d) (drain_anext (get_usage_recorder d) k g) w = ((x, g1), ?w1)"
    by (simp add: in_process_def pull)
  have x: "x = Yielded (ChatStreamDelta t)"
    and rest: "drive (settle_anext d payload k key) n (IG_Delta g1) ?w1 = ((map ChatStreamDelta ts, r), (ig, w'))"
    using Suc.prems(2) ds(1) settle_except_app
    by (auto simp: settle_anext_eq settle_next_def step settle_except_def split: pull.splits chat_stream_event.splits prod.splits sum.splits)
  from delta_pull_keeps [of nx fst, OF nx Suc.prems(1) pull [unfolded x]]
  have keep: "system_session ?w1 = system_session w" "drains_with nx g1" by (auto simp: system_session_def)
  have "keeps_record k key w ?w1" if "leaves_key (dp_host d) k key"
  proof -
    have "keeps_record k key w (snd (in_process (dp_host d) (drain_anext (get_usage_recorder d) k g) w))"
      using leaves_key_primed [OF that, unfolded primed_ok_def, THEN spec [of _ g], THEN spec [of _ w]] by (rule conjunct1)
    then show ?thesis by (simp add: step)
  qed
  with Suc.IH [OF keep(2) rest ds(2)] keep(1) show ?case by (auto simp: keeps_record_def)
qed

lemma deltas_of_frames: "map frame_of evs = map DeltaFrame ds \<Longrightarrow> evs = map ChatStreamDelta ds"
proof (induction evs arbitrary: ds)
  case (Cons ev evs)
  then show ?case by (cases ds; cases ev) auto
qed simp

text \<open>Closing a keyed stream that has yielded only deltas.\<close>

lemma left_stream:
  assumes "started d" and opened: "gw_stream (get_registry d) (get_router d) (chat_to_domain payload) a = (Inr g, rw_app w1)"
    and clean: "ss_usage (system_session w1) = []"
    and leave: "client_leaves d payload k n failure (Keyed key (IG_Start g)) w1 = (map DeltaFrame ds, w2)" and "length ds = n"
  shows "usage_stored (ss_db (system_session w2)) = usage_stored (ss_db (system_session w1))"
    and "0 < n \<Longrightarrow> leaves_key (dp_host d) (ak_id k) key \<Longrightarrow> 0 < idempotency_ttl_s (dp_config d) \<Longrightarrow> rw_up w1 \<Longrightarrow>
      stored_value w2 (ak_id k) key = Some (ambiguous_value (fingerprint (fp_digest d) (chat_to_domain payload)) [])"
proof -
  let ?fp = "fingerprint (fp_digest d) (chat_to_domain payload)"
  let ?port = "redis_port (server_store (idempotency_inflight_ttl_s (dp_config d)) (idempotency_ttl_s (dp_config d)))"
  let ?close = "close_session (se_commit (get_session d)) (se_rollback (get_session d)) failure"
  obtain evs r ig w' where run: "drive (settle_anext d payload (ak_id k) key) n (IG_Start g) w1 = ((evs, r), (ig, w'))"
    by (metis prod.collapse)
  define w3 where "w3 = snd (idem_aclose ?port (\<lambda>g w. (drain_aclose g, w)) key (ak_id k) ?fp ig w')"
  from leave events_drive_keyed [OF run [unfolded settle_anext_def]]
  have evs: "evs = map ChatStreamDelta ds" and w2: "w2 = ?close w3"
    by (auto simp: client_leaves_def events_aclose_def Let_def w3_def get_gateway_service_def get_idempotency_service_def
        deltas_of_frames split: prod.splits)
  obtain cs where "gw_stream_loop (get_registry d) (chat_to_domain payload) None cs a = (Inr g, rw_app w1)"
    using opened by (auto simp: gw_stream_def split: sum.splits)
  from gw_stream_committed [OF this] obtain p ad it ev
    where ad: "get_registry d p = Some ad" "g = DR_Start (ad_anext ad) it ev" by blast
  have read: "\<exists>g'. ig = IG_Delta g' \<and> system_session w' = system_session w1 \<and>
      (leaves_key (dp_host d) (ak_id k) key \<longrightarrow> keeps_record (ak_id k) key w1 w')" if "0 < n"
    using delta_drive [of "ad_anext ad" g d payload "ak_id k" key n w1 ds r ig w'] run evs assms(5) ad
      system_anext_keeps [OF assms(1) ad(1)] by (simp add: settle_start [OF that])
  have "rw_app w3 = rw_app w'" if "ig = IG_Delta g'" for g'
    using settle_except_app [of "idempotency_inflight_ttl_s (dp_config d)" "idempotency_ttl_s (dp_config d)" drain_aclose key "ak_id k" ?fp g' GeneratorExit w']
    by (auto simp: w3_def that)
  then have session: "system_session w3 = system_session w1"
    using read run assms(5) by (cases n) (auto simp: w3_def system_session_def)
  then show "usage_stored (ss_db (system_session w2)) = usage_stored (ss_db (system_session w1))"
    using clean by (simp add: w2 close_session_def get_session_def session_stored_clean split: option.splits)
  assume "0 < n" and key: "leaves_key (dp_host d) (ak_id k) key" and ttl: "0 < idempotency_ttl_s (dp_config d)" and up: "rw_up w1"
  from read [OF this(1)] key obtain g' where ig: "ig = IG_Delta g'" and "rw_up w'" using up by (auto simp: keeps_record_def)
  obtain w4 where "settle_except ?port (\<lambda>g w. (drain_aclose g, w)) key (ak_id k) ?fp g' GeneratorExit w' = ((Raised GeneratorExit, IG_Done), w4)"
    and "stored_value w4 (ak_id k) key = Some (ambiguous_value ?fp (exn_str GeneratorExit))"
    by (rule settle_except_server [OF leaves_key_primed [OF key] \<open>rw_up w'\<close> ttl])
  then have "stored_value w3 (ak_id k) key = Some (ambiguous_value ?fp [])" by (simp add: w3_def ig)
  then show "stored_value w2 (ak_id k) key = Some (ambiguous_value ?fp [])"
    by (simp add: w2 close_session_def get_session_def split: option.splits)
qed

end
