(* ===== verification/Http_Routes.thy ===== *)
theory Http_Routes
  imports Relayix_System
begin

text \<open>
  The application object of \<open>app/main.py\<close>: the four routers with their prefixes and paths, and one
  HTTP request from its route to its response and the state it leaves. Reading JSON, uuids, dates
  and numbers is pydantic's, an argument. A path that no route has is answered by FastAPI itself
  (404, 405, a redirect, its documentation pages), which is not part of the program.
\<close>

subsection \<open>The routers\<close>

datatype http_method = GET | POST

datatype path_part = Seg string | Param string

datatype endpoint =
    Liveness | Readiness
  | Create_completion
  | Get_usage_summary | List_usage_records | Get_usage_by_model
  | Create_api_key | List_api_keys | Revoke_api_key

record api_router =
  rt_prefix :: "path_part list"
  rt_routes :: "(http_method \<times> path_part list \<times> endpoint) list"

definition health_router :: api_router where
  "health_router = \<lparr>rt_prefix = [],
     rt_routes = [(GET, [Seg ''health''], Liveness), (GET, [Seg ''health'', Seg ''ready''], Readiness)]\<rparr>"

definition chat_router :: api_router where
  "chat_router = \<lparr>rt_prefix = [Seg ''v1'', Seg ''chat''],
     rt_routes = [(POST, [Seg ''completions''], Create_completion)]\<rparr>"

definition usage_router :: api_router where
  "usage_router = \<lparr>rt_prefix = [Seg ''v1'', Seg ''usage''],
     rt_routes = [(GET, [], Get_usage_summary), (GET, [Seg ''records''], List_usage_records),
       (GET, [Seg ''by-model''], Get_usage_by_model)]\<rparr>"

definition api_keys_router :: api_router where
  "api_keys_router = \<lparr>rt_prefix = [Seg ''v1'', Seg ''api-keys''],
     rt_routes = [(POST, [], Create_api_key), (GET, [], List_api_keys),
       (POST, [Param ''api_key_id'', Seg ''revoke''], Revoke_api_key)]\<rparr>"

definition include_router :: "api_router \<Rightarrow> (http_method \<times> path_part list \<times> endpoint) list" where
  "include_router r = map (\<lambda>(m, p, ep). (m, rt_prefix r @ p, ep)) (rt_routes r)"

definition app_routes :: "(http_method \<times> path_part list \<times> endpoint) list" where
  "app_routes = concat (map include_router [health_router, chat_router, usage_router, api_keys_router])"

text \<open>A path in its segments; the values of the parameters when it matches.\<close>

fun match_path :: "path_part list \<Rightarrow> string list \<Rightarrow> string list option" where
  "match_path [] [] = Some []"
| "match_path (Seg s # ps) (x # xs) = (if x = s then match_path ps xs else None)"
| "match_path (Param n # ps) (x # xs) = (if x = [] then None else map_option ((#) x) (match_path ps xs))"
| "match_path _ _ = None"

fun route_in :: "(http_method \<times> path_part list \<times> endpoint) list \<Rightarrow> http_method \<Rightarrow> string list
    \<Rightarrow> (endpoint \<times> string list) option" where
  "route_in [] m path = None"
| "route_in ((m', p, ep) # rs) m path =
     (case (if m = m' then match_path p path else None) of
        Some vs \<Rightarrow> Some (ep, vs) | None \<Rightarrow> route_in rs m path)"

definition route_of :: "http_method \<Rightarrow> string list \<Rightarrow> (endpoint \<times> string list) option" where
  "route_of = route_in app_routes"

subsection \<open>Requests and responses\<close>

record http_request =
  hq_method :: http_method
  hq_path :: "string list"
  hq_authorization :: "string option"
  hq_idempotency_key :: "string option"
  hq_since :: "string option"
  hq_until :: "string option"
  hq_limit :: "string option"
  hq_offset :: "string option"
  hq_body :: string

record 'j pydantic =
  py_json :: "string \<Rightarrow> 'j option"
  py_chat :: "'j \<Rightarrow> chat_payload option"
  py_api_key :: "'j \<Rightarrow> api_key_payload option"
  py_uuid :: "string \<Rightarrow> uuid option"
  py_datetime :: "string \<Rightarrow> datetime option"
  py_int :: "string \<Rightarrow> int option"

text \<open>
  What the request meets besides the process: randomness and the clock for a new key, the pings,
  PostgreSQL's order of rows.
\<close>

record surroundings =
  sr_random :: string
  sr_uuid :: uuid
  sr_now :: datetime
  sr_ping_postgres :: "unit result \<times> seconds"
  sr_ping_redis_s :: seconds
  sr_order_records :: "usage_row list \<Rightarrow> usage_row list"
  sr_order_groups :: "usage_group list \<Rightarrow> usage_group list"
  sr_order_keys :: "api_key list \<Rightarrow> api_key list"

datatype 'g response =
    Alive "(string \<times> string) list"
  | Ready readiness_report
  | Completion "'g completion"
  | Summary usage_summary_schema
  | Records "usage_record_schema list"
  | Models "usage_by_model_schema list"
  | Created api_key_create_response_schema
  | Keys "api_key_schema list"
  | Key api_key_schema
  | Error error_response
  | Refused
  | Not_routed
  | Dropped

text \<open>The handlers of \<open>app/main.py\<close> on what a handler raised; \<open>Dropped\<close>: the task was cancelled.\<close>

fun render :: "('b \<Rightarrow> 'g response) \<Rightarrow> 'b reply \<Rightarrow> 'g response" where
  "render f (Ok b) = f b"
| "render f (Failed e) = (case error_response_for e of Some r \<Rightarrow> Error r | None \<Rightarrow> Dropped)"
| "render f Unprocessable = Refused"

fun status_of :: "'g response \<Rightarrow> int option" where
  "status_of (Ready r) = Some (rr_status_code r)"
| "status_of (Created v) = Some 201"
| "status_of (Error r) = Some (er_status r)"
| "status_of Refused = Some 422"
| "status_of Not_routed = None"
| "status_of Dropped = None"
| "status_of _ = Some 200"

subsection \<open>The endpoints\<close>

text \<open>
  A handler that reads and the end of its session; one that writes, whose session is committed
  after the response was sent.
\<close>

definition read_only :: "'z deployment \<Rightarrow> (database \<Rightarrow> 'b reply) \<Rightarrow> 'z system \<Rightarrow> 'b reply \<times> 'z system" where
  "read_only d f w =
     (let r = f (se_database (get_session d) w)
      in (r, case r of Ok b \<Rightarrow> se_commit (get_session d) w | _ \<Rightarrow> se_rollback (get_session d) w))"

definition written :: "'z deployment \<Rightarrow> (database \<Rightarrow> 'b reply \<times> database) \<Rightarrow> 'z system \<Rightarrow> 'b reply \<times> 'z system" where
  "written d f w =
     (case f (se_database (get_session d) w) of
        (Ok b, db) \<Rightarrow> (Ok b, case h_commit_error (dp_host d) w of
            None \<Rightarrow> on_session (\<lambda>s. session_commit (s\<lparr>ss_db := db\<rparr>)) w
          | Some e \<Rightarrow> on_session session_rollback w)
      | (r, db) \<Rightarrow> (r, on_session session_rollback w))"

text \<open>The dependencies run before a body of the wrong shape is refused.\<close>

definition refused_chat :: "'z deployment \<Rightarrow> string option \<Rightarrow> 'z system \<Rightarrow> 'b reply \<times> 'z system" where
  "refused_chat d authorization w =
     (case authenticate d authorization w of
        Inl e \<Rightarrow> (Failed e, on_session session_rollback w)
      | Inr k \<Rightarrow>
          (case throttle d k w of
             (Inl e, w') \<Rightarrow> (Failed e, on_session session_rollback w')
           | (Inr u, w') \<Rightarrow> (Unprocessable, on_session session_rollback w')))"

definition refused_usage :: "'z deployment \<Rightarrow> string option \<Rightarrow> database \<Rightarrow> 'b reply" where
  "refused_usage d authorization db =
     (case get_current_api_key_id (h_hash_api_key (dp_host d)) authorization db of
        Inl e \<Rightarrow> Failed e | Inr i \<Rightarrow> Unprocessable)"

definition refused_admin :: "settings \<Rightarrow> string option \<Rightarrow> 'b reply" where
  "refused_admin config authorization =
     (case get_current_admin config authorization of Inl e \<Rightarrow> Failed e | Inr u \<Rightarrow> Unprocessable)"

text \<open>A query parameter: absent, read, or \<open>None\<close> when it cannot be read.\<close>

definition query :: "(string \<Rightarrow> 'a option) \<Rightarrow> string option \<Rightarrow> 'a option option" where
  "query parse raw = (case raw of None \<Rightarrow> Some None | Some s \<Rightarrow> map_option Some (parse s))"

definition query_default :: "(string \<Rightarrow> 'a option) \<Rightarrow> 'a \<Rightarrow> string option \<Rightarrow> 'a option" where
  "query_default parse standard raw = (case raw of None \<Rightarrow> Some standard | Some s \<Rightarrow> parse s)"

definition usage_handler ::
  "'j pydantic \<Rightarrow> 'z deployment \<Rightarrow> http_request \<Rightarrow> (datetime option \<Rightarrow> datetime option \<Rightarrow> database \<Rightarrow> 'b reply)
   \<Rightarrow> database \<Rightarrow> 'b reply" where
  "usage_handler py d rq f db =
     (case (query (py_datetime py) (hq_since rq), query (py_datetime py) (hq_until rq)) of
        (Some since, Some until) \<Rightarrow> f since until db
      | _ \<Rightarrow> refused_usage d (hq_authorization rq) db)"

definition records_handler ::
  "'j pydantic \<Rightarrow> surroundings \<Rightarrow> 'z deployment \<Rightarrow> http_request \<Rightarrow> datetime option \<Rightarrow> datetime option \<Rightarrow> database
   \<Rightarrow> usage_record_schema list reply" where
  "records_handler py sr d rq since until db =
     (case (query_default (py_int py) 50 (hq_limit rq), query_default (py_int py) 0 (hq_offset rq)) of
        (Some limit, Some offset) \<Rightarrow>
          list_usage_records (sr_order_records sr) (h_hash_api_key (dp_host d)) (hq_authorization rq)
            since until limit offset db
      | _ \<Rightarrow> refused_usage d (hq_authorization rq) db)"

text \<open>\<open>_ping_redis\<close> on the server as it is.\<close>

definition ping_redis :: "'z system \<Rightarrow> unit result" where
  "ping_redis w = (if rw_up w then Inr () else Inl (OSError [Lit ''connection refused'']))"

definition completion_handler ::
  "'j pydantic \<Rightarrow> 'z deployment \<Rightarrow> http_request \<Rightarrow> 'z system \<Rightarrow> 'z gateway_gen completion reply \<times> 'z system" where
  "completion_handler py d rq w =
     (case py_json py (hq_body rq) of
        None \<Rightarrow> (Unprocessable, w)
      | Some j \<Rightarrow>
          (case py_chat py j of
             None \<Rightarrow> refused_chat d (hq_authorization rq) w
           | Some payload \<Rightarrow> serve_chat d (hq_authorization rq) (hq_idempotency_key rq) payload w))"

definition create_handler ::
  "'j pydantic \<Rightarrow> surroundings \<Rightarrow> 'z deployment \<Rightarrow> http_request \<Rightarrow> 'z system
   \<Rightarrow> api_key_create_response_schema reply \<times> 'z system" where
  "create_handler py sr d rq w =
     (case py_json py (hq_body rq) of
        None \<Rightarrow> (Unprocessable, w)
      | Some j \<Rightarrow> written d (\<lambda>db. case py_api_key py j of
             None \<Rightarrow> (refused_admin (dp_config d) (hq_authorization rq), db)
           | Some payload \<Rightarrow> post_api_key (dp_config d) (h_hash_api_key (dp_host d)) (sr_random sr) (sr_uuid sr)
               (sr_now sr) (hq_authorization rq) payload db) w)"

definition revoke_handler ::
  "'j pydantic \<Rightarrow> 'z deployment \<Rightarrow> http_request \<Rightarrow> string list \<Rightarrow> 'z system \<Rightarrow> api_key_schema reply \<times> 'z system" where
  "revoke_handler py d rq params =
     written d (\<lambda>db. case py_uuid py (concat params) of
         None \<Rightarrow> (refused_admin (dp_config d) (hq_authorization rq), db)
       | Some i \<Rightarrow> post_revoke (dp_config d) (hq_authorization rq) i db)"

definition handle_endpoint ::
  "'j pydantic \<Rightarrow> surroundings \<Rightarrow> 'z deployment \<Rightarrow> http_request \<Rightarrow> endpoint \<Rightarrow> string list \<Rightarrow> 'z system
   \<Rightarrow> 'z gateway_gen response \<times> 'z system" where
  "handle_endpoint py sr d rq ep params w =
     (let digest = h_hash_api_key (dp_host d); auth = hq_authorization rq in
      case ep of
        Liveness \<Rightarrow> (Alive liveness, w)
      | Readiness \<Rightarrow> (case readiness (dp_config d) (sr_ping_postgres sr) (ping_redis w, sr_ping_redis_s sr) of
            Inl e \<Rightarrow> (render Ready (Failed e), w) | Inr r \<Rightarrow> (Ready r, w))
      | Create_completion \<Rightarrow> map_prod (render Completion) id (completion_handler py d rq w)
      | Get_usage_summary \<Rightarrow> map_prod (render Summary) id
          (read_only d (usage_handler py d rq (get_usage_summary digest auth)) w)
      | List_usage_records \<Rightarrow> map_prod (render Records) id
          (read_only d (usage_handler py d rq (records_handler py sr d rq)) w)
      | Get_usage_by_model \<Rightarrow> map_prod (render Models) id
          (read_only d (usage_handler py d rq (get_usage_by_model (sr_order_groups sr) digest auth)) w)
      | Create_api_key \<Rightarrow> map_prod (render Created) id (create_handler py sr d rq w)
      | List_api_keys \<Rightarrow> map_prod (render Keys) id
          (read_only d (get_api_keys (sr_order_keys sr) (dp_config d) auth) w)
      | Revoke_api_key \<Rightarrow> map_prod (render Key) id (revoke_handler py d rq params w))"

definition handle_request ::
  "'j pydantic \<Rightarrow> surroundings \<Rightarrow> 'z deployment \<Rightarrow> http_request \<Rightarrow> 'z system \<Rightarrow> 'z gateway_gen response \<times> 'z system" where
  "handle_request py sr d rq w =
     (case route_of (hq_method rq) (hq_path rq) of
        None \<Rightarrow> (Not_routed, w)
      | Some (ep, params) \<Rightarrow> handle_endpoint py sr d rq ep params w)"

subsection \<open>The route table\<close>

lemma app_routes_eq:
  "app_routes =
    [(GET, [Seg ''health''], Liveness), (GET, [Seg ''health'', Seg ''ready''], Readiness),
     (POST, [Seg ''v1'', Seg ''chat'', Seg ''completions''], Create_completion),
     (GET, [Seg ''v1'', Seg ''usage''], Get_usage_summary),
     (GET, [Seg ''v1'', Seg ''usage'', Seg ''records''], List_usage_records),
     (GET, [Seg ''v1'', Seg ''usage'', Seg ''by-model''], Get_usage_by_model),
     (POST, [Seg ''v1'', Seg ''api-keys''], Create_api_key), (GET, [Seg ''v1'', Seg ''api-keys''], List_api_keys),
     (POST, [Seg ''v1'', Seg ''api-keys'', Param ''api_key_id'', Seg ''revoke''], Revoke_api_key)]"
  by (simp add: app_routes_def include_router_def health_router_def chat_router_def usage_router_def api_keys_router_def)

text \<open>No two routes compete for a request, so the order in which the routers are included does not matter.\<close>

lemma match_path_Some:
  "match_path [] xs = Some vs \<longleftrightarrow> xs = [] \<and> vs = []"
  "match_path (Seg s # ps) xs = Some vs \<longleftrightarrow> (\<exists>ys. xs = s # ys \<and> match_path ps ys = Some vs)"
  "match_path (Param n # ps) xs = Some vs \<longleftrightarrow> (\<exists>x ys us. xs = x # ys \<and> x \<noteq> [] \<and> match_path ps ys = Some us \<and> vs = x # us)"
  by (cases xs; auto split: if_splits)+

lemma route_in_Some: "route_in rs m path = Some (ep, vs) \<Longrightarrow> \<exists>p. (m, p, ep) \<in> set rs \<and> match_path p path = Some vs"
  by (induction rs m path rule: route_in.induct) (auto split: option.splits if_splits)

lemma routes_unambiguous:
  assumes "(m, p, ep) \<in> set app_routes" and "match_path p path = Some vs"
  shows "route_of m path = Some (ep, vs)"
proof -
  have "\<exists>r. route_in rs m path = Some r" if "(m, p, ep) \<in> set rs" for rs
    using that assms(2) by (induction rs) (auto split: option.splits)
  then obtain ep' vs' where r: "route_of m path = Some (ep', vs')"
    using assms(1) unfolding route_of_def by (metis surj_pair)
  from route_in_Some [OF this [unfolded route_of_def]] obtain p' where "(m, p', ep') \<in> set app_routes" "match_path p' path = Some vs'"
    by blast
  with assms have "ep' = ep \<and> vs' = vs"
    unfolding app_routes_eq by (auto simp: match_path_Some)
  with r show ?thesis by simp
qed

subsection \<open>Who may do what\<close>

text \<open>The credentials an endpoint asks for: none, an active api key, or the admin token.\<close>

definition granted :: "'z deployment \<Rightarrow> endpoint \<Rightarrow> string option \<Rightarrow> 'z system \<Rightarrow> bool" where
  "granted d ep authorization w =
     (case ep of
        Liveness \<Rightarrow> True | Readiness \<Rightarrow> True
      | Create_api_key \<Rightarrow> get_current_admin (dp_config d) authorization = Inr ()
      | List_api_keys \<Rightarrow> get_current_admin (dp_config d) authorization = Inr ()
      | Revoke_api_key \<Rightarrow> get_current_admin (dp_config d) authorization = Inr ()
      | _ \<Rightarrow> \<not> isl (authenticate d authorization w))"

definition admin_endpoint :: "endpoint \<Rightarrow> bool" where
  "admin_endpoint ep \<longleftrightarrow> ep \<in> {Create_api_key, List_api_keys, Revoke_api_key}"

definition unauthorized :: error_response where
  "unauthorized = handle_app_error Unauthorized"

lemma unauthorized_status: "er_status unauthorized = 401" "error_response_for Unauthorized = Some unauthorized"
  by (simp_all add: unauthorized_def handle_app_error_def error_response_for_def to_dict_def is_AppError_def)

lemma authenticate_Inl: "authenticate d a w = Inl e \<Longrightarrow> e = Unauthorized"
  by (auto simp: authenticate_def get_current_api_key_def split: option.splits)

lemma admin_Inl:
  "get_current_admin config a = Inl e \<Longrightarrow> e = Unauthorized \<or> e = TypeError [Lit ''comparing strings with non-ASCII characters is not supported''] \<and>
    (\<exists>t. bearer_token a = Some t \<and> \<not> (py_ascii t \<and> py_ascii (admin_api_token config)))"
  by (auto simp: get_current_admin_def compare_digest_def split: option.splits if_splits)

lemma clean_session [simp]:
  assumes "ss_usage (system_session w) = []"
  shows "on_session session_rollback w = w" "on_session session_commit w = w" "se_commit (get_session d) w = w"
    "se_rollback (get_session d) w = w"
  using assms by (auto simp: session_rollback_def session_commit_def get_session_def intro!: on_session_same split: option.splits)

lemma get_session_db: "se_database (get_session d) w = ss_db (system_session w)"
  by (simp add: get_session_def)

lemma read_only_state [simp]: "ss_usage (system_session w) = [] \<Longrightarrow> read_only d f w = (f (ss_db (system_session w)), w)"
  by (auto simp: read_only_def Let_def get_session_db split: reply.splits)

lemma written_failed: "f (ss_db (system_session w)) = (Failed e, db) \<Longrightarrow> written d f w = (Failed e, on_session session_rollback w)"
  by (simp add: written_def get_session_def)

lemma serve_chat_unauthorized:
  "authenticate d a w = Inl e \<Longrightarrow> serve_chat d a key payload w = (Failed e, on_session session_rollback w)"
  "authenticate d a w = Inl e \<Longrightarrow> refused_chat d a w = (Failed e, on_session session_rollback w)"
  by (simp_all add: serve_chat_def refused_chat_def post_completions_def authenticate_def close_session_def get_session_def)

text \<open>A body that pydantic reads but whose values are refused meets the same dependencies.\<close>

lemma serve_chat_refused: "\<not> chat_payload_valid payload \<Longrightarrow> serve_chat d a key payload w = refused_chat d a w"
  by (simp add: serve_chat_def refused_chat_def post_completions_def authenticate_def throttle_def close_session_def
      get_session_def split: sum.splits prod.splits)

lemma usage_unauthorized:
  assumes "authenticate d (hq_authorization rq) w = Inl e"
  shows "usage_handler py d rq (get_usage_summary (h_hash_api_key (dp_host d)) (hq_authorization rq)) (ss_db (system_session w)) = Failed e"
    "usage_handler py d rq (records_handler py sr d rq) (ss_db (system_session w)) = Failed e"
    "usage_handler py d rq (get_usage_by_model order (h_hash_api_key (dp_host d)) (hq_authorization rq)) (ss_db (system_session w)) = Failed e"
  using assms by (auto simp: usage_handler_def records_handler_def refused_usage_def get_usage_summary_def
      list_usage_records_def get_usage_by_model_def get_current_api_key_id_def authenticate_def split: option.splits)

lemma admin_refused:
  assumes "get_current_admin (dp_config d) (hq_authorization rq) = Inl e"
  shows "py_json py (hq_body rq) = Some j \<Longrightarrow> create_handler py sr d rq w = (Failed e, on_session session_rollback w)"
    "revoke_handler py d rq params w = (Failed e, on_session session_rollback w)"
    "get_api_keys order (dp_config d) (hq_authorization rq) db = Failed e"
  using assms by (auto simp: create_handler_def revoke_handler_def get_api_keys_def written_def get_session_def
      post_api_key_def post_revoke_def refused_admin_def split: option.splits)

lemma readers_keep:
  assumes "ss_usage (system_session w) = []" and "ep \<notin> {Create_completion, Create_api_key, Revoke_api_key}"
  shows "snd (handle_endpoint py sr d rq ep params w) = w"
  using assms by (cases ep) (simp_all add: handle_endpoint_def Let_def split: sum.splits)

text \<open>The answers to a request without the credentials.\<close>

definition turned_away :: "'j pydantic \<Rightarrow> settings \<Rightarrow> http_request \<Rightarrow> endpoint \<Rightarrow> 'g response \<Rightarrow> bool" where
  "turned_away py config rq ep resp \<longleftrightarrow>
     resp = Error unauthorized \<or>
     resp = Refused \<and> ep \<in> {Create_completion, Create_api_key} \<and> py_json py (hq_body rq) = None \<or>
     resp = Error handle_unexpected_error \<and> admin_endpoint ep \<and>
       (\<exists>t. bearer_token (hq_authorization rq) = Some t \<and> \<not> (py_ascii t \<and> py_ascii (admin_api_token config)))"

lemma turned_away_admin:
  assumes "get_current_admin config (hq_authorization rq) = Inl e" and "admin_endpoint ep"
  shows "turned_away py config rq ep (render f (Failed e))"
proof (cases "e = Unauthorized")
  case True
  then show ?thesis by (simp add: turned_away_def unauthorized_status)
next
  case False
  with admin_Inl [OF assms(1)] obtain m where "e = TypeError m"
    and t: "\<exists>t. bearer_token (hq_authorization rq) = Some t \<and> \<not> (py_ascii t \<and> py_ascii (admin_api_token config))" by blast
  then have "error_response_for e = Some handle_unexpected_error" by (simp add: error_response_for_def is_AppError_def)
  with t assms(2) show ?thesis unfolding turned_away_def by simp
qed

lemma not_granted:
  assumes "\<not> granted d ep (hq_authorization rq) w" and "ss_usage (system_session w) = []"
  shows "\<exists>resp. handle_endpoint py sr d rq ep params w = (resp, w) \<and> turned_away py (dp_config d) rq ep resp"
proof (cases "admin_endpoint ep")
  case True
  then obtain e where e: "get_current_admin (dp_config d) (hq_authorization rq) = Inl e"
    using assms(1) by (cases "get_current_admin (dp_config d) (hq_authorization rq)") (auto simp: admin_endpoint_def granted_def)
  note away = turned_away_admin [OF e, of _ py]
  show ?thesis
  proof (cases "ep = Create_api_key \<and> py_json py (hq_body rq) = None")
    case True
    then show ?thesis by (simp add: handle_endpoint_def Let_def create_handler_def turned_away_def)
  next
    case False
    with True away [of Create_api_key Created] away [of List_api_keys Keys] away [of Revoke_api_key Key] assms(2)
    show ?thesis by (auto simp: handle_endpoint_def Let_def admin_endpoint_def admin_refused [OF e])
  qed
next
  case False
  with assms(1) obtain e where auth: "authenticate d (hq_authorization rq) w = Inl e"
    by (cases "authenticate d (hq_authorization rq) w") (auto simp: admin_endpoint_def granted_def split: endpoint.splits)
  with authenticate_Inl have e: "error_response_for e = Some unauthorized" by (metis unauthorized_status(2))
  have ep: "ep \<in> {Create_completion, Get_usage_summary, List_usage_records, Get_usage_by_model}"
    using False assms(1) by (cases ep) (auto simp: admin_endpoint_def granted_def)
  show ?thesis
  proof (cases "py_json py (hq_body rq)")
    case None
    with ep assms(2) show ?thesis
      by (auto simp: handle_endpoint_def Let_def completion_handler_def usage_unauthorized [OF auth] turned_away_def e)
  next
    case (Some j)
    with ep assms(2) show ?thesis
      by (auto simp: handle_endpoint_def Let_def completion_handler_def usage_unauthorized [OF auth]
          serve_chat_unauthorized [OF auth] turned_away_def e split: option.splits)
  qed
qed

subsection \<open>Single endpoints\<close>

text \<open>
  Readiness is truthful: for pings that are not cancelled, the probe answers 200 exactly when
  PostgreSQL and Redis both answered within the limit, and 503 otherwise.
\<close>

lemma readiness_truthful:
  assumes "route_of (hq_method rq) (hq_path rq) = Some (Readiness, params)"
    and "\<forall>e. fst (sr_ping_postgres sr) = Inl e \<longrightarrow> is_Exception e"
  shows "status_of (fst (handle_request py sr d rq w)) =
    Some (if rw_up w \<and> fst (sr_ping_postgres sr) = Inr () \<and> snd (sr_ping_postgres sr) < health_check_timeout_s (dp_config d) \<and>
         sr_ping_redis_s sr < health_check_timeout_s (dp_config d) then 200 else 503)"
  using assms by (auto simp: handle_request_def handle_endpoint_def readiness_def probe_def ping_redis_def Let_def not_le
      split: sum.splits)

text \<open>
  A key can be handed out and lost: the session is committed after the response was sent, so when
  the commit fails, the caller has a 201 with a token that is not stored.
\<close>

lemma created_key_lost:
  assumes "route_of (hq_method rq) (hq_path rq) = Some (Create_api_key, params)"
    and "h_commit_error (dp_host d) w = Some e" and "ss_usage (system_session w) = []"
    and "handle_request py sr d rq w = (Created view, w')"
  shows "status_of (Created view) = Some 201 \<and> w' = w"
  using assms by (auto simp: handle_request_def handle_endpoint_def create_handler_def written_def Let_def
      elim!: render.elims split: option.splits prod.splits reply.splits)

end
