(* ===== verification/Sample_Deployment.thy ===== *)
theory Sample_Deployment
  imports Stream_Serving Http_Routes
begin

text \<open>
  A small deployment for the instances, brought up by \<open>lifespan\<close>: Anthropic only, which
  answers at once and streams its answer; the resilient limiter over a reachable Redis; one api
  key; the prices, what happens in Redis meanwhile and whether commits fail are arguments.
\<close>

definition sample_settings :: settings where
  "sample_settings = (default_settings ''db'' ''admin'')\<lparr>anthropic_api_key := Some ''key-a''\<rparr>"

definition sample_ca :: "string \<Rightarrow> seconds \<Rightarrow> (anthropic_params, anthropic_raw, 'y) sdk_call" where
  "sample_ca key t ps s =
     (Inr \<lparr>anr_id = ''msg'', anr_model = ''claude-sonnet-5'',
           anr_content = Some [\<lparr>anb_type = ''text'', anb_text = Some ''hello''\<rparr>],
           anr_usage = Some (1000, 2000), anr_stop_reason = Some ''end_turn''\<rparr>, s)"

definition sample_host :: "(seconds system \<Rightarrow> redis_part) \<Rightarrow> (seconds system \<Rightarrow> exn option) \<Rightarrow> seconds host" where
  "sample_host mw ce =
     \<lparr>h_monotonic = id, h_wall = id, h_tasks = id,
      h_openai = (\<lambda>key t ps s. (Inl (APIConnectionError ''refused''), s)),
      h_openai_stream = (\<lambda>key t ps. SFail (APIConnectionError ''refused'')),
      h_anthropic = sample_ca, h_anthropic_stream = demo_sa, h_io = id, h_meanwhile = mw,
      h_hash_api_key = rev, h_fingerprint_digest = fp_model, h_rate_time = (\<lambda>p. 5), h_record_time = (\<lambda>p. 5),
      h_commit_error = ce\<rparr>"

definition sample_key :: api_key where
  "sample_key = \<lparr>ak_id = 7, ak_key_hash = rev ''rlx_abc'', ak_name = ''team'', ak_rate_limit_rpm = None,
     ak_monthly_token_quota = None, ak_is_active = True, ak_created_at = 0\<rparr>"

definition sample_auth :: "string option" where
  "sample_auth = Some ''Bearer rlx_abc''"

text \<open>The database before start-up, with a price for the model or without.\<close>

definition sample_prices :: "pricing_row list" where
  "sample_prices = [\<lparr>pw_provider = ''anthropic'', pw_model = ''claude-sonnet-5'',
     pw_price_per_1k_input_tokens = 3 / 1000, pw_price_per_1k_output_tokens = 15 / 1000, pw_effective_from = 0\<rparr>]"

definition sample_world :: "pricing_row list \<Rightarrow> seconds app_world" where
  "sample_world rows = \<lparr>breakers = (\<lambda>_. fresh_breaker sample_settings), executions = 0,
     outer = (\<lparr>ss_db = \<lparr>db_api_keys = [sample_key], db_usage = [], db_pricing = rows\<rparr>, ss_usage = []\<rparr>,
       \<lparr>pr_limiter_breaker = cb_init 1 1, pr_buckets = Map.empty, pr_hashes = Map.empty, pr_env = 0\<rparr>)\<rparr>"

definition sample_loggers :: logging_state where
  "sample_loggers = (fresh_logger, \<lambda>_. fresh_logger)"

definition sample_deployment ::
  "pricing_row list \<Rightarrow> (seconds system \<Rightarrow> redis_part) \<Rightarrow> (seconds system \<Rightarrow> exn option) \<Rightarrow> seconds deployment" where
  "sample_deployment rows mw ce =
     \<lparr>dp_host = sample_host mw ce, dp_config = sample_settings,
      dp_app = projr (fst (lifespan (sample_host mw ce) sample_settings sample_loggers (sample_world rows)))\<rparr>"

definition sample_system :: "pricing_row list \<Rightarrow> seconds system" where
  "sample_system rows = \<lparr>rw_kv = Map.empty, rw_now = 0, rw_up = True,
     rw_app = snd (lifespan (sample_host (\<lambda>w. (rw_kv w, rw_now w, rw_up w)) (\<lambda>w. None)) sample_settings sample_loggers
       (sample_world rows))\<rparr>"

definition sample_payload :: chat_payload where
  "sample_payload = \<lparr>cp_model = ''default'', cp_messages = [\<lparr>ms_role = ''user'', ms_content = ''hi''\<rparr>],
     cp_max_tokens = None, cp_failover_policy = AT_MOST_ONCE, cp_stream = False\<rparr>"

definition sample_answer :: chat_response where
  "sample_answer = \<lparr>resp_provider = ANTHROPIC, resp_model = ''claude-sonnet-5'', resp_content = ''hello'',
     resp_tokens_in = 1000, resp_tokens_out = 2000, resp_finish_reason = ''stop'', resp_request_id = ''msg''\<rparr>"

text \<open>Nothing happens, time passes, the server goes down.\<close>

definition idle :: "seconds system \<Rightarrow> redis_part" where
  "idle w = (rw_kv w, rw_now w, rw_up w)"

definition tick :: "seconds system \<Rightarrow> redis_part" where
  "tick w = (rw_kv w, rw_now w + 1, rw_up w)"

definition outage :: "seconds system \<Rightarrow> redis_part" where
  "outage w = (rw_kv w, rw_now w, False)"

definition no_error :: "seconds system \<Rightarrow> exn option" where
  "no_error w = None"

subsection \<open>It comes up\<close>

definition sample_rate :: pricing_rate where
  "sample_rate = \<lparr>pr_provider = ANTHROPIC, pr_model = ''claude-sonnet-5'', pr_price_per_1k_input = 3 / 1000,
     pr_price_per_1k_output = 15 / 1000, pr_effective_from = 0\<rparr>"

definition sample_rows :: "pricing_row list \<Rightarrow> pricing_rate list \<Rightarrow> bool" where
  "sample_rows rows rates \<longleftrightarrow> rows = [] \<and> rates = [] \<or> rows = sample_prices \<and> rates = [sample_rate]"

lemma sample_rows_simps [simp]: "sample_rows [] []" "sample_rows sample_prices [sample_rate]"
  by (simp_all add: sample_rows_def)

lemma sample_prices_load:
  assumes "sample_rows rows rates"
  shows "load_pricing_rates \<lparr>db_api_keys = ks, db_usage = us, db_pricing = rows\<rparr> = Inr rates"
  using assms by (auto simp: sample_rows_def sample_prices_def sample_rate_def load_pricing_rates_def provider_enum_of_def
      pricing_rate_create_def provider_of_value_def py_strip_def py_space_def)

definition sample_up :: "pricing_row list \<Rightarrow> seconds app_world" where
  "sample_up rows = (sample_world rows)\<lparr>outer := (fst (outer (sample_world rows)),
     (snd (outer (sample_world rows)))\<lparr>pr_limiter_breaker := cb_init 3 10\<rparr>)\<rparr>"

abbreviation sample_registry :: "(seconds system \<Rightarrow> redis_part) \<Rightarrow> (seconds system \<Rightarrow> exn option) \<Rightarrow> pricing_row list
    \<Rightarrow> (sdk_gen ra_gen, seconds app_world) registry_map" where
  "sample_registry mw ce rows \<equiv> host_sdks_registry (sample_host mw ce) sample_settings (sample_world rows)"

lemma sample_keys: "openai_api_key sample_settings = None" "anthropic_api_key sample_settings = Some ''key-a''"
  by (simp_all add: sample_settings_def default_settings_def)

lemma sample_host_registry:
  "host_registry (sample_host mw ce) sample_settings (sample_world rows) = (sample_registry mw ce rows, sample_world rows)"
proof -
  have "on_breaker ANTHROPIC (\<lambda>_. fresh_breaker sample_settings) (sample_world rows) = sample_world rows"
    by (rule on_breaker_same) (simp add: sample_world_def)
  then show ?thesis
    by (simp add: host_registry_def deployed_registry_def build_registry_def sample_keys
        opt_str_truthy_def with_resilience_def Let_def)
qed

lemma sample_lifespan:
  assumes "sample_rows rows rates"
  obtains app where "lifespan (sample_host mw ce) sample_settings sample_loggers (sample_world rows) = (Inr app, sample_up rows)"
    "as_registry app = sample_registry mw ce rows" "as_pricing app = build_pricing_table rates"
    "build_router None None None None = Inr (as_router app)"
    "as_rate_limiter app = resilient_check (\<lambda>w. pr_env (process_of w)) (redis_limiter (sample_host mw ce)) (memory_limiter (sample_host mw ce))"
proof -
  obtain svc where r: "build_router None None None None = Inr svc" using default_router_tiers by blast
  have p: "load_pricing_rates (ss_db (fst (outer (sample_world rows)))) = Inr rates"
    by (simp add: sample_world_def sample_prices_load [OF assms])
  have "lifespan (sample_host mw ce) sample_settings sample_loggers (sample_world rows) =
    (Inr \<lparr>as_logging = setup_logging sample_settings sample_loggers, as_registry = sample_registry mw ce rows, as_router = svc,
        as_pricing = build_pricing_table rates, as_rate_limiter = resilient_check (\<lambda>w. pr_env (process_of w))
          (redis_limiter (sample_host mw ce)) (memory_limiter (sample_host mw ce))\<rparr>, sample_up rows)"
    by (simp add: lifespan_def sample_host_registry p r sample_up_def)
      (simp add: sample_host_def sample_world_def sample_settings_def default_settings_def)
  then show ?thesis by (rule that) (simp_all add: r)
qed

lemma sample_deployment_simps [simp]:
  "dp_host (sample_deployment rows mw ce) = sample_host mw ce" "dp_config (sample_deployment rows mw ce) = sample_settings"
  "h_meanwhile (sample_host mw ce) = mw" "h_commit_error (sample_host mw ce) = ce"
  "h_tasks (sample_host mw ce) = id" "h_wall (sample_host mw ce) = id" "h_monotonic (sample_host mw ce) = id"
  "h_hash_api_key (sample_host mw ce) = rev" "ak_id sample_key = 7" "rw_up (sample_system rows)" "h_fingerprint_digest (sample_host mw ce) = fp_model"
  "idempotency_inflight_ttl_s sample_settings = 120" "idempotency_ttl_s sample_settings = 86400"
  by (simp_all add: sample_deployment_def sample_host_def sample_settings_def default_settings_def sample_key_def sample_system_def)

lemma sample_app:
  assumes "sample_rows rows rates"
  shows "started (sample_deployment rows mw ce)"
    and "get_registry (sample_deployment rows mw ce) = sample_registry mw ce rows"
    and "get_pricing_table (sample_deployment rows mw ce) = build_pricing_table rates"
    and "candidates_for (get_router (sample_deployment rows mw ce)) ''default'' =
      Inr [Candidate OPENAI ''gpt-4o'', Candidate ANTHROPIC ''claude-sonnet-5'']"
    and "as_rate_limiter (dp_app (sample_deployment rows mw ce)) =
      resilient_check (\<lambda>w. pr_env (process_of w)) (redis_limiter (sample_host mw ce)) (memory_limiter (sample_host mw ce))"
    and "rw_app (sample_system rows) = sample_up rows"
proof -
  obtain app where l: "lifespan (sample_host mw ce) sample_settings sample_loggers (sample_world rows) = (Inr app, sample_up rows)"
    and app: "as_registry app = sample_registry mw ce rows" "as_pricing app = build_pricing_table rates"
      "build_router None None None None = Inr (as_router app)"
      "as_rate_limiter app = resilient_check (\<lambda>w. pr_env (process_of w)) (redis_limiter (sample_host mw ce)) (memory_limiter (sample_host mw ce))"
    by (rule sample_lifespan [OF assms])
  have d: "dp_app (sample_deployment rows mw ce) = app" by (simp add: sample_deployment_def l)
  show "started (sample_deployment rows mw ce)" using l d unfolding started_def sample_deployment_simps by blast
  show "get_registry (sample_deployment rows mw ce) = sample_registry mw ce rows"
    and "get_pricing_table (sample_deployment rows mw ce) = build_pricing_table rates"
    and "as_rate_limiter (dp_app (sample_deployment rows mw ce)) =
      resilient_check (\<lambda>w. pr_env (process_of w)) (redis_limiter (sample_host mw ce)) (memory_limiter (sample_host mw ce))"
    by (simp_all add: get_registry_def get_pricing_table_def d app)
  show "candidates_for (get_router (sample_deployment rows mw ce)) ''default'' =
      Inr [Candidate OPENAI ''gpt-4o'', Candidate ANTHROPIC ''claude-sonnet-5'']"
    using default_router_tiers app(3) by (auto simp: get_router_def d)
  show "rw_app (sample_system rows) = sample_up rows"
    by (rule sample_lifespan [OF assms, of "\<lambda>w. (rw_kv w, rw_now w, rw_up w)" "\<lambda>w. None"]) (simp add: sample_system_def)
qed

subsection \<open>The providers\<close>

lemma sample_adapters:
  "sample_registry mw ce rows OPENAI = None"
  "sample_registry mw ce rows ANTHROPIC = Some (resilient_adapter (host_clock (sample_host mw ce)) 40 ANTHROPIC
     (anthropic_adapter (sdk_on_process (sample_ca ''key-a'' 40)) (demo_sa ''key-a'' 40) (io_on_process id)))"
  by (simp_all add: deployed_registry_def build_registry_get sample_settings_def default_settings_def)
    (simp add: sample_host_def)

lemma sample_closed:
  assumes "breakers w ANTHROPIC = fresh_breaker sample_settings"
  shows "cb_allow t (breakers w ANTHROPIC) = ((True, 0), breakers w ANTHROPIC)"
    "cb_record_success 0 (breakers w ANTHROPIC) = breakers w ANTHROPIC"
  by (simp_all add: assms fresh_breaker_def cb_init_def cb_allow_def cb_record_success_def)

text \<open>The gateway in this deployment: one upstream call, then the recorder.\<close>

lemma sample_gateway:
  assumes "sample_rows rows rates" and "breakers w ANTHROPIC = fresh_breaker sample_settings"
  shows "gateway_call (sample_deployment rows mw ce) sample_payload sample_key w =
    (case get_usage_recorder (sample_deployment rows mw ce) 7 sample_answer (w\<lparr>executions := executions w + 1\<rparr>) of
       (Inl e, w') \<Rightarrow> (Inl e, w') | (Inr rec, w') \<Rightarrow> (Inr sample_answer, w'))"
proof -
  let ?w = "w\<lparr>executions := executions w + 1\<rparr>"
  obtain s q where o: "outer w = (s, q)" by fastforce
  have "anthropic_complete (counted (sdk_on_process (sample_ca ''key-a'' 40))) rq w = (Inr sample_answer, ?w)" for rq
    by (simp add: anthropic_complete_def counted_def sample_ca_def sdk_on_process_def o may_have_executed_def anthropic_parse_def
        finish_reason_get_def ANTHROPIC_FINISH_REASON_MAP_def count_execution_def sample_answer_def)
  then have "ra_complete (host_clock (sample_host mw ce)) 40 ANTHROPIC
      (anthropic_complete (counted (sdk_on_process (sample_ca ''key-a'' 40)))) rq w = (Inr sample_answer, ?w)" for rq
    by (simp add: ra_complete_def sample_closed [OF assms(2)] on_breaker_same deadline_def Let_def)
  then show ?thesis
    by (simp add: gateway_call_def gw_complete_def sample_app(2,4) [OF assms(1)] registry_get_def sample_adapters resilient_adapter_def
        anthropic_adapter_def sample_payload_def chat_to_domain_def sample_key_def split: prod.splits sum.splits)
qed

lemma sample_recorder:
  assumes "db_api_keys (ss_db (fst (outer w))) = [sample_key]"
  shows "\<exists>rec w'. get_usage_recorder (sample_deployment sample_prices mw ce) 7 sample_answer w = (Inr rec, w') \<and>
      executions w' = executions w"
    and "\<exists>m. get_usage_recorder (sample_deployment [] mw ce) 7 sample_answer w = (Inl (PricingRateNotFound m), w)"
  using assms by (simp_all add: get_usage_recorder_def sample_app(3) [OF sample_rows_simps(1)] sample_app(3) [OF sample_rows_simps(2)]
      gw_recorder_def recorder_record_def cost_for_def pricing_get_def sample_rate_def
      build_pricing_table_def pricing_register_def calculate_cost_def sample_answer_def sample_key_def sample_host_def
      usage_record_create_def VALID_FINISH_REASONS_def outer_save_def repo_save_def session_save_def)

lemma sample_call:
  assumes "breakers w ANTHROPIC = fresh_breaker sample_settings" and "db_api_keys (ss_db (fst (outer w))) = [sample_key]"
  shows "\<exists>a. gateway_call (sample_deployment sample_prices mw ce) sample_payload sample_key w = (Inr sample_answer, a)"
    and "\<exists>e. gateway_call (sample_deployment [] mw ce) sample_payload sample_key w =
        (Inl e, w\<lparr>executions := executions w + 1\<rparr>) \<and> \<not> is_UpstreamAmbiguous e"
proof -
  let ?w = "w\<lparr>executions := executions w + 1\<rparr>"
  have db: "db_api_keys (ss_db (fst (outer ?w))) = [sample_key]" using assms(2) by simp
  show "\<exists>a. gateway_call (sample_deployment sample_prices mw ce) sample_payload sample_key w = (Inr sample_answer, a)"
    using sample_recorder(1) [OF db, of mw ce] unfolding sample_gateway [OF sample_rows_simps(2) assms(1)] by auto
  show "\<exists>e. gateway_call (sample_deployment [] mw ce) sample_payload sample_key w = (Inl e, ?w) \<and> \<not> is_UpstreamAmbiguous e"
    using sample_recorder(2) [OF db, of mw ce] unfolding sample_gateway [OF sample_rows_simps(1) assms(1)] by auto
qed

subsection \<open>The caller gets in\<close>

lemma sample_authenticated:
  assumes "db_api_keys (ss_db (system_session w)) = [sample_key]"
  shows "authenticate (sample_deployment rows mw ce) sample_auth w = Inr sample_key"
  using assms by (simp add: authenticate_def get_current_api_key_def sample_auth_def
      bearer_token_def py_removeprefix_def py_strip_def py_space_def sample_key_def)

text \<open>Redis is up, the limiter's breaker closed, and the caller has \<open>n\<close> requests left.\<close>

definition has_tokens :: "nat \<Rightarrow> seconds system \<Rightarrow> bool" where
  "has_tokens n w \<longleftrightarrow> rw_up w \<and> pr_limiter_breaker (process_of w) = cb_init 3 10 \<and> n \<le> 60 \<and>
     (case pr_hashes (process_of w) (redis_bucket_key 7) of None \<Rightarrow> True
      | Some ((tokens, ts), expires) \<Rightarrow> rat_of_nat n \<le> tokens \<and> tokens \<le> 60 \<and> ts = pr_env (process_of w))"

lemma has_tokens_rest: "process_of w = process_of w' \<Longrightarrow> rw_up w = rw_up w' \<Longrightarrow> has_tokens n w = has_tokens n w'"
  by (simp only: has_tokens_def)

lemma sample_redis:
  assumes "has_tokens (Suc n) w"
  obtains hs where "redis_limiter (sample_host mw ce) 7 60 (cb_init 3 10, w) =
      (Inr (), (cb_init 3 10, on_process (\<lambda>p. p\<lparr>pr_hashes := hs, pr_limiter_breaker := cb_init 3 10\<rparr>) w))"
    "has_tokens n (on_process (\<lambda>p. p\<lparr>pr_hashes := hs, pr_limiter_breaker := cb_init 3 10\<rparr>) w)"
proof -
  let ?now = "rw_now w" and ?t = "pr_env (process_of w)" and ?k = "redis_bucket_key 7"
  let ?hs = "pr_hashes (process_of w)"
  obtain tok where lua: "token_bucket_lua 60 1 ?t 120 (live_hash ?now ?hs ?k) = ((1, Fin 0), (tok, ?t), 120)"
    and tok: "rat_of_nat n \<le> tok" "tok \<le> 60"
  proof (cases "live_hash ?now ?hs ?k")
    case None
    have "rat_of_nat n \<le> 59" using assms by (simp add: has_tokens_def)
    with None that [of 59] show ?thesis by (simp add: token_bucket_lua_def Let_def)
  next
    case (Some h)
    then obtain tk where h: "h = (tk, ?t)" "rat_of_nat (Suc n) \<le> tk" "tk \<le> 60" using assms
      by (cases h) (auto simp: has_tokens_def live_hash_def split: option.splits if_splits)
    with Some that [of "tk - 1"] show ?thesis by (simp add: token_bucket_lua_def Let_def min_def)
  qed
  let ?hs' = "?hs(?k \<mapsto> ((tok, ?t), ?now + 120))"
  let ?w = "on_process (\<lambda>p. p\<lparr>pr_hashes := ?hs', pr_limiter_breaker := cb_init 3 10\<rparr>) w"
  have "redis_limiter (sample_host mw ce) 7 60 (cb_init 3 10, w) = (Inr (), (cb_init 3 10, ?w))"
    using assms lua by (simp add: redis_limiter_def redis_check_def system_script_call_def server_script_call_def
        has_tokens_def on_process_twice Let_def)
  moreover have "has_tokens n ?w"
    using assms tok by (simp add: has_tokens_def live_hash_def)
  ultimately show ?thesis by (rule that)
qed

lemma sample_throttled:
  assumes "sample_rows rows rates" and "has_tokens (Suc n) w"
  obtains w0 where "throttle (sample_deployment rows mw ce) sample_key w = (Inr (), w0)" "has_tokens n w0" "only_process w w0"
proof -
  obtain hs where run: "redis_limiter (sample_host mw ce) 7 60 (cb_init 3 10, w) =
      (Inr (), (cb_init 3 10, on_process (\<lambda>p. p\<lparr>pr_hashes := hs, pr_limiter_breaker := cb_init 3 10\<rparr>) w))"
    and tok: "has_tokens n (on_process (\<lambda>p. p\<lparr>pr_hashes := hs, pr_limiter_breaker := cb_init 3 10\<rparr>) w)"
    by (rule sample_redis [OF assms(2)])
  let ?w0 = "on_process (\<lambda>p. p\<lparr>pr_hashes := hs, pr_limiter_breaker := cb_init 3 10\<rparr>) w"
  have cb: "pr_limiter_breaker (process_of w) = cb_init 3 10" using assms(2) by (simp add: has_tokens_def)
  have closed: "cb_allow t (cb_init 3 10) = ((True, 0), cb_init 3 10)" "cb_record_success 0 (cb_init 3 10) = cb_init 3 10" for t
    by (simp_all add: cb_init_def cb_allow_def cb_record_success_def)
  have rpm: "effective_rpm sample_settings sample_key = 60"
    by (simp add: effective_rpm_def sample_key_def sample_settings_def default_settings_def)
  have "on_process (pr_limiter_breaker_update (\<lambda>_. cb_init 3 10)) ?w0 = ?w0"
    by (simp add: on_process_def process_of_def system_session_def)
  then have thr: "throttle (sample_deployment rows mw ce) sample_key w = (Inr (), ?w0)"
    by (simp add: throttle_def enforce_rate_limit_def get_rate_limiter_def sample_app(5) [OF assms(1)] resilient_check_def
        cb closed rpm run)
  show ?thesis by (rule that [OF thr tok]) simp
qed

lemma sample_payload_ok [simp]: "chat_payload_valid sample_payload" "\<not> cp_stream sample_payload"
  "chat_payload_valid (sample_payload\<lparr>cp_stream := True\<rparr>)" "cp_failover_policy sample_payload = AT_MOST_ONCE"
  by (simp_all add: sample_payload_def chat_payload_valid_def message_valid_def)

lemma sample_start:
  assumes "sample_rows rows rates"
  shows "db_api_keys (ss_db (system_session (sample_system rows))) = [sample_key]" "has_tokens 60 (sample_system rows)"
    "breakers (rw_app (sample_system rows)) = (\<lambda>_. fresh_breaker sample_settings)"
    "ss_usage (system_session (sample_system rows)) = []"
    "stored_value (sample_system rows) k key = None" "executions (rw_app (sample_system rows)) = 0"
    "usage_stored (ss_db (system_session (sample_system rows))) = []"
proof -
  note app = sample_app(6) [OF assms]
  show "db_api_keys (ss_db (system_session (sample_system rows))) = [sample_key]"
    "breakers (rw_app (sample_system rows)) = (\<lambda>_. fresh_breaker sample_settings)"
    "ss_usage (system_session (sample_system rows)) = []" "executions (rw_app (sample_system rows)) = 0"
    "usage_stored (ss_db (system_session (sample_system rows))) = []"
    by (simp_all add: system_session_def app sample_up_def sample_world_def usage_stored_def rows_stored_def)
  show "has_tokens 60 (sample_system rows)" unfolding has_tokens_def process_of_def app
    by (simp add: sample_up_def sample_world_def live_hash_def)
  show "stored_value (sample_system rows) k key = None"
    by (simp add: stored_value_def live_def sample_system_def)
qed

text \<open>The caller can send \<open>n\<close> more requests, with a key that is free, to a closed breaker.\<close>

definition sample_ready :: "nat \<Rightarrow> seconds system \<Rightarrow> bool" where
  "sample_ready n w \<longleftrightarrow> has_tokens n w \<and> stored_value w 7 ''k1'' = None \<and>
     breakers (rw_app w) ANTHROPIC = fresh_breaker sample_settings \<and>
     db_api_keys (ss_db (system_session w)) = [sample_key]"

lemma sample_ready_start: "sample_rows rows rates \<Longrightarrow> sample_ready 60 (sample_system rows)"
  using sample_start by (simp add: sample_ready_def)

lemma sample_admitted:
  assumes "sample_rows rows rates" and "sample_ready (Suc n) w"
  obtains w0 where "authenticate (sample_deployment rows mw ce) sample_auth w = Inr sample_key"
    "throttle (sample_deployment rows mw ce) sample_key w = (Inr (), w0)" "sample_ready n w0" "rw_up w0"
    "db_api_keys (ss_db (fst (outer (rw_app w0)))) = [sample_key]"
proof -
  from assms(2) have r: "has_tokens (Suc n) w" "db_api_keys (ss_db (system_session w)) = [sample_key]"
    by (simp_all add: sample_ready_def)
  obtain w0 where t: "throttle (sample_deployment rows mw ce) sample_key w = (Inr (), w0)" "has_tokens n w0" "only_process w w0"
    by (rule sample_throttled [OF assms(1) r(1)])
  note apart = throttleD [OF sample_app(1) [OF assms(1)] t(1)]
  have "sample_ready n w0" using assms(2) t(2,3) apart by (simp add: sample_ready_def only_process_def)
  moreover from this have "rw_up w0" "db_api_keys (ss_db (fst (outer (rw_app w0)))) = [sample_key]"
    by (simp_all add: sample_ready_def has_tokens_def system_session_def)
  ultimately show ?thesis by (rule that [OF sample_authenticated [OF r(2)] t(1)])
qed

text \<open>With Redis up throughout, a completion is served.\<close>

lemma sample_served:
  assumes "sample_ready (Suc n) w" and "\<forall>u. rw_up (meanwhile (sample_host mw ce) u) = rw_up u"
  obtains c w' where "serve_chat (sample_deployment sample_prices mw ce) sample_auth (Some ''k1'') sample_payload w = (Ok (Json c), w')"
proof -
  let ?d = "sample_deployment sample_prices mw ce"
  obtain w0 where adm: "authenticate ?d sample_auth w = Inr sample_key" "throttle ?d sample_key w = (Inr (), w0)"
    "sample_ready n w0" "rw_up w0" "db_api_keys (ss_db (fst (outer (rw_app w0)))) = [sample_key]"
    by (rule sample_admitted [OF sample_rows_simps(2) assms(1)])
  obtain a where call: "gateway_call ?d sample_payload sample_key (rw_app w0) = (Inr sample_answer, a)"
    using sample_call(1) [OF _ adm(5)] adm(3) by (auto simp: sample_ready_def)
  have "stored_value w0 (ak_id sample_key) ''k1'' = None" using adm(3) by (simp add: sample_ready_def)
  from keyed_runs [OF this adm(4), of ?d] obtain w1 where w1: "rw_app w1 = rw_app w0" "rw_up w1"
    and run: "idem_execute (get_idempotency_service ?d) (fp_digest ?d) ''k1'' (ak_id sample_key) (chat_to_domain sample_payload)
        (complete_call ?d sample_payload sample_key) w0 = settle_call (get_idempotency_service ?d) ''k1'' (ak_id sample_key)
          (fingerprint (fp_digest ?d) (chat_to_domain sample_payload)) (complete_call ?d sample_payload sample_key w1)"
    by (auto simp del: fun_upd_apply)
  have "complete_call ?d sample_payload sample_key w1 = (Inr sample_answer, meanwhile (sample_host mw ce) (w1\<lparr>rw_app := a\<rparr>))"
    using call by (simp add: complete_call_def in_process_def w1)
  then have "\<exists>c w'. serve_chat ?d sample_auth (Some ''k1'') sample_payload w = (Ok (Json c), w')"
    unfolding serve_chat_keyed [OF adm(1,2) sample_payload_ok(1,2)] run
    using w1(2) assms(2) by (simp add: get_idempotency_service_def settle_call_server server_set_def)
  with that show ?thesis by blast
qed

text \<open>And a stream is opened.\<close>

lemma sample_commits:
  assumes "sample_rows rows rates" and "breakers w ANTHROPIC = fresh_breaker sample_settings"
  shows "\<exists>nx it w'. gw_stream (get_registry (sample_deployment rows mw ce)) (get_router (sample_deployment rows mw ce))
     (chat_to_domain (sample_payload\<lparr>cp_stream := True\<rparr>)) w = (Inr (DR_Start nx it (ChatStreamDelta ''hello'')), w')"
  by (simp add: gw_stream_def sample_app(2,4) [OF assms(1)] sample_payload_def chat_to_domain_def registry_get_def sample_adapters
      resilient_adapter_def anthropic_adapter_def ra_stream_def sample_closed [OF assms(2)] on_breaker_same
      Let_def ra_round_first anthropic_stream_def demo_sa_def raise_stream_failure_def clean_error_def await_def on_breaker_def
      deadline_def cbg.report_def count_execution_def truthy_str_def str_or_empty_def io_on_process_def)

lemma sample_streams:
  assumes "sample_ready (Suc n) w"
  obtains nx it w' where "serve_chat (sample_deployment sample_prices mw ce) sample_auth (Some ''k1'')
      (sample_payload\<lparr>cp_stream := True\<rparr>) w =
      (Ok (EventStream (Keyed ''k1'' (IG_Start (DR_Start nx it (ChatStreamDelta ''hello''))))), w')"
proof -
  let ?d = "sample_deployment sample_prices mw ce" and ?p = "sample_payload\<lparr>cp_stream := True\<rparr>"
  obtain w0 where adm: "authenticate ?d sample_auth w = Inr sample_key" "throttle ?d sample_key w = (Inr (), w0)"
    "sample_ready n w0" "rw_up w0"
    by (rule sample_admitted [OF sample_rows_simps(2) assms(1)])
  have free: "stored_value w0 (ak_id sample_key) ''k1'' = None" "0 < idempotency_inflight_ttl_s (dp_config ?d)"
    using adm(3) by (simp_all add: sample_ready_def)
  obtain w1 where w1: "rw_app w1 = rw_app w0"
    and run: "\<And>g w2. stream_call ?d ?p w1 = (Inr g, w2) \<Longrightarrow>
      idem_execute_stream (get_idempotency_service ?d) (fp_digest ?d) ''k1'' (ak_id sample_key) (chat_to_domain ?p)
        (stream_call ?d ?p) w0 = (Inr (IG_Start g), w2)"
    using execute_stream_runs [OF free(1) adm(4) free(2)] unfolding get_idempotency_service_def by metis
  have "breakers (rw_app w1) ANTHROPIC = fresh_breaker sample_settings" using adm(3) by (simp add: w1 sample_ready_def)
  from sample_commits [OF sample_rows_simps(2) this, of mw ce] obtain nx it w2
    where "stream_call ?d ?p w1 = (Inr (DR_Start nx it (ChatStreamDelta ''hello'')), w2)"
    by (auto simp: stream_call_def in_process_def)
  from run [OF this] serve_chat_stream [OF adm(1,2) sample_payload_ok(3)] show ?thesis by (intro that) simp
qed

subsection \<open>Requests to it\<close>

definition sample_pydantic :: "unit pydantic" where
  "sample_pydantic = \<lparr>py_json = (\<lambda>s. if s = [] then None else Some ()), py_chat = (\<lambda>_. Some sample_payload),
     py_api_key = (\<lambda>_. None), py_uuid = (\<lambda>_. None), py_datetime = (\<lambda>_. None), py_int = (\<lambda>_. None)\<rparr>"

definition sample_surroundings :: surroundings where
  "sample_surroundings = \<lparr>sr_random = ''abc'', sr_uuid = 9, sr_now = 5, sr_ping_postgres = (Inr (), 1), sr_ping_redis_s = 1,
     sr_order_records = id, sr_order_groups = id, sr_order_keys = id\<rparr>"

definition sample_request :: "http_method \<Rightarrow> string list \<Rightarrow> string option \<Rightarrow> http_request" where
  "sample_request m path auth = \<lparr>hq_method = m, hq_path = path, hq_authorization = auth, hq_idempotency_key = None,
     hq_since = None, hq_until = None, hq_limit = None, hq_offset = None, hq_body = ''{}''\<rparr>"

definition sample_completion :: http_request where
  "sample_completion = (sample_request POST [''v1'', ''chat'', ''completions''] sample_auth)\<lparr>hq_idempotency_key := Some ''k1''\<rparr>"

text \<open>The key of the caller, revoked.\<close>

definition sample_revoked :: "seconds system" where
  "sample_revoked = on_session (\<lambda>s. s\<lparr>ss_db := (ss_db s)\<lparr>db_api_keys := [sample_key\<lparr>ak_is_active := False\<rparr>]\<rparr>\<rparr>)
     (sample_system sample_prices)"

lemma sample_routes:
  "route_of POST [''v1'', ''chat'', ''completions''] = Some (Create_completion, [])"
  "route_of GET [''v1'', ''usage''] = Some (Get_usage_summary, [])"
  by (rule routes_unambiguous [of _ "[Seg ''v1'', Seg ''chat'', Seg ''completions'']"], simp_all add: app_routes_eq)
    (rule routes_unambiguous [of _ "[Seg ''v1'', Seg ''usage'']"], simp_all add: app_routes_eq)

end
