(* ===== verification/System_Runs.thy ===== *)
theory System_Runs
  imports Stream_Serving Http_Routes
begin

text \<open>
  The process over many requests. Every HTTP request, whatever its endpoint and however its
  response ends (plain, streamed to the end, left by its client), is a step of the system; what
  else happens between requests is another. The ledger of a run is the ledger of \<open>db_step\<close>, and
  it never has more new rows than providers executed calls.
\<close>

subsection \<open>Recording at most once\<close>

text \<open>
  A generator that changes the ledger by at most one record in its life: every pull is calm, or
  pays and leaves the generator spent, and a spent one stays so. \<open>good\<close> is the invariant of the
  generator's state.
\<close>

locale metered =
  fixes nx :: "('g, 'w) anext" and good :: "'g \<Rightarrow> bool" and spent :: "'g \<Rightarrow> bool"
    and calm :: "'w \<Rightarrow> 'w \<Rightarrow> bool" and pays :: "'w \<Rightarrow> 'w \<Rightarrow> bool"
  assumes calm_refl: "calm w w"
    and calm_trans: "calm u v \<Longrightarrow> calm v w \<Longrightarrow> calm u w"
    and calm_pays: "calm u v \<Longrightarrow> pays v w \<Longrightarrow> pays u w"
    and pays_calm: "pays u v \<Longrightarrow> calm v w \<Longrightarrow> pays u w"
    and pull: "good g \<Longrightarrow> nx g w = ((x, g'), w') \<Longrightarrow>
      good g' \<and> (calm w w' \<and> (spent g \<longrightarrow> spent g') \<or> pays w w' \<and> \<not> spent g \<and> spent g')"
begin

lemma pullE:
  assumes "good g" and "nx g w = ((x, g'), w')"
  obtains (calm) "good g'" "calm w w'" "spent g \<Longrightarrow> spent g'"
  | (pays) "good g'" "pays w w'" "\<not> spent g" "spent g'"
  using pull [OF assms] by blast

lemma drive_meter:
  "good g \<Longrightarrow> drive nx n g w = ((evs, r), (g', w')) \<Longrightarrow>
    good g' \<and> (calm w w' \<and> (spent g \<longrightarrow> spent g') \<or> pays w w' \<and> \<not> spent g \<and> spent g')"
proof (induction n arbitrary: g w evs)
  case (Suc n)
  obtain x g1 w1 where p: "nx g w = ((x, g1), w1)" by (metis prod.collapse)
  have rest: "\<exists>evs'. drive nx n g1 w1 = ((evs', r), (g', w'))" if "x = Yielded v" for v
    using Suc.prems(2) p that by (auto split: prod.splits)
  show ?case
  proof (cases "\<exists>v. x = Yielded v")
    case True
    then obtain evs' where "drive nx n g1 w1 = ((evs', r), (g', w'))" using rest by blast
    with Suc.IH [of g1 w1 evs'] pullE [OF Suc.prems(1) p] show ?thesis
      by (metis calm_trans calm_pays pays_calm)
  next
    case False
    then have "g' = g1" "w' = w1" using Suc.prems(2) p by (cases x; simp)+
    with pull [OF Suc.prems(1) p] show ?thesis by simp
  qed
qed (simp add: calm_refl)

lemma frames_meter:
  "(\<And>ev. g = SSE_Run ev \<Longrightarrow> good ev) \<Longrightarrow> sse_frames nx n g w = (r, w') \<Longrightarrow>
    calm w w' \<or> pays w w' \<and> (\<forall>ev. g = SSE_Run ev \<longrightarrow> \<not> spent ev) \<and> g \<noteq> SSE_Done"
proof (induction n arbitrary: g w r)
  case (Suc n)
  show ?case
  proof (cases g)
    case SSE_Done
    with Suc.prems(2) show ?thesis by (simp add: calm_refl)
  next
    case (SSE_Run ev)
    obtain x ev1 w1 where p: "nx ev w = ((x, ev1), w1)" by (metis prod.collapse)
    have "good ev" using Suc.prems(1) SSE_Run by simp
    note step = pull [OF this p]
    have "\<exists>g1 r1. sse_frames nx n g1 w1 = (r1, w') \<and> (g1 = SSE_Run ev1 \<or> g1 = SSE_Done) \<or> w' = w1"
      using Suc.prems(2) SSE_Run p by (cases x) (auto split: prod.splits option.splits)
    then obtain g1 r1 where "w' = w1 \<or> sse_frames nx n g1 w1 = (r1, w') \<and> (g1 = SSE_Run ev1 \<or> g1 = SSE_Done)" by blast
    then have "calm w1 w' \<or> pays w1 w' \<and> \<not> spent ev1"
      using Suc.IH [of g1 w1 r1] step by (auto simp: calm_refl)
    with step SSE_Run show ?thesis by (auto dest: calm_trans calm_pays pays_calm)
  qed
qed (simp add: calm_refl)

end

text \<open>What a step of the process may do to the session and to the counter: nothing to the one,
  nothing but count up to the other; or flush one record of the caller.\<close>

definition calm :: "'z app_world \<Rightarrow> 'z app_world \<Rightarrow> bool" where
  "calm u v \<longleftrightarrow> fst (outer v) = fst (outer u) \<and> executions u \<le> executions v"

definition pays :: "uuid \<Rightarrow> 'z app_world \<Rightarrow> 'z app_world \<Rightarrow> bool" where
  "pays k u v \<longleftrightarrow> executions u \<le> executions v \<and>
     (\<exists>r. usage_record_wf r \<and> ur_api_key_id r = k \<and> session_save r (fst (outer u)) = (Inr (), fst (outer v)))"

lemma calm_refl [simp]: "calm w w"
  by (simp add: calm_def)

lemma calm_trans: "calm u v \<Longrightarrow> calm v w \<Longrightarrow> calm u w"
  by (simp add: calm_def)

lemma calm_pays: "calm u v \<Longrightarrow> pays k v w \<Longrightarrow> pays k u w"
  by (auto simp: calm_def pays_def)

lemma pays_calm: "pays k u v \<Longrightarrow> calm v w \<Longrightarrow> pays k u w"
  by (auto simp: calm_def pays_def)

lemmas meter_trans = calm_trans calm_pays pays_calm

lemma recorder_meter:
  "get_usage_recorder d k r u = (Inl e, v) \<Longrightarrow> calm u v"
  "get_usage_recorder d k r u = (Inr rec, v) \<Longrightarrow> pays k u v"
  by (auto simp: get_usage_recorder_def gw_recorder_def recorder_record_def outer_save_def repo_save_def calm_def pays_def
      session_save_def usage_record_create_Inr split: prod.splits sum.splits if_splits)

subsection \<open>The generator of the gateway\<close>

definition calm_gen :: "('g, 'z app_world) anext \<Rightarrow> bool" where
  "calm_gen nx \<longleftrightarrow> (\<forall>it u y v. nx it u = (y, v) \<longrightarrow> calm u v)"

fun good_drain :: "('g, 'z app_world) drain_gen \<Rightarrow> bool" where
  "good_drain (DR_Start nx it ev) = calm_gen nx"
| "good_drain (DR_Delta nx it) = calm_gen nx"
| "good_drain _ = True"

fun spent_drain :: "('g, 'w) drain_gen \<Rightarrow> bool" where
  "spent_drain (DR_Start nx it ev) = False"
| "spent_drain (DR_Delta nx it) = False"
| "spent_drain _ = True"

lemma drain_except_meter:
  assumes "drain_except (get_usage_recorder d) k it e w = ((x, g), w')"
  shows "g = DR_Done it \<and> (calm w w' \<or> pays k w w')"
  using assms by (auto simp: drain_except_def dest: recorder_meter split: exn.splits option.splits prod.splits sum.splits)

lemma drain_emit_meter:
  assumes "drain_emit (get_usage_recorder d) k nx it ev w = ((x, g), w')" and "calm_gen nx"
  shows "good_drain g \<and> (calm w w' \<or> pays k w w' \<and> spent_drain g)"
proof (cases ev)
  case (ChatStreamResponse r)
  obtain y w1 where rec: "get_usage_recorder d k r w = (y, w1)" by fastforce
  show ?thesis
  proof (cases y)
    case (Inl e)
    with assms ChatStreamResponse rec have "drain_except (get_usage_recorder d) k it e w1 = ((x, g), w')" by simp
    from drain_except_meter [OF this] recorder_meter(1) [of d k r w e w1] rec Inl show ?thesis by (auto dest: meter_trans)
  qed (use assms ChatStreamResponse rec recorder_meter(2) in auto)
qed (use assms in auto)

interpretation drain_meter: metered "drain_anext (get_usage_recorder d) k" good_drain spent_drain calm "pays k" for d k
proof unfold_locales
  fix g g' :: "('b, 'a app_world) drain_gen" and w w' :: "'a app_world" and x
  assume good: "good_drain g" and step: "drain_anext (get_usage_recorder d) k g w = ((x, g'), w')"
  show "good_drain g' \<and> (calm w w' \<and> (spent_drain g \<longrightarrow> spent_drain g') \<or> pays k w w' \<and> \<not> spent_drain g \<and> spent_drain g')"
  proof (cases g)
    case (DR_Start nx it ev)
    with good step drain_emit_meter [of d k nx it ev w x g' w'] show ?thesis by auto
  next
    case (DR_Delta nx it)
    obtain y it1 w1 where p: "nx it w = ((y, it1), w1)" by (metis prod.collapse)
    have c: "calm w w1" "calm_gen nx" using good DR_Delta p by (auto simp: calm_gen_def)
    show ?thesis
    proof (cases y)
      case (Yielded ev)
      with step DR_Delta p drain_emit_meter [of d k nx it1 ev w1 x g' w'] c show ?thesis by (auto dest: meter_trans)
    next
      case (Raised e)
      with step DR_Delta p drain_except_meter [of d k it1 e w1 x g' w'] c show ?thesis by (auto dest: meter_trans)
    qed (use step DR_Delta p c in auto)
  qed (use step in auto)
qed (fact calm_refl calm_trans calm_pays pays_calm)+


subsection \<open>Settling and framing\<close>

text \<open>The generator that settles a key around another one; Redis is not part of the ledger.\<close>

fun good_idem :: "('g \<Rightarrow> bool) \<Rightarrow> 'g idem_gen \<Rightarrow> bool" where
  "good_idem good (IG_Start g) = good g"
| "good_idem good (IG_Delta g) = good g"
| "good_idem good (IG_Response r g) = good g"
| "good_idem good _ = True"

fun spent_idem :: "('g \<Rightarrow> bool) \<Rightarrow> 'g idem_gen \<Rightarrow> bool" where
  "spent_idem spent (IG_Start g) = spent g"
| "spent_idem spent (IG_Delta g) = spent g"
| "spent_idem spent (IG_Response r g) = spent g"
| "spent_idem spent _ = True"

lemma settle_meter:
  assumes "metered nx good spent calm (pays k)"
  shows "metered (idem_anext (redis_port (server_store i c)) (\<lambda>g. in_process h (nx g)) (\<lambda>g w. (close g, w)) key k fp)
    (good_idem good) (spent_idem spent) (\<lambda>u v. calm (rw_app u) (rw_app v)) (\<lambda>u v. pays k (rw_app u) (rw_app v))"
    (is "metered ?nx _ _ _ _")
proof unfold_locales
  let ?port = "redis_port (server_store i c) :: 'b system idem_port"
  let ?close = "\<lambda>g (w :: 'b system). (close g, w)"
  have except: "g' = IG_Done \<and> rw_app w' = rw_app w" if "settle_except ?port ?close key k fp g e w = ((x, g'), w')" for g e w x g' w'
    using that settle_except_app [of i c close key k fp g e w] by auto
  have round: "good_idem good g' \<and> (calm (rw_app w) (rw_app w') \<and> (spent g \<longrightarrow> spent_idem spent g') \<or>
      pays k (rw_app w) (rw_app w') \<and> \<not> spent g \<and> spent_idem spent g')"
    if "good g" and step: "settle_next ?port (\<lambda>g. in_process h (nx g)) ?close key k fp g w = ((x, g'), w')" for g w x g' w'
  proof -
    obtain y g1 a where p: "nx g (rw_app w) = ((y, g1), a)" by (metis prod.collapse)
    from metered.pull [OF assms that(1) p] step show ?thesis
      by (auto simp: settle_next_def in_process_def p dest: except split: pull.splits chat_stream_event.splits)
  qed
  fix g g' :: "'a idem_gen" and w w' :: "'b system" and x
  assume good: "good_idem good g" and step: "?nx g w = ((x, g'), w')"
  show "good_idem good g' \<and> (calm (rw_app w) (rw_app w') \<and> (spent_idem spent g \<longrightarrow> spent_idem spent g') \<or>
      pays k (rw_app w) (rw_app w') \<and> \<not> spent_idem spent g \<and> spent_idem spent g')"
  proof (cases g)
    case (IG_Response r p)
    obtain z w1 where c: "ip_complete ?port k key fp (serialize r) w = (z, w1)" by fastforce
    then have "rw_app w1 = rw_app w"
      by (auto simp: redis_port_def server_complete dest: server_set_app split: prod.splits sum.splits)
    with good step c IG_Response round [of p w1 x g' w'] show ?thesis
      by (cases z) (auto dest: except)
  next
    case (IG_Replay b)
    with step show ?thesis by (auto split: sum.splits if_splits)
  qed (use good step round in auto)
qed (auto dest: meter_trans)

fun good_events :: "'z gateway_gen events \<Rightarrow> bool" where
  "good_events (Plain g) = good_drain g"
| "good_events (Keyed key ig) = good_idem good_drain ig"

fun spent_events :: "'z gateway_gen events \<Rightarrow> bool" where
  "spent_events (Plain g) = spent_drain g"
| "spent_events (Keyed key ig) = spent_idem spent_drain ig"

interpretation events_meter: metered "events_anext (get_gateway_service d) digest request k" good_events spent_events
    "\<lambda>u v. calm (rw_app u) (rw_app v)" "\<lambda>u v. pays k (rw_app u) (rw_app v)" for d digest request k
proof unfold_locales
  fix g g' :: "'a gateway_gen events" and w w' :: "'a system" and x
  assume good: "good_events g" and step: "events_anext (get_gateway_service d) digest request k g w = ((x, g'), w')"
  show "good_events g' \<and> (calm (rw_app w) (rw_app w') \<and> (spent_events g \<longrightarrow> spent_events g') \<or>
      pays k (rw_app w) (rw_app w') \<and> \<not> spent_events g \<and> spent_events g')"
  proof (cases g)
    case (Plain dg)
    obtain y g1 a where p: "drain_anext (get_usage_recorder d) k dg (rw_app w) = ((y, g1), a)" by (metis prod.collapse)
    from drain_meter.pull [OF _ p] good step Plain show ?thesis
      by (auto simp: events_anext_simps get_gateway_service_def in_process_def p)
  next
    case (Keyed key ig)
    let ?nx = "idem_anext (get_idempotency_service d) (\<lambda>g. in_process (dp_host d) (drain_anext (get_usage_recorder d) k g))
      (\<lambda>g w. (drain_aclose g, w)) key k (fingerprint digest request)"
    obtain y ig1 w1 where p: "?nx ig w = ((y, ig1), w1)" by (metis prod.collapse)
    from metered.pull [OF settle_meter [OF drain_meter.metered_axioms] _ p [unfolded get_idempotency_service_def]] good step Keyed p
    show ?thesis by (auto simp: events_anext_simps get_gateway_service_def)
  qed
qed (auto dest: meter_trans)

lemma aclose_app: "rw_app (snd (events_aclose (get_gateway_service d) digest request k ev w)) = rw_app w"
proof (cases ev)
  case (Keyed key ig)
  have "rw_app (snd (settle_except (redis_port (server_store i c)) (\<lambda>g w. (drain_aclose g, w)) key k fp g e w)) = rw_app w"
    for i c fp e and g :: "'a gateway_gen"
    using settle_except_app [of i c drain_aclose key k fp g e w] by auto
  then show ?thesis
    by (cases ig) (auto simp: events_aclose_def Keyed get_gateway_service_def get_idempotency_service_def split: prod.splits)
qed (simp add: events_aclose_def get_gateway_service_def)


subsection \<open>Calls of the gateway\<close>

lemma ra_anext_mono:
  assumes inner: "\<And>g w y w'. nx g w = (y, w') \<Longrightarrow> executions w \<le> executions w'"
    and "ra_anext clock limit p st nx it w = (y, w')"
  shows "executions w \<le> executions w'"
proof -
  have round: "executions w1 \<le> executions w2" if "ra_round clock limit p nx g i e w1 = (z, w2)" for g i e w1 z w2
    using that inner [of i w1]
    by (auto simp: ra_round_def Let_def split: prod.splits pull.splits chat_stream_event.splits if_splits)
  show ?thesis
    using assms(2) by (cases it) (auto simp: Let_def dest: round split: prod.splits if_splits)
qed

text \<open>The adapters of a process that came up.\<close>

lemma registered:
  assumes "started d" and "get_registry d p = Some a"
  obtains inner key where
    "a = resilient_adapter (host_clock (dp_host d)) (provider_timeout_s (dp_config d)) p inner"
    "inner = openai_adapter (sdk_on_process (h_openai (dp_host d) key (provider_timeout_s (dp_config d))))
         (h_openai_stream (dp_host d) key (provider_timeout_s (dp_config d))) (io_on_process (h_io (dp_host d))) \<and> p = OPENAI \<or>
     inner = anthropic_adapter (sdk_on_process (h_anthropic (dp_host d) key (provider_timeout_s (dp_config d))))
         (h_anthropic_stream (dp_host d) key (provider_timeout_s (dp_config d))) (io_on_process (h_io (dp_host d))) \<and> p = ANTHROPIC"
    "upstream_calls (ad_complete a) executions"
proof -
  obtain w where reg: "host_sdks_registry (dp_host d) (dp_config d) w p = Some a"
    using startedE [OF assms(1)] assms(2) by metis
  show ?thesis using deployed_adapter [OF reg] deployed_upstream [OF reg] that by metis
qed

lemma adapter_calls_calm:
  assumes "started d" and "get_registry d p = Some a" and "ad_complete a rq u = (x, v)"
  shows "calm u v"
proof -
  have "upstream_calls (ad_complete a) executions" by (rule registered [OF assms(1,2)])
  from upstream_calls.executed_once [OF this assms(3)] calls_keep_session [OF assms] show ?thesis by (auto simp: calm_def)
qed

lemma adapter_gen_calm:
  assumes "started d" and "get_registry d p = Some a"
  shows "calm_gen (ad_anext a)"
proof (unfold calm_gen_def, intro allI impI)
  fix it u y v
  assume run: "ad_anext a it u = (y, v)"
  obtain inner key where a: "a = resilient_adapter (host_clock (dp_host d)) (provider_timeout_s (dp_config d)) p inner"
    and "ad_anext inner = sdk_anext (io_on_process (h_io (dp_host d)))"
    by (rule registered [OF assms]) (auto simp: openai_adapter_def anthropic_adapter_def)
  with run have run': "ra_anext (host_clock (dp_host d)) (provider_timeout_s (dp_config d)) p (ad_stream inner)
      (sdk_anext (io_on_process (h_io (dp_host d)))) it u = (y, v)"
    by (simp add: resilient_adapter_def)
  have sdk: "executions w \<le> executions w'" if "sdk_anext io g w = (z, w')" for io g z and w w' :: "'a app_world"
    using that by (cases g) (auto simp: sdk_anext_eq count_execution_def await_def split: prod.splits)
  from ra_anext_mono [OF sdk run'] system_anext_keeps [OF assms run] show "calm u v" by (simp add: calm_def)
qed

lemma first_event_executed:
  assumes "started d" and "get_registry d p = Some a"
    and "ad_anext a (ad_stream a rq) u = ((Yielded ev, it), v)"
  shows "executions u < executions v"
proof -
  obtain inner key where a: "a = resilient_adapter (host_clock (dp_host d)) (provider_timeout_s (dp_config d)) p inner"
    and inner: "inner = openai_adapter (sdk_on_process (h_openai (dp_host d) key (provider_timeout_s (dp_config d))))
         (h_openai_stream (dp_host d) key (provider_timeout_s (dp_config d))) (io_on_process (h_io (dp_host d))) \<and> p = OPENAI \<or>
     inner = anthropic_adapter (sdk_on_process (h_anthropic (dp_host d) key (provider_timeout_s (dp_config d))))
         (h_anthropic_stream (dp_host d) key (provider_timeout_s (dp_config d))) (io_on_process (h_io (dp_host d))) \<and> p = ANTHROPIC"
    by (rule registered [OF assms(1,2)])
  obtain c gen g cb where s: "ad_stream inner rq = (c, Yield ev gen)"
    and v: "v = count_execution c (await (io_on_process (h_io (dp_host d))) (on_breaker p (\<lambda>_. cb) u))"
    by (rule first_pull_yielded [OF inner a assms(3)])
  from stream_yields_executed [OF inner s] show ?thesis
    by (auto simp: v count_execution_def await_def on_breaker_def split: prod.splits)
qed

lemma gw_complete_loop_meter:
  assumes calls: "\<And>p a rq u x v. registry p = Some a \<Longrightarrow> ad_complete a rq u = (x, v) \<Longrightarrow> calm u v"
    and "gw_complete_loop registry (get_usage_recorder d) req k amb cs w = (r, w')"
  shows "case r of Inl e \<Rightarrow> calm w w' | Inr resp \<Rightarrow> pays k w w'"
  using assms(2)
proof (induction cs arbitrary: amb w)
  case (Cons c cs)
  show ?case
  proof (cases "registry (cand_provider c)")
    case None
    with Cons show ?thesis by (simp add: registry_get_def)
  next
    case (Some a)
    obtain x w1 where call: "ad_complete a (req\<lparr>req_model := cand_model c\<rparr>) w = (x, w1)" by fastforce
    note c = calls [OF Some call]
    show ?thesis
    proof (cases x)
      case (Inl e)
      with Cons.prems Some call c Cons.IH [of amb w1] Cons.IH [of "Some e" w1] show ?thesis
        by (auto simp: registry_get_def dest: meter_trans split: if_splits sum.splits)
    next
      case (Inr resp)
      obtain y w2 where rec: "get_usage_recorder d k resp w1 = (y, w2)" by fastforce
      with Cons.prems Some call c Inr recorder_meter(1) [of d k resp w1 _ w2] recorder_meter(2) [of d k resp w1 _ w2]
      show ?thesis by (cases y) (auto simp: registry_get_def dest: meter_trans)
    qed
  qed
qed auto

lemma gateway_call_meter:
  assumes "started d" and "gateway_call d payload k w = (r, w')"
  shows "case r of Inl e \<Rightarrow> calm w w' | Inr resp \<Rightarrow> pays (ak_id k) w w' \<and> executions w < executions w'"
proof (cases "candidates_for (get_router d) (req_model (chat_to_domain payload))")
  case (Inl e)
  with assms(2) show ?thesis by (auto simp: gateway_call_def gw_complete_def)
next
  case (Inr cs)
  with assms(2) have run: "gw_complete_loop (get_registry d) (get_usage_recorder d) (chat_to_domain payload) (ak_id k) None cs w = (r, w')"
    by (simp add: gateway_call_def gw_complete_def)
  obtain w0 where reg: "get_registry d = host_sdks_registry (dp_host d) (dp_config d) w0"
    using startedE [OF assms(1)] by metis
  from deployed.at_least_once_bound [OF run [unfolded reg get_usage_recorder_def]]
    gw_complete_loop_meter [OF adapter_calls_calm [OF assms(1)] run] show ?thesis by (auto split: sum.splits)
qed

lemma gw_stream_loop_meter:
  assumes gens: "\<And>p a. registry p = Some a \<Longrightarrow> calm_gen (ad_anext a)"
    and first: "\<And>p a rq u ev it v. registry p = Some a \<Longrightarrow> ad_anext a (ad_stream a rq) u = ((Yielded ev, it), v) \<Longrightarrow>
      executions u < executions v"
  shows "gw_stream_loop registry req amb cs w = (r, w') \<Longrightarrow>
    calm w w' \<and> (\<forall>g. r = Inr g \<longrightarrow> executions w < executions w' \<and> good_drain g)"
proof (induction cs arbitrary: amb w)
  case (Cons c cs)
  show ?case
  proof (cases "registry (cand_provider c)")
    case None
    with Cons.prems Cons.IH [of amb w] show ?thesis by (auto simp: registry_get_def)
  next
    case (Some a)
    obtain x it w1 where p: "ad_anext a (ad_stream a (req\<lparr>req_model := cand_model c\<rparr>)) w = ((x, it), w1)"
      by (metis prod.collapse)
    have c: "calm w w1" using gens [OF Some] p by (auto simp: calm_gen_def)
    have later: "calm w w' \<and> (\<forall>g. r = Inr g \<longrightarrow> executions w < executions w' \<and> good_drain g)"
      if "gw_stream_loop registry req amb' cs w1 = (r, w')" for amb'
      using Cons.IH [OF that] c by (auto simp: calm_def)
    show ?thesis
      using Cons.prems Some p c later first [OF Some] gens [OF Some]
      by (cases x) (auto simp: registry_get_def split: if_splits)
  qed
qed auto

lemma stream_call_meter:
  assumes "started d" and "stream_call d payload w = (r, w')"
  shows "calm (rw_app w) (rw_app w') \<and>
    (\<forall>g. r = Inr g \<longrightarrow> executions (rw_app w) < executions (rw_app w') \<and> good_drain g)"
proof -
  from assms(2) have run: "gw_stream (get_registry d) (get_router d) (chat_to_domain payload) (rw_app w) = (r, rw_app w')"
    by (auto simp: stream_call_def in_process_def split: prod.splits)
  show ?thesis
  proof (cases "candidates_for (get_router d) (req_model (chat_to_domain payload))")
    case (Inr cs)
    with run have "gw_stream_loop (get_registry d) (chat_to_domain payload) None cs (rw_app w) = (r, rw_app w')"
      by (simp add: gw_stream_def)
    from gw_stream_loop_meter [OF adapter_gen_calm [OF assms(1)] first_event_executed [OF assms(1)] this] show ?thesis .
  qed (use run in \<open>auto simp: gw_stream_def\<close>)
qed


subsection \<open>One request\<close>

text \<open>
  What a request leaves behind: the session as it was, or the database with one more record of the
  caller, for an execution.
\<close>

definition ledger_kept :: "'z system \<Rightarrow> 'z system \<Rightarrow> bool" where
  "ledger_kept w w' \<longleftrightarrow> system_session w' = system_session w \<and> executions (rw_app w) \<le> executions (rw_app w')"

definition recorded :: "uuid \<Rightarrow> 'z system \<Rightarrow> 'z system \<Rightarrow> bool" where
  "recorded k w w' \<longleftrightarrow> ss_usage (system_session w') = [] \<and> executions (rw_app w) < executions (rw_app w') \<and>
     (\<exists>r. usage_record_wf r \<and> ur_api_key_id r = k \<and>
       usage_save r (ss_db (system_session w)) = (Inr (), ss_db (system_session w')))"

text \<open>The request before its session is closed, and after.\<close>

definition pending :: "uuid \<Rightarrow> 'z app_world \<Rightarrow> 'z app_world \<Rightarrow> bool" where
  "pending k u v \<longleftrightarrow> calm u v \<or> pays k u v \<and> executions u < executions v"

lemma pending_calm: "calm u v \<Longrightarrow> pending k u v"
  by (simp add: pending_def)

lemma saved_closed:
  assumes "session_save r s = (Inr (), s')" and "ss_usage s = []"
  shows "usage_save r (ss_db s) = (Inr (), ss_db (session_commit s'))" and "session_rollback s' = s"
  using assms by (auto simp: session_save_def usage_save_def session_commit_def session_rollback_def split: if_splits)

lemma closed:
  assumes "pending k (rw_app w) (rw_app w1)" and clean: "ss_usage (system_session w) = []"
    and "w' = on_session session_commit w1 \<or> w' = on_session session_rollback w1"
  shows "ledger_kept w w' \<or> recorded k w w'"
proof (cases "calm (rw_app w) (rw_app w1)")
  case True
  then have "system_session w1 = system_session w" by (simp add: calm_def system_session_def)
  then have "system_session w' = system_session w"
    using assms(3) clean by (auto simp: session_commit_def session_rollback_def)
  with True assms(3) show ?thesis by (auto simp: ledger_kept_def calm_def)
next
  case False
  with assms(1) obtain r where r: "usage_record_wf r" "ur_api_key_id r = k"
    and save: "session_save r (system_session w) = (Inr (), system_session w1)"
    and ex: "executions (rw_app w) < executions (rw_app w1)"
    by (auto simp: pending_def pays_def system_session_def)
  from saved_closed [OF save clean] r ex assms(3) show ?thesis
    by (auto simp: ledger_kept_def recorded_def)
qed

lemma closing:
  "close_session (se_commit (get_session d)) (se_rollback (get_session d)) failure w \<in>
    {on_session session_commit w, on_session session_rollback w}"
  "se_commit (get_session d) w \<in> {on_session session_commit w, on_session session_rollback w}"
  by (auto simp: close_session_def get_session_def split: option.splits)

lemma reserve_app:
  "ip_reserve (redis_port (server_store i c)) k key fp w = (x, w') \<Longrightarrow> rw_app w' = rw_app w"
  by (cases rule: server_reserve [of i c k key fp w]) (auto simp: redis_port_def dest: server_set_app)

lemma settle_app:
  "ip_complete (redis_port (server_store i c)) k key fp b w = (x, w') \<Longrightarrow> rw_app w' = rw_app w"
  "ip_mark_ambiguous (redis_port (server_store i c)) k key fp t w = (x, w') \<Longrightarrow> rw_app w' = rw_app w"
  "ip_release (redis_port (server_store i c)) k key w = (x, w') \<Longrightarrow> rw_app w' = rw_app w"
  by (auto simp: redis_port_def server_complete server_mark server_release dest: server_set_app split: prod.splits sum.splits if_splits)

lemma idem_execute_app:
  assumes "idem_execute (redis_port (server_store i c)) digest key k req op w = (r, w')"
  obtains (idle) "rw_app w' = rw_app w"
  | (ran) w1 x w2 where "rw_app w1 = rw_app w" "op w1 = (x, w2)" "rw_app w' = rw_app w2"
  using assms by (auto simp: idem_execute_def Let_def reraise_def dest: reserve_app settle_app split: prod.splits sum.splits if_splits)

lemma idem_execute_stream_app:
  assumes "idem_execute_stream (redis_port (server_store i c)) digest key k req op w = (r, w')"
  obtains (idle) "rw_app w' = rw_app w" "\<And>ig. r = Inr ig \<Longrightarrow> \<exists>b. ig = IG_Replay b"
  | (ran) w1 x w2 where "rw_app w1 = rw_app w" "op w1 = (x, w2)" "rw_app w' = rw_app w2"
      "\<And>ig. r = Inr ig \<Longrightarrow> \<exists>g. x = Inr g \<and> ig = IG_Start g"
  using assms by (auto simp: idem_execute_stream_def claimed_outcome_def Let_def reraise_def dest: reserve_app settle_app
      split: prod.splits sum.splits if_splits)


text \<open>A stream that was opened: its generator is good, and unless it replays, a provider ran for it.\<close>

definition opened :: "'z app_world \<Rightarrow> 'z app_world \<Rightarrow> 'z gateway_gen events \<Rightarrow> bool" where
  "opened u v ev \<longleftrightarrow> calm u v \<and> good_events ev \<and> (spent_events ev \<or> executions u < executions v)"

lemma complete_call_meter:
  assumes "started d" and "complete_call d payload k u = (x, v)"
  shows "pending (ak_id k) (rw_app u) (rw_app v)"
  using gateway_call_meter [OF assms(1) complete_callD [OF assms(2)]] by (auto simp: pending_def split: sum.splits)

lemma keyed_complete_meter:
  assumes "started d" and "idem_execute (get_idempotency_service d) digest key k' rq (complete_call d payload k) w = (r, w')"
  shows "pending (ak_id k) (rw_app w) (rw_app w')"
  by (rule idem_execute_app [OF assms(2) [unfolded get_idempotency_service_def]])
    (auto simp: pending_calm dest: complete_call_meter [OF assms(1)])

lemma keyed_stream_meter:
  assumes "started d" and "idem_execute_stream (get_idempotency_service d) digest key k' rq (stream_call d payload) w = (r, w')"
  shows "calm (rw_app w) (rw_app w')" and "r = Inr ig \<Longrightarrow> opened (rw_app w) (rw_app w') (Keyed key ig)"
  by (rule idem_execute_stream_app [OF assms(2) [unfolded get_idempotency_service_def]];
      fastforce simp: opened_def dest: stream_call_meter [OF assms(1)])+

lemma create_completion_meter:
  fixes k :: api_key
  assumes "started d" and "create_completion (get_gateway_service d) digest payload (ak_id k) ikey w = (r, w')"
  shows "case r of
      Inr (EventStream ev) \<Rightarrow> opened (rw_app w) (rw_app w') ev
    | _ \<Rightarrow> pending (ak_id k) (rw_app w) (rw_app w')"
proof -
  let ?svc = "get_gateway_service d" and ?rq = "chat_to_domain payload"
  have cs: "cs_complete ?svc ?rq (ak_id k) = complete_call d payload k" "cs_stream ?svc ?rq (ak_id k) = stream_call d payload"
    "cs_store ?svc = get_idempotency_service d"
    by (simp_all add: get_gateway_service_def complete_call_def gateway_call_def [abs_def] stream_call_def)
  show ?thesis
  proof (cases "cp_stream payload")
    case False
    with assms(2) show ?thesis
      by (cases ikey) (auto simp: create_completion_def cs Let_def dest: complete_call_meter [OF assms(1)]
          keyed_complete_meter [OF assms(1)] split: prod.splits sum.splits)
  next
    case True
    with assms(2) show ?thesis
      by (cases ikey) (auto simp: create_completion_def cs Let_def opened_def [of _ _ "Plain _"] pending_calm
          dest: stream_call_meter [OF assms(1)] keyed_stream_meter [OF assms(1)] split: prod.splits sum.splits)
  qed
qed

lemma throttle_calm: "started d \<Longrightarrow> throttle d k w = (x, w') \<Longrightarrow> calm (rw_app w) (rw_app w')"
  using throttleD(1,2) [of d k w x w'] by (simp add: calm_def system_session_def)

lemma pending_later: "calm u v \<Longrightarrow> pending k v w \<Longrightarrow> pending k u w"
  by (auto simp: pending_def calm_def pays_def)

lemma opened_later: "calm u v \<Longrightarrow> opened v w ev \<Longrightarrow> opened u w ev"
  by (auto simp: opened_def calm_def)

text \<open>The endpoint once the caller is known.\<close>

lemma serve_chat_known:
  assumes "authenticate d auth w = Inr k" and "throttle d k w = (t, w1)"
    and "create_completion (get_gateway_service d) (fp_digest d) payload (ak_id k) ikey w1 = (x, w2)"
  shows "serve_chat d auth ikey payload w =
     (case t of Inl e \<Rightarrow> (Failed e, on_session session_rollback w1)
      | Inr u \<Rightarrow> if \<not> chat_payload_valid payload then (Unprocessable, on_session session_rollback w1)
          else case x of Inl e \<Rightarrow> (Failed e, on_session session_rollback w2)
            | Inr (Json j) \<Rightarrow> (Ok (Json j), commit_session d w2)
            | Inr (EventStream ev) \<Rightarrow> (Ok (EventStream ev), w2))"
  using assms by (auto simp: serve_chat_def post_completions_def authenticate_def throttle_def get_session_def [of d]
      close_session_def Let_def split: sum.splits completion.splits)

lemma serve_chat_meter:
  assumes "started d" and clean: "ss_usage (system_session w) = []" and "authenticate d auth w = Inr k"
    and "serve_chat d auth ikey payload w = (r, w')"
  shows "case r of Ok (EventStream ev) \<Rightarrow> opened (rw_app w) (rw_app w') ev
    | _ \<Rightarrow> ledger_kept w w' \<or> recorded (ak_id k) w w'"
proof -
  obtain t w1 where lim: "throttle d k w = (t, w1)" by fastforce
  note c = throttle_calm [OF assms(1) lim]
  obtain x w2 where run: "create_completion (get_gateway_service d) (fp_digest d) payload (ak_id k) ikey w1 = (x, w2)" by fastforce
  note m = create_completion_meter [OF assms(1) run]
  note served = assms(4) [unfolded serve_chat_known [OF assms(3) lim run]]
  have early: "ledger_kept w w' \<or> recorded (ak_id k) w w'" if "w' = on_session session_rollback w1"
    using closed [OF pending_calm [OF c] clean] that by blast
  have late: "ledger_kept w w' \<or> recorded (ak_id k) w w'"
    if "pending (ak_id k) (rw_app w1) (rw_app w2)" "w' = on_session session_rollback w2 \<or> w' = commit_session d w2"
    using closed [OF pending_later [OF c that(1)] clean] that(2) closing(2) [of d w2] by auto
  show ?thesis
    using served m early late opened_later [OF c]
    by (auto split: sum.splits if_splits completion.splits)
qed

text \<open>The two ways a stream goes on: to its end, or until the client leaves.\<close>

lemma opened_pending:
  assumes "opened u v ev" and "calm v x \<or> pays k v x \<and> \<not> spent_events ev"
  shows "pending k u x"
  using assms by (auto simp: opened_def pending_def calm_def pays_def)

lemma serve_events_meter:
  assumes "opened (rw_app w) (rw_app w1) ev" and "ss_usage (system_session w) = []"
    and "serve_events d payload k n ev w1 = ((frames, Some failure), w')"
  shows "ledger_kept w w' \<or> recorded (ak_id k) w w'"
proof -
  let ?nx = "events_anext (get_gateway_service d) (fp_digest d) (chat_to_domain payload) (ak_id k)"
  obtain fs f w2 where run: "sse_frames ?nx n (SSE_Run ev) w1 = ((fs, f), w2)" by (metis prod.collapse)
  then have w': "w' = close_session (se_commit (get_session d)) (se_rollback (get_session d)) failure w2"
    using assms(3) by (auto simp: serve_events_def send_events_def split: option.splits)
  have "good_events ev" using assms(1) by (simp add: opened_def)
  then have "calm (rw_app w1) (rw_app w2) \<or> pays (ak_id k) (rw_app w1) (rw_app w2) \<and> \<not> spent_events ev"
    using events_meter.frames_meter [OF _ run] by auto
  from closed [OF opened_pending [OF assms(1) this] assms(2)] closing(1) [of d failure w2] w' show ?thesis by auto
qed

lemma client_leaves_meter:
  assumes "opened (rw_app w) (rw_app w1) ev" and "ss_usage (system_session w) = []"
    and "client_leaves d payload k n failure ev w1 = (frames, w')"
  shows "ledger_kept w w' \<or> recorded (ak_id k) w w'"
proof -
  let ?svc = "get_gateway_service d" and ?rq = "chat_to_domain payload"
  obtain evs r ev' w2 where run: "drive (events_anext ?svc (fp_digest d) ?rq (ak_id k)) n ev w1 = ((evs, r), (ev', w2))"
    by (metis prod.collapse)
  define w3 where "w3 = snd (events_aclose ?svc (fp_digest d) ?rq (ak_id k) ev' w2)"
  have w': "w' = close_session (se_commit (get_session d)) (se_rollback (get_session d)) failure w3"
    using assms(3) by (auto simp: client_leaves_def Let_def run w3_def)
  have "good_events ev" using assms(1) by (simp add: opened_def)
  from events_meter.drive_meter [OF this run]
  have "calm (rw_app w1) (rw_app w3) \<or> pays (ak_id k) (rw_app w1) (rw_app w3) \<and> \<not> spent_events ev"
    unfolding w3_def aclose_app by auto
  from closed [OF opened_pending [OF assms(1) this] assms(2)] closing(1) [of d failure w3] w' show ?thesis by auto
qed


subsection \<open>Runs of the process\<close>

fun streaming :: "'g response \<Rightarrow> bool" where
  "streaming (Completion (EventStream ev)) = True"
| "streaming _ = False"

definition chat_body :: "'j pydantic \<Rightarrow> http_request \<Rightarrow> chat_payload option" where
  "chat_body py rq = (case py_json py (hq_body rq) of None \<Rightarrow> None | Some j \<Rightarrow> py_chat py j)"

text \<open>A request from its arrival until its session is closed.\<close>

inductive request_step :: "'j pydantic \<Rightarrow> 'z deployment \<Rightarrow> http_request \<Rightarrow> 'z system \<Rightarrow> 'z system \<Rightarrow> bool"
  for py d rq where
  answered: "handle_request py sr d rq w = (resp, w') \<Longrightarrow> \<not> streaming resp \<Longrightarrow> request_step py d rq w w'"
| streamed: "handle_request py sr d rq w = (Completion (EventStream ev), w1) \<Longrightarrow>
    authenticate d (hq_authorization rq) w = Inr k \<Longrightarrow> chat_body py rq = Some payload \<Longrightarrow>
    serve_events d payload k n ev w1 = ((frames, Some failure), w') \<Longrightarrow> request_step py d rq w w'"
| left: "handle_request py sr d rq w = (Completion (EventStream ev), w1) \<Longrightarrow>
    authenticate d (hq_authorization rq) w = Inr k \<Longrightarrow> chat_body py rq = Some payload \<Longrightarrow>
    client_leaves d payload k n failure ev w1 = (frames, w') \<Longrightarrow> request_step py d rq w w'"

inductive_cases request_stepE: "request_step py d rq w w'"

text \<open>
  A step of the system is a request, or anything that leaves the session alone: time passes, Redis
  loses keys or goes down, breakers and buckets move.
\<close>

inductive system_step :: "'j pydantic \<Rightarrow> 'z deployment \<Rightarrow> 'z system \<Rightarrow> 'z system \<Rightarrow> bool" for py d where
  request: "request_step py d rq w w' \<Longrightarrow> system_step py d w w'"
| elsewhere: "ledger_kept w w' \<Longrightarrow> system_step py d w w'"

abbreviation system_run :: "'j pydantic \<Rightarrow> 'z deployment \<Rightarrow> 'z system \<Rightarrow> 'z system \<Rightarrow> bool" where
  "system_run py d \<equiv> (system_step py d)\<^sup>*\<^sup>*"

text \<open>What an administrator's request does to the database.\<close>

definition administered :: "'z system \<Rightarrow> 'z system \<Rightarrow> bool" where
  "administered w w' \<longleftrightarrow> ss_usage (system_session w') = [] \<and> executions (rw_app w') = executions (rw_app w) \<and>
     db_step (ss_db (system_session w)) (ss_db (system_session w')) \<and>
     db_usage (ss_db (system_session w')) = db_usage (ss_db (system_session w))"

lemma ledger_kept_refl [simp]: "ledger_kept w w"
  by (simp add: ledger_kept_def)

lemma commit_nothing: "ss_usage s = [] \<Longrightarrow> session_commit s = s"
  by (simp add: session_commit_def)

lemma written_effect:
  assumes "ss_usage (system_session w) = []" and "written d f w = (r, w')"
    and f: "\<And>b db. f (ss_db (system_session w)) = (Ok b, db) \<Longrightarrow>
      db_step (ss_db (system_session w)) db \<and> db_usage db = db_usage (ss_db (system_session w))"
  shows "w' = w \<or> administered w w'"
  using assms(1,2) f by (auto simp: written_def get_session_db administered_def commit_nothing
      split: prod.splits reply.splits option.splits)

lemma created_step:
  "create_api_key digest random i now name rl q db = (Inr (k, token), db') \<Longrightarrow> db_step db db' \<and> db_usage db' = db_usage db"
  using create_api_key_Inr(5) by (fastforce intro: db_step.creates simp: api_key_insert_def split: if_splits)

lemma revoked_step: "revoke_api_key i db = (r, db') \<Longrightarrow> db_step db db' \<and> db_usage db' = db_usage db"
  using revoke_api_key_db(1) [of i db r db'] by (auto intro: db_step.revokes)


text \<open>
  A request is not noticed in the ledger, or is a completion that records one row of its caller, or
  carries the admin token and changes the keys.
\<close>

definition request_effect :: "'z deployment \<Rightarrow> http_request \<Rightarrow> 'z system \<Rightarrow> 'z system \<Rightarrow> bool" where
  "request_effect d rq w w' \<longleftrightarrow> ledger_kept w w' \<or>
     (\<exists>k. authenticate d (hq_authorization rq) w = Inr k \<and> recorded (ak_id k) w w') \<or>
     get_current_admin (dp_config d) (hq_authorization rq) = Inr () \<and> administered w w'"

lemma completion_effect:
  assumes "started d" and clean: "ss_usage (system_session w) = []" and "completion_handler py d rq w = (r, w')"
  shows "case r of Ok (EventStream ev) \<Rightarrow> opened (rw_app w) (rw_app w') ev | _ \<Rightarrow> request_effect d rq w w'"
proof (cases "authenticate d (hq_authorization rq) w")
  case (Inl e)
  with assms(2,3) show ?thesis
    by (auto simp: completion_handler_def serve_chat_unauthorized request_effect_def split: option.splits)
next
  case (Inr k)
  show ?thesis
  proof (cases "chat_body py rq")
    case None
    obtain t w1 where lim: "throttle d k w = (t, w1)" by fastforce
    have w': "w' = w \<or> w' = on_session session_rollback w1" and r: "\<And>b. r \<noteq> Ok b"
      using assms(3) None Inr lim
      by (auto simp: completion_handler_def chat_body_def refused_chat_def split: option.splits sum.splits)
    have "ledger_kept w w'"
      using w' throttleD(1,2) [OF assms(1) lim] clean by (auto simp: ledger_kept_def session_rollback_def)
    with r show ?thesis by (auto simp: request_effect_def split: reply.split)
  next
    case (Some payload)
    with assms(3) have "serve_chat d (hq_authorization rq) (hq_idempotency_key rq) payload w = (r, w')"
      by (auto simp: completion_handler_def chat_body_def split: option.splits)
    from serve_chat_meter [OF assms(1,2) Inr this] Inr show ?thesis
      by (auto simp: request_effect_def split: reply.splits completion.splits)
  qed
qed

lemma admin_effect:
  assumes "get_current_admin (dp_config d) (hq_authorization rq) = Inr ()" and "ss_usage (system_session w) = []"
  shows "create_handler py sr d rq w = (r, w') \<Longrightarrow> w' = w \<or> administered w w'"
    and "revoke_handler py d rq params w = (r', w') \<Longrightarrow> w' = w \<or> administered w w'"
proof -
  show "create_handler py sr d rq w = (r, w') \<Longrightarrow> w' = w \<or> administered w w'"
  proof (cases "py_json py (hq_body rq)")
    case (Some j)
    assume run: "create_handler py sr d rq w = (r, w')"
    show ?thesis
      by (rule written_effect [OF assms(2) run [unfolded create_handler_def Some option.case]])
        (auto simp: post_api_key_def assms(1) refused_admin_def dest: created_step split: option.splits if_splits prod.splits sum.splits)
  qed (simp add: create_handler_def)
  show "revoke_handler py d rq params w = (r', w') \<Longrightarrow> w' = w \<or> administered w w'"
    unfolding revoke_handler_def
    by (elim written_effect [OF assms(2)])
      (auto simp: post_revoke_def assms(1) refused_admin_def dest: revoked_step split: option.splits prod.splits sum.splits)
qed


lemma render_not_streaming [simp]: "(\<And>b. \<not> streaming (f b)) \<Longrightarrow> \<not> streaming (render f r)"
  by (cases r) (auto split: option.split)

lemma not_streaming:
  assumes "ep \<noteq> Create_completion" and "handle_endpoint py sr d rq ep params w = (resp, w')"
  shows "\<not> streaming resp"
  using assms by (cases ep) (auto simp: handle_endpoint_def Let_def map_prod_def simp del: render.simps split: prod.splits sum.splits)

lemma admin_endpoint_effect:
  assumes "ss_usage (system_session w) = []" and "ep = Create_api_key \<or> ep = Revoke_api_key"
    and "handle_endpoint py sr d rq ep params w = (resp, w')"
  shows "request_effect d rq w w'"
proof (cases "get_current_admin (dp_config d) (hq_authorization rq)")
  case (Inl e)
  with assms(2) have "\<not> granted d ep (hq_authorization rq) w" by (auto simp: granted_def)
  from not_granted [OF this assms(1), of py sr params] assms(3) show ?thesis by (simp add: request_effect_def)
next
  case (Inr u)
  have "w' = w \<or> administered w w'"
    using assms(2,3) admin_effect(1) [of d rq w py sr _ w'] admin_effect(2) [of d rq w py params _ w'] Inr assms(1)
    by (auto simp: handle_endpoint_def Let_def map_prod_def split: prod.splits)
  with Inr show ?thesis by (auto simp: request_effect_def)
qed

lemma handle_request_effect:
  assumes "started d" and "ss_usage (system_session w) = []" and "handle_request py sr d rq w = (resp, w')"
  shows "(\<exists>ev. resp = Completion (EventStream ev) \<and> opened (rw_app w) (rw_app w') ev) \<or>
    \<not> streaming resp \<and> request_effect d rq w w'"
proof (cases "route_of (hq_method rq) (hq_path rq)")
  case None
  with assms(3) show ?thesis by (simp add: handle_request_def request_effect_def)
next
  case (Some route)
  obtain ep params where "route = (ep, params)" by fastforce
  with Some assms(3) have run: "handle_endpoint py sr d rq ep params w = (resp, w')" by (simp add: handle_request_def)
  consider "ep = Create_completion" | "ep = Create_api_key \<or> ep = Revoke_api_key"
    | "ep \<notin> {Create_completion, Create_api_key, Revoke_api_key}" by blast
  then show ?thesis
  proof cases
    case 1
    obtain r where r: "completion_handler py d rq w = (r, w')" "resp = render Completion r"
      using run 1 by (auto simp: handle_endpoint_def Let_def map_prod_def split: prod.splits)
    from completion_effect [OF assms(1,2) r(1)] r(2) show ?thesis
      by (auto split: reply.splits completion.splits option.splits)
  next
    case 2
    from admin_endpoint_effect [OF assms(2) this run] not_streaming [OF _ run] 2 show ?thesis by auto
  next
    case 3
    from readers_keep [OF assms(2) this, of py sr d rq params] run have "w' = w" by simp
    with not_streaming [OF _ run] 3 show ?thesis by (simp add: request_effect_def)
  qed
qed

text \<open>Runs of the system, seen in the database.\<close>

lemma recorded_step:
  assumes "recorded k w w'"
  shows "db_step (ss_db (system_session w)) (ss_db (system_session w'))"
    and "\<exists>row. db_usage (ss_db (system_session w')) = db_usage (ss_db (system_session w)) @ [row]"
proof -
  obtain r where "usage_record_wf r" and save: "usage_save r (ss_db (system_session w)) = (Inr (), ss_db (system_session w'))"
    using assms by (auto simp: recorded_def)
  then have "usage_record_create (ur_created_at r) (ur_api_key_id r) (ur_provider r) (ur_model r) (ur_tokens_in r)
      (ur_tokens_out r) (ur_cost r) (ur_finish_reason r) (ur_request_id r) = Inr r"
    by (simp add: usage_record_create_Inr)
  from db_step.records [OF this save] show "db_step (ss_db (system_session w)) (ss_db (system_session w'))" .
  show "\<exists>row. db_usage (ss_db (system_session w')) = db_usage (ss_db (system_session w)) @ [row]"
    using save by (auto simp: usage_save_def split: if_splits dest!: sym [of _ "ss_db (system_session w')"])
qed

definition ledger_grown :: "'z system \<Rightarrow> 'z system \<Rightarrow> bool" where
  "ledger_grown w w' \<longleftrightarrow> (\<exists>rows. db_usage (ss_db (system_session w')) = db_usage (ss_db (system_session w)) @ rows \<and>
     executions (rw_app w) + length rows \<le> executions (rw_app w'))"

lemma ledger_grown_refl [simp]: "ledger_grown w w"
  by (simp add: ledger_grown_def)

lemma ledger_grown_trans: "ledger_grown u v \<Longrightarrow> ledger_grown v w \<Longrightarrow> ledger_grown u w"
  by (fastforce simp: ledger_grown_def)

lemma effect_grows:
  assumes "ss_usage (system_session w) = []" and "request_effect d rq w w'"
  shows "ss_usage (system_session w') = [] \<and> db_step\<^sup>*\<^sup>* (ss_db (system_session w)) (ss_db (system_session w')) \<and> ledger_grown w w'"
  using assms(2) unfolding request_effect_def
proof (elim disjE exE conjE)
  fix k
  assume "recorded (ak_id k) w w'"
  with recorded_step [OF this] show ?thesis by (auto simp: recorded_def ledger_grown_def)
qed (use assms(1) in \<open>auto simp: ledger_kept_def administered_def ledger_grown_def\<close>)


lemma request_step_effect:
  assumes "started d" and clean: "ss_usage (system_session w) = []" and "request_step py d rq w w'"
  shows "request_effect d rq w w'"
  using assms(3)
proof cases
  case (answered sr resp)
  with handle_request_effect [OF assms(1,2) answered(1)] show ?thesis by auto
next
  case (streamed sr ev w1 k payload n frames failure)
  from handle_request_effect [OF assms(1,2) streamed(1)] have "opened (rw_app w) (rw_app w1) ev" by simp
  from serve_events_meter [OF this clean streamed(4)] streamed(2) show ?thesis by (auto simp: request_effect_def)
next
  case (left sr ev w1 k payload n failure frames)
  from handle_request_effect [OF assms(1,2) left(1)] have "opened (rw_app w) (rw_app w1) ev" by simp
  from client_leaves_meter [OF this clean left(4)] left(2) show ?thesis by (auto simp: request_effect_def)
qed

lemma system_run_ledger:
  assumes "system_run py d w w'" and "started d" and "ss_usage (system_session w) = []"
  shows "ss_usage (system_session w') = [] \<and> db_step\<^sup>*\<^sup>* (ss_db (system_session w)) (ss_db (system_session w')) \<and> ledger_grown w w'"
  using assms(1)
proof (induction rule: rtranclp_induct)
  case (step u v)
  have "\<exists>rq. request_effect d rq u v"
    using step(2)
  proof cases
    case (request rq)
    then show ?thesis using request_step_effect [OF assms(2)] step(3) by blast
  qed (simp add: request_effect_def)
  then obtain rq where "request_effect d rq u v" ..
  with effect_grows [OF _ this] step(3) show ?case by (auto dest: ledger_grown_trans)
qed (use assms(3) in simp)


subsection \<open>A revoked key stays out\<close>

definition revoked_hash :: "string \<Rightarrow> database \<Rightarrow> bool" where
  "revoked_hash h db \<longleftrightarrow> keys_wf db \<and> (\<exists>k \<in> set (db_api_keys db). ak_key_hash k = h \<and> \<not> ak_is_active k)"

lemma revoked_not_found:
  assumes "revoked_hash h db"
  shows "find (active_with h) (db_api_keys db) = None"
proof -
  from assms obtain k where k: "k \<in> set (db_api_keys db)" "ak_key_hash k = h" "\<not> ak_is_active k"
    and "distinct (map ak_key_hash (db_api_keys db))" by (auto simp: revoked_hash_def keys_wf_def)
  then have inj: "inj_on ak_key_hash (set (db_api_keys db))" by (simp add: distinct_map)
  have "\<not> active_with h x" if "x \<in> set (db_api_keys db)" for x
    using inj_onD [OF inj _ that k(1)] k(2,3) unfolding active_with_def by metis
  then show ?thesis by (auto simp: find_None_iff)
qed

lemma revoked_hash_step: "db_step db db' \<Longrightarrow> revoked_hash h db \<Longrightarrow> revoked_hash h db'"
proof (induction rule: db_step.induct)
  case (creates digest random i now name rl q db k token db')
  note c = create_api_key_Inr [OF creates(1)]
  from creates(2) api_key_insert_wf [of db k] c(5,6) show ?case by (auto simp: revoked_hash_def)
next
  case (revokes i db r db')
  note w = revoke_api_key_db [OF revokes(1)]
  from revokes(2) obtain k where "k \<in> set (db_api_keys db)" "ak_key_hash k = h" "\<not> ak_is_active k" "keys_wf db"
    by (auto simp: revoked_hash_def)
  then have "keys_wf db'" "k \<in> set (db_api_keys db') \<or> deactivate i k \<in> set (db_api_keys db')" using w by auto
  with \<open>ak_key_hash k = h\<close> \<open>\<not> ak_is_active k\<close> show ?case by (auto simp: revoked_hash_def intro: bexI [of _ "deactivate i k"])
next
  case (records now k p m ti to c f rid r db db')
  then show ?case by (auto simp: revoked_hash_def keys_wf_def usage_save_def split: if_splits)
qed

lemma revoked_hash_steps: "db_step\<^sup>*\<^sup>* db db' \<Longrightarrow> revoked_hash h db \<Longrightarrow> revoked_hash h db'"
  by (induction rule: rtranclp_induct) (auto intro: revoked_hash_step)

lemma revoked_not_authenticated:
  assumes "revoked_hash (h_hash_api_key (dp_host d) t) (ss_db (system_session w))" and "bearer_token a = Some t"
  shows "authenticate d a w = Inl Unauthorized"
  using revoked_not_found [OF assms(1)] assms(2) by (simp add: authenticate_def get_current_api_key_find)

end
