(* ===== verification/Schema.thy ===== *)
theory Schema
  imports Http_Api
begin

text \<open>
  The relational schema: the ORM declarations (\<open>app/models/db\<close>), the migration that creates
  the tables (\<open>alembic/versions/0001_initial_schema.py\<close>) and what a column does to a value
  stored in it. A schema is the list of its tables and the list of its indexes, in the order of
  their creation; the operations of Alembic are partial, with the errors PostgreSQL raises. Columns check their type, width and
  nullability, and \<open>NUMERIC\<close> columns round.
\<close>

subsection \<open>Schemas and the operations of a migration\<close>

datatype col_type =
    Uuid_T
  | String_T "nat option"
  | Integer_T
  | Boolean_T
  | Numeric_T nat nat
  | DateTime_T bool

record column =
  co_name :: string
  co_type :: col_type
  co_nullable :: bool
  co_server_default :: "string option"

text \<open>A foreign key: the columns, the table they refer to and its columns.\<close>

record table =
  tb_columns :: "column list"
  tb_primary_key :: "string list"
  tb_foreign_keys :: "(string list \<times> string \<times> string list) list"

record table_index =
  ix_table :: string
  ix_columns :: "string list"
  ix_unique :: bool

record schema =
  sc_tables :: "(string \<times> table) list"
  sc_indexes :: "(string \<times> table_index) list"

definition sql_error :: "string \<Rightarrow> exn" where
  "sql_error m = OtherException [Lit m]"

text \<open>Tables and indexes share one name space.\<close>

definition relation_exists :: "schema \<Rightarrow> string \<Rightarrow> bool" where
  "relation_exists s n = (n \<in> set (map fst (sc_tables s)) \<or> n \<in> set (map fst (sc_indexes s)))"

definition fk_target_ok :: "schema \<Rightarrow> string list \<times> string \<times> string list \<Rightarrow> bool" where
  "fk_target_ok s fk = (case fk of (cols, target, tcols) \<Rightarrow>
     (case map_of (sc_tables s) target of None \<Rightarrow> False | Some t \<Rightarrow> tb_primary_key t = tcols))"

definition op_create_table :: "string \<Rightarrow> table \<Rightarrow> schema \<Rightarrow> schema result" where
  "op_create_table n t s =
     (if relation_exists s n then Inl (sql_error ''DuplicateTable'')
      else if \<not> list_all (fk_target_ok s) (tb_foreign_keys t) then Inl (sql_error ''UndefinedTable'')
      else Inr (s\<lparr>sc_tables := sc_tables s @ [(n, t)]\<rparr>))"

definition op_create_index :: "string \<Rightarrow> string \<Rightarrow> string list \<Rightarrow> bool \<Rightarrow> schema \<Rightarrow> schema result" where
  "op_create_index n tbl cols unique s =
     (if relation_exists s n then Inl (sql_error ''DuplicateTable'')
      else case map_of (sc_tables s) tbl of
          None \<Rightarrow> Inl (sql_error ''UndefinedTable'')
        | Some t \<Rightarrow>
            (if list_all (\<lambda>c. c \<in> set (map co_name (tb_columns t))) cols
             then Inr (s\<lparr>sc_indexes := sc_indexes s @ [(n, \<lparr>ix_table = tbl, ix_columns = cols, ix_unique = unique\<rparr>)]\<rparr>)
             else Inl (sql_error ''UndefinedColumn'')))"

definition op_drop_index :: "string \<Rightarrow> schema \<Rightarrow> schema result" where
  "op_drop_index n s =
     (if n \<notin> set (map fst (sc_indexes s)) then Inl (sql_error ''UndefinedObject'')
      else Inr (s\<lparr>sc_indexes := filter (\<lambda>(m, ix). m \<noteq> n) (sc_indexes s)\<rparr>))"

text \<open>\<open>DROP TABLE\<close>: refused while another table refers to it; its indexes go with it.\<close>

definition refers_to :: "table \<Rightarrow> string \<Rightarrow> bool" where
  "refers_to t n = list_ex (\<lambda>(cols, target, tcols). target = n) (tb_foreign_keys t)"

definition op_drop_table :: "string \<Rightarrow> schema \<Rightarrow> schema result" where
  "op_drop_table n s =
     (if n \<notin> set (map fst (sc_tables s)) then Inl (sql_error ''UndefinedTable'')
      else if list_ex (\<lambda>(m, t). m \<noteq> n \<and> refers_to t n) (sc_tables s) then Inl (sql_error ''DependentObjectsStillExist'')
      else Inr \<lparr>sc_tables = filter (\<lambda>(m, t). m \<noteq> n) (sc_tables s),
                sc_indexes = filter (\<lambda>(m, ix). ix_table ix \<noteq> n) (sc_indexes s)\<rparr>)"

subsection \<open>The migration\<close>

definition plain :: "string \<Rightarrow> col_type \<Rightarrow> bool \<Rightarrow> column" where
  "plain n t nullable = \<lparr>co_name = n, co_type = t, co_nullable = nullable, co_server_default = None\<rparr>"

definition stamped :: "string \<Rightarrow> column" where
  "stamped n = \<lparr>co_name = n, co_type = DateTime_T True, co_nullable = False, co_server_default = Some ''now()''\<rparr>"

definition migration_api_key :: table where
  "migration_api_key =
     \<lparr>tb_columns = [plain ''id'' Uuid_T False, plain ''key_hash'' (String_T None) False,
        plain ''name'' (String_T (Some 255)) False, plain ''rate_limit_rpm'' Integer_T True,
        plain ''monthly_token_quota'' Integer_T True, plain ''is_active'' Boolean_T False, stamped ''created_at''],
      tb_primary_key = [''id''], tb_foreign_keys = []\<rparr>"

definition migration_pricing :: table where
  "migration_pricing =
     \<lparr>tb_columns = [plain ''id'' Uuid_T False, plain ''provider'' (String_T (Some 255)) False,
        plain ''model'' (String_T (Some 255)) False, plain ''price_per_1k_input_tokens'' (Numeric_T 12 6) False,
        plain ''price_per_1k_output_tokens'' (Numeric_T 12 6) False, stamped ''effective_from'', stamped ''created_at''],
      tb_primary_key = [''id''], tb_foreign_keys = []\<rparr>"

definition migration_usage_record :: table where
  "migration_usage_record =
     \<lparr>tb_columns = [plain ''id'' Uuid_T False, plain ''api_key_id'' Uuid_T False,
        plain ''provider'' (String_T (Some 255)) False, plain ''model'' (String_T (Some 255)) False,
        plain ''token_in'' Integer_T False, plain ''token_out'' Integer_T False,
        plain ''finish_reason'' (String_T (Some 64)) True, plain ''cost'' (Numeric_T 12 6) False,
        plain ''request_id'' (String_T (Some 255)) True, stamped ''created_at''],
      tb_primary_key = [''id''], tb_foreign_keys = [([''api_key_id''], ''api_key'', [''id''])]\<rparr>"

definition upgrade :: "schema \<Rightarrow> schema result" where
  "upgrade s =
     and_then (op_create_table ''api_key'' migration_api_key s) (\<lambda>s.
     and_then (op_create_index ''ix_api_key_key_hash'' ''api_key'' [''key_hash''] True s) (\<lambda>s.
     and_then (op_create_table ''pricing'' migration_pricing s) (\<lambda>s.
     and_then (op_create_table ''usage_record'' migration_usage_record s) (\<lambda>s.
     and_then (op_create_index ''ix_usage_record_api_key_id'' ''usage_record'' [''api_key_id''] False s) (\<lambda>s.
       op_create_index ''ix_usage_record_request_id'' ''usage_record'' [''request_id''] False s)))))"

definition downgrade :: "schema \<Rightarrow> schema result" where
  "downgrade s =
     and_then (op_drop_index ''ix_usage_record_request_id'' s) (\<lambda>s.
     and_then (op_drop_index ''ix_usage_record_api_key_id'' s) (\<lambda>s.
     and_then (op_drop_table ''usage_record'' s) (\<lambda>s.
     and_then (op_drop_table ''pricing'' s) (\<lambda>s.
     and_then (op_drop_index ''ix_api_key_key_hash'' s) (\<lambda>s.
       op_drop_table ''api_key'' s)))))"

subsection \<open>The ORM declarations\<close>

text \<open>
  \<open>mapped_column\<close>, with the options the models use (\<open>default\<close> acts in Python and is not part
  of the table). A column with \<open>index=True\<close> gets an index named after table and column, unique
  when the column is.
\<close>

record mapped_column =
  mc_name :: string
  mc_type :: col_type
  mc_primary_key :: bool
  mc_nullable :: bool
  mc_unique :: bool
  mc_index :: bool
  mc_foreign_key :: "(string \<times> string) option"
  mc_server_default :: "string option"

definition mapped :: "string \<Rightarrow> col_type \<Rightarrow> bool \<Rightarrow> mapped_column" where
  "mapped n t nullable = \<lparr>mc_name = n, mc_type = t, mc_primary_key = False, mc_nullable = nullable,
     mc_unique = False, mc_index = False, mc_foreign_key = None, mc_server_default = None\<rparr>"

definition mapped_id :: mapped_column where
  "mapped_id = (mapped ''id'' Uuid_T False)\<lparr>mc_primary_key := True\<rparr>"

definition mapped_now :: "string \<Rightarrow> mapped_column" where
  "mapped_now n = (mapped n (DateTime_T True) False)\<lparr>mc_server_default := Some ''now()''\<rparr>"

definition Api_Key_model :: "mapped_column list" where
  "Api_Key_model = [mapped_id,
     (mapped ''key_hash'' (String_T None) False)\<lparr>mc_unique := True, mc_index := True\<rparr>,
     mapped ''name'' (String_T (Some 255)) False, mapped ''rate_limit_rpm'' Integer_T True,
     mapped ''monthly_token_quota'' Integer_T True, mapped ''is_active'' Boolean_T False, mapped_now ''created_at'']"

definition Pricing_model :: "mapped_column list" where
  "Pricing_model = [mapped_id, mapped ''provider'' (String_T (Some 255)) False,
     mapped ''model'' (String_T (Some 255)) False, mapped ''price_per_1k_input_tokens'' (Numeric_T 12 6) False,
     mapped ''price_per_1k_output_tokens'' (Numeric_T 12 6) False, mapped_now ''effective_from'', mapped_now ''created_at'']"

definition Usage_Record_model :: "mapped_column list" where
  "Usage_Record_model = [mapped_id,
     (mapped ''api_key_id'' Uuid_T False)\<lparr>mc_foreign_key := Some (''api_key'', ''id''), mc_index := True\<rparr>,
     mapped ''provider'' (String_T (Some 255)) False, mapped ''model'' (String_T (Some 255)) False,
     mapped ''token_in'' Integer_T False, mapped ''token_out'' Integer_T False,
     mapped ''finish_reason'' (String_T (Some 64)) True, mapped ''cost'' (Numeric_T 12 6) False,
     (mapped ''request_id'' (String_T (Some 255)) True)\<lparr>mc_index := True\<rparr>, mapped_now ''created_at'']"

definition base_metadata :: "(string \<times> mapped_column list) list" where
  "base_metadata = [(''api_key'', Api_Key_model), (''pricing'', Pricing_model), (''usage_record'', Usage_Record_model)]"

definition orm_column :: "mapped_column \<Rightarrow> column" where
  "orm_column c = \<lparr>co_name = mc_name c, co_type = mc_type c, co_nullable = mc_nullable c,
     co_server_default = mc_server_default c\<rparr>"

definition orm_table :: "mapped_column list \<Rightarrow> table" where
  "orm_table cs = \<lparr>tb_columns = map orm_column cs,
     tb_primary_key = map mc_name (filter mc_primary_key cs),
     tb_foreign_keys = concat (map (\<lambda>c. case mc_foreign_key c of None \<Rightarrow> []
       | Some (target, tcol) \<Rightarrow> [([mc_name c], target, [tcol])]) cs)\<rparr>"

definition orm_indexes :: "string \<times> mapped_column list \<Rightarrow> (string \<times> table_index) list" where
  "orm_indexes m = map (\<lambda>c. (''ix_'' @ fst m @ ''_'' @ mc_name c,
     \<lparr>ix_table = fst m, ix_columns = [mc_name c], ix_unique = mc_unique c\<rparr>)) (filter mc_index (snd m))"

text \<open>The schema the declarations describe, added to an existing one.\<close>

definition with_metadata :: "(string \<times> mapped_column list) list \<Rightarrow> schema \<Rightarrow> schema" where
  "with_metadata ms s =
     \<lparr>sc_tables = sc_tables s @ map (\<lambda>(n, cs). (n, orm_table cs)) ms,
      sc_indexes = sc_indexes s @ concat (map orm_indexes ms)\<rparr>"

subsection \<open>Migration and models\<close>

text \<open>Foreign keys refer to tables that exist, and so do indexes.\<close>

definition schema_wf :: "schema \<Rightarrow> bool" where
  "schema_wf s =
     (list_all (\<lambda>(n, t). list_all (\<lambda>(cols, target, tcols). target \<in> set (map fst (sc_tables s))) (tb_foreign_keys t)) (sc_tables s) \<and>
      list_all (\<lambda>(n, ix). ix_table ix \<in> set (map fst (sc_tables s))) (sc_indexes s))"

definition migration_names :: "string list" where
  "migration_names = [''api_key'', ''pricing'', ''usage_record'', ''ix_api_key_key_hash'',
     ''ix_usage_record_api_key_id'', ''ix_usage_record_request_id'']"

definition names_free :: "schema \<Rightarrow> bool" where
  "names_free s = list_all (\<lambda>n. \<not> relation_exists s n) migration_names"

lemmas migration_simps = migration_api_key_def migration_pricing_def migration_usage_record_def plain_def stamped_def
lemmas model_simps = Api_Key_model_def Pricing_model_def Usage_Record_model_def mapped_def mapped_id_def mapped_now_def

lemma orm_tables:
  "orm_table Api_Key_model = migration_api_key" "orm_table Pricing_model = migration_pricing"
  "orm_table Usage_Record_model = migration_usage_record"
  by (simp_all add: orm_table_def orm_column_def migration_simps model_simps)

definition new_tables :: "(string \<times> table) list" where
  "new_tables = [(''api_key'', migration_api_key), (''pricing'', migration_pricing), (''usage_record'', migration_usage_record)]"

definition new_indexes :: "(string \<times> table_index) list" where
  "new_indexes =
     [(''ix_api_key_key_hash'', \<lparr>ix_table = ''api_key'', ix_columns = [''key_hash''], ix_unique = True\<rparr>),
      (''ix_usage_record_api_key_id'', \<lparr>ix_table = ''usage_record'', ix_columns = [''api_key_id''], ix_unique = False\<rparr>),
      (''ix_usage_record_request_id'', \<lparr>ix_table = ''usage_record'', ix_columns = [''request_id''], ix_unique = False\<rparr>)]"

definition upgraded :: "schema \<Rightarrow> schema" where
  "upgraded s = \<lparr>sc_tables = sc_tables s @ new_tables, sc_indexes = sc_indexes s @ new_indexes\<rparr>"

lemma map_of_append_fresh: "n \<notin> set (map fst xs) \<Longrightarrow> map_of (xs @ ys) n = map_of ys n"
  by (simp add: map_of_append map_add_def map_of_eq_None_iff [symmetric] split: option.splits)

lemma migration_facts [simp]:
  "tb_foreign_keys migration_api_key = []" "tb_foreign_keys migration_pricing = []"
  "tb_foreign_keys migration_usage_record = [([''api_key_id''], ''api_key'', [''id''])]"
  "tb_primary_key migration_api_key = [''id'']"
  "''key_hash'' \<in> co_name ` set (tb_columns migration_api_key)"
  "''api_key_id'' \<in> co_name ` set (tb_columns migration_usage_record)"
  "''request_id'' \<in> co_name ` set (tb_columns migration_usage_record)"
  by (simp_all add: migration_simps)

lemma upgrade_eq:
  assumes "names_free s"
  shows "upgrade s = Inr (upgraded s)"
  using assms by (simp add: names_free_def migration_names_def upgrade_def and_then_def op_create_table_def op_create_index_def relation_exists_def
      fk_target_ok_def upgraded_def new_tables_def new_indexes_def map_of_append_fresh del: map_of_append)

lemma with_metadata_eq: "with_metadata base_metadata s = upgraded s"
  by (simp add: with_metadata_def base_metadata_def upgraded_def orm_tables new_tables_def new_indexes_def
      orm_indexes_def) (simp add: model_simps)

lemma filter_fresh: "n \<notin> fst ` set xs \<Longrightarrow> filter (\<lambda>(m, x). m \<noteq> n) xs = xs"
  by (induction xs) auto

lemma downgrade_eq:
  assumes "names_free s" and "schema_wf s"
  shows "downgrade (upgraded s) = Inr s"
proof -
  have fresh: "n \<notin> fst ` set (sc_tables s)" "n \<notin> fst ` set (sc_indexes s)"
    if "n \<in> set migration_names" for n
    using assms(1) that by (auto simp: names_free_def relation_exists_def list_all_iff)
  have ixs: "filter (\<lambda>(m, ix). ix_table ix \<noteq> n) (sc_indexes s) = sc_indexes s"
    and refs: "\<not> list_ex (\<lambda>(m, t). m \<noteq> n \<and> refers_to t n) (sc_tables s)"
    if "n \<in> set migration_names" for n
  proof -
    have n: "n \<notin> fst ` set (sc_tables s)" using fresh(1) [OF that] .
    show "filter (\<lambda>(m, ix). ix_table ix \<noteq> n) (sc_indexes s) = sc_indexes s"
      using assms(2) n by (auto simp: schema_wf_def list_all_iff intro!: filter_True)
    show "\<not> list_ex (\<lambda>(m, t). m \<noteq> n \<and> refers_to t n) (sc_tables s)"
      using assms(2) n by (fastforce simp: schema_wf_def list_all_iff list_ex_iff refers_to_def)
  qed
  show ?thesis
    by (simp add: downgrade_def upgraded_def and_then_def op_drop_index_def op_drop_table_def new_tables_def
        new_indexes_def filter_fresh fresh ixs refs migration_names_def) (simp add: refers_to_def)
qed

lemma upgraded_wf: "schema_wf s \<Longrightarrow> schema_wf (upgraded s)"
  by (auto simp: schema_wf_def upgraded_def new_tables_def new_indexes_def list_all_iff)

subsection \<open>Values in columns\<close>

datatype cell = UuidV uuid | TextV string | IntV int | BoolV bool | NumV decimal | TimeV datetime | NullV

definition data_error :: exn where
  "data_error = OtherException [Lit ''DataError'']"

text \<open>\<open>NUMERIC(p, s)\<close> rounds to \<open>s\<close> decimals, halves away from zero.\<close>

definition round_half_away :: "nat \<Rightarrow> decimal \<Rightarrow> decimal" where
  "round_half_away s x = (let y = \<bar>x\<bar> * 10 ^ s; n = \<lfloor>y + 1 / 2\<rfloor> in (if x < 0 then - 1 else 1) * of_int n / 10 ^ s)"

fun store_cell :: "column \<Rightarrow> cell \<Rightarrow> cell result" where
  "store_cell c NullV = (if co_nullable c then Inr NullV else Inl integrity_error)"
| "store_cell c (TextV t) = (case co_type c of
       String_T None \<Rightarrow> Inr (TextV t)
     | String_T (Some n) \<Rightarrow> if length t \<le> n then Inr (TextV t) else Inl data_error
     | _ \<Rightarrow> Inl data_error)"
| "store_cell c (IntV i) = (case co_type c of
       Integer_T \<Rightarrow> if - (2 ^ 31) \<le> i \<and> i < 2 ^ 31 then Inr (IntV i) else Inl data_error
     | _ \<Rightarrow> Inl data_error)"
| "store_cell c (NumV x) = (case co_type c of
       Numeric_T p s \<Rightarrow> let r = round_half_away s x in if \<bar>r\<bar> < 10 ^ (p - s) then Inr (NumV r) else Inl data_error
     | _ \<Rightarrow> Inl data_error)"
| "store_cell c (UuidV u) = (if co_type c = Uuid_T then Inr (UuidV u) else Inl data_error)"
| "store_cell c (BoolV b) = (if co_type c = Boolean_T then Inr (BoolV b) else Inl data_error)"
| "store_cell c (TimeV t) = (case co_type c of DateTime_T tz \<Rightarrow> Inr (TimeV t) | _ \<Rightarrow> Inl data_error)"

text \<open>A row given by column name; a column without a value is null.\<close>

definition store_row :: "table \<Rightarrow> (string \<Rightarrow> cell) \<Rightarrow> cell list result" where
  "store_row t row = map_result (\<lambda>c. store_cell c (row (co_name c))) (tb_columns t)"

definition opt_int :: "int option \<Rightarrow> cell" where
  "opt_int x = (case x of None \<Rightarrow> NullV | Some i \<Rightarrow> IntV i)"

definition usage_cells :: "uuid \<Rightarrow> usage_row \<Rightarrow> string \<Rightarrow> cell" where
  "usage_cells fresh_id r n =
     (if n = ''id'' then UuidV fresh_id
      else if n = ''api_key_id'' then UuidV (uw_api_key_id r)
      else if n = ''provider'' then TextV (uw_provider r)
      else if n = ''model'' then TextV (uw_model r)
      else if n = ''token_in'' then IntV (uw_token_in r)
      else if n = ''token_out'' then IntV (uw_token_out r)
      else if n = ''finish_reason'' then TextV (uw_finish_reason r)
      else if n = ''cost'' then NumV (uw_cost r)
      else if n = ''request_id'' then TextV (uw_request_id r)
      else if n = ''created_at'' then TimeV (uw_created_at r)
      else NullV)"

definition api_key_cells :: "api_key \<Rightarrow> string \<Rightarrow> cell" where
  "api_key_cells k n =
     (if n = ''id'' then UuidV (ak_id k)
      else if n = ''key_hash'' then TextV (ak_key_hash k)
      else if n = ''name'' then TextV (ak_name k)
      else if n = ''rate_limit_rpm'' then opt_int (ak_rate_limit_rpm k)
      else if n = ''monthly_token_quota'' then opt_int (ak_monthly_token_quota k)
      else if n = ''is_active'' then BoolV (ak_is_active k)
      else if n = ''created_at'' then TimeV (ak_created_at k)
      else NullV)"

text \<open>What a row fits into, and what is read back from it.\<close>

definition usage_row_fits :: "usage_row \<Rightarrow> bool" where
  "usage_row_fits r \<longleftrightarrow> length (uw_provider r) \<le> 255 \<and> length (uw_model r) \<le> 255 \<and>
     - (2 ^ 31) \<le> uw_token_in r \<and> uw_token_in r < 2 ^ 31 \<and> - (2 ^ 31) \<le> uw_token_out r \<and> uw_token_out r < 2 ^ 31 \<and>
     length (uw_finish_reason r) \<le> 64 \<and> \<bar>round_half_away 6 (uw_cost r)\<bar> < 10 ^ 6 \<and> length (uw_request_id r) \<le> 255"

definition api_key_fits :: "api_key \<Rightarrow> bool" where
  "api_key_fits k \<longleftrightarrow> length (ak_name k) \<le> 255 \<and>
     (case ak_rate_limit_rpm k of None \<Rightarrow> True | Some i \<Rightarrow> - (2 ^ 31) \<le> i \<and> i < 2 ^ 31) \<and>
     (case ak_monthly_token_quota k of None \<Rightarrow> True | Some i \<Rightarrow> - (2 ^ 31) \<le> i \<and> i < 2 ^ 31)"

definition as_stored :: "usage_row \<Rightarrow> usage_row" where
  "as_stored r = r\<lparr>uw_cost := round_half_away 6 (uw_cost r)\<rparr>"

lemma round_half_away_error: "\<bar>round_half_away s x - x\<bar> \<le> 1 / (2 * 10 ^ s)"
proof -
  define n where "n = \<lfloor>\<bar>x\<bar> * 10 ^ s + 1 / 2\<rfloor>"
  have p: "(0 :: rat) < 10 ^ s" by simp
  have "of_int n \<le> \<bar>x\<bar> * 10 ^ s + 1 / 2" "\<bar>x\<bar> * 10 ^ s + 1 / 2 < of_int n + 1" unfolding n_def by linarith+
  then have "of_int n - \<bar>x\<bar> * 10 ^ s \<le> 1 / 2" "- (of_int n - \<bar>x\<bar> * 10 ^ s) \<le> 1 / 2" by linarith+
  then have "\<bar>of_int n - \<bar>x\<bar> * 10 ^ s\<bar> \<le> 1 / 2" by (rule abs_leI)
  then have "\<bar>of_int n - \<bar>x\<bar> * 10 ^ s\<bar> / 10 ^ s \<le> 1 / 2 / 10 ^ s" by (rule divide_right_mono) simp
  moreover have "\<bar>of_int n - \<bar>x\<bar> * 10 ^ s\<bar> / 10 ^ s = \<bar>of_int n / 10 ^ s - \<bar>x\<bar>\<bar>"
  proof -
    have "of_int n / 10 ^ s - \<bar>x\<bar> = (of_int n - \<bar>x\<bar> * 10 ^ s) / 10 ^ s" by (simp add: diff_divide_distrib)
    then show ?thesis by (simp only: abs_divide abs_of_pos [OF p])
  qed
  ultimately have e: "\<bar>of_int n / 10 ^ s - \<bar>x\<bar>\<bar> \<le> 1 / (2 * 10 ^ s)" by simp
  show ?thesis
  proof (cases "x < 0")
    case True
    then have "round_half_away s x - x = - (of_int n / 10 ^ s - \<bar>x\<bar>)" by (simp add: round_half_away_def Let_def n_def)
    then show ?thesis using e by (metis abs_minus_cancel)
  next
    case False
    then show ?thesis using e by (simp add: round_half_away_def Let_def n_def)
  qed
qed

lemma store_usage_row:
  "store_row migration_usage_record (usage_cells i r) =
     (if usage_row_fits r then Inr (map (\<lambda>c. usage_cells i (as_stored r) (co_name c)) (tb_columns migration_usage_record))
      else Inl data_error)"
  by (simp add: store_row_def usage_cells_def usage_row_fits_def as_stored_def migration_simps Let_def)

lemma store_api_key_row:
  "store_row migration_api_key (api_key_cells k) =
     (if api_key_fits k then Inr (map (\<lambda>c. api_key_cells k (co_name c)) (tb_columns migration_api_key))
      else Inl data_error)"
  by (simp add: store_row_def api_key_cells_def api_key_fits_def migration_simps opt_int_def split: option.splits)

lemma round_half_away_less: "0 \<le> x \<Longrightarrow> \<bar>round_half_away 6 x\<bar> < 10 ^ 6 \<longleftrightarrow> x < 10 ^ 6 - 1 / 2000000"
proof -
  assume "0 \<le> x"
  then have "0 \<le> \<lfloor>x * 1000000 + 1 / 2\<rfloor>" by simp
  then have "\<bar>round_half_away 6 x\<bar> < 10 ^ 6 \<longleftrightarrow> of_int \<lfloor>x * 1000000 + 1 / 2\<rfloor> < (of_int (10 ^ 12) :: rat)"
    using \<open>0 \<le> x\<close> by (simp add: round_half_away_def Let_def field_simps)
  also have "\<dots> \<longleftrightarrow> x * 1000000 + 1 / 2 < of_int (10 ^ 12)"
    by (simp only: of_int_less_iff floor_less_iff)
  finally show ?thesis by (simp add: field_simps)
qed

lemma recorded_row_fits:
  assumes "usage_record_wf r"
  shows "usage_row_fits (usage_row_of r) \<longleftrightarrow> length (ur_model r) \<le> 255 \<and> length (ur_request_id r) \<le> 255 \<and>
    ur_tokens_in r < 2 ^ 31 \<and> ur_tokens_out r < 2 ^ 31 \<and> ur_cost r < 10 ^ 6 - 1 / 2000000"
proof -
  have "length (ur_finish_reason r) \<le> 64" using assms by (auto simp: usage_record_wf_def VALID_FINISH_REASONS_def)
  moreover have "length (provider_value (ur_provider r)) \<le> 255" by (cases "ur_provider r") simp_all
  ultimately show ?thesis
    using assms round_half_away_less [of "ur_cost r"] by (auto simp: usage_row_fits_def usage_row_of_def usage_record_wf_def)
qed

lemma sum_error:
  assumes "\<And>x. x \<in> set xs \<Longrightarrow> \<bar>f x - g x\<bar> \<le> (e :: rat)"
  shows "\<bar>sum_list (map f xs) - sum_list (map g xs)\<bar> \<le> of_nat (length xs) * e"
  using assms
proof (induction xs)
  case (Cons x xs)
  have "\<bar>f x - g x\<bar> \<le> e" and "\<bar>sum_list (map f xs) - sum_list (map g xs)\<bar> \<le> of_nat (length xs) * e"
    using Cons by simp_all
  then show ?case by (simp add: distrib_right)
qed simp

subsection \<open>Correctness properties\<close>

text \<open>
  C28. The migration and the models agree. On any database in which the names are free, the
  migration succeeds and creates exactly the tables, columns, keys and indexes that the ORM
  models declare, leaving everything else alone and no dangling reference; the downgrade then
  succeeds and restores the database's schema exactly.
\<close>

theorem migration_matches_models:
  assumes "names_free s" and "schema_wf s"
  shows "upgrade s = Inr (with_metadata base_metadata s) \<and> schema_wf (with_metadata base_metadata s) \<and>
    and_then (upgrade s) downgrade = Inr s"
  using assms by (simp add: upgrade_eq with_metadata_eq upgraded_wf downgrade_eq and_then_def)

text \<open>
  C27. What the columns do to billing. A record built by the recorder is stored exactly when the
  model name and the upstream id have at most 255 characters, each token count fits 31 bits and
  the cost stays below one million; otherwise the insert fails. What is stored is the record
  itself with its cost rounded to six decimals, so that the stored total of any number of records
  differs from the exact total by at most half a millionth per record.
\<close>

theorem usage_storage_bounds:
  assumes "\<forall>r \<in> set recs. usage_record_wf r"
  shows "(\<forall>r \<in> set recs. store_row migration_usage_record (usage_cells i (usage_row_of r)) =
      (if length (ur_model r) \<le> 255 \<and> length (ur_request_id r) \<le> 255 \<and>
          ur_tokens_in r < 2 ^ 31 \<and> ur_tokens_out r < 2 ^ 31 \<and> ur_cost r < 10 ^ 6 - 1 / 2000000
       then Inr (map (\<lambda>c. usage_cells i (as_stored (usage_row_of r)) (co_name c)) (tb_columns migration_usage_record))
       else Inl data_error)) \<and>
    \<bar>sum_list (map (\<lambda>r. uw_cost (as_stored (usage_row_of r))) recs) - sum_list (map ur_cost recs)\<bar>
      \<le> of_nat (length recs) * (1 / 2000000)"
proof
  show "\<forall>r \<in> set recs. store_row migration_usage_record (usage_cells i (usage_row_of r)) =
      (if length (ur_model r) \<le> 255 \<and> length (ur_request_id r) \<le> 255 \<and>
          ur_tokens_in r < 2 ^ 31 \<and> ur_tokens_out r < 2 ^ 31 \<and> ur_cost r < 10 ^ 6 - 1 / 2000000
       then Inr (map (\<lambda>c. usage_cells i (as_stored (usage_row_of r)) (co_name c)) (tb_columns migration_usage_record))
       else Inl data_error)"
    using assms unfolding store_usage_row by (simp add: recorded_row_fits)
  show "\<bar>sum_list (map (\<lambda>r. uw_cost (as_stored (usage_row_of r))) recs) - sum_list (map ur_cost recs)\<bar>
      \<le> of_nat (length recs) * (1 / 2000000)"
  proof (rule sum_error)
    show "\<bar>uw_cost (as_stored (usage_row_of r)) - ur_cost r\<bar> \<le> 1 / 2000000" for r
      using round_half_away_error [of 6 "ur_cost r"] by (simp add: as_stored_def usage_row_of_def)
  qed
qed

text \<open>
  Creating a key: the body's constraints bound neither the name's length nor the two limits, the
  columns do, so a request that passes validation can fail in the database.
\<close>

theorem api_key_storage_bounds:
  assumes "api_key_payload_valid p"
    and "create_api_key digest random i now (kp_name p) (kp_rate_limit_rpm p) (kp_monthly_token_quota p) db = (Inr (k, token), db')"
  shows "(store_row migration_api_key (api_key_cells k) = Inl data_error) \<longleftrightarrow>
    \<not> (length (kp_name p) \<le> 255 \<and> (\<forall>n. kp_rate_limit_rpm p = Some n \<longrightarrow> n < 2 ^ 31) \<and>
       (\<forall>n. kp_monthly_token_quota p = Some n \<longrightarrow> n < 2 ^ 31))"
proof -
  have "ak_name k = kp_name p" "ak_rate_limit_rpm k = kp_rate_limit_rpm p" "ak_monthly_token_quota k = kp_monthly_token_quota p"
    using assms(2) by (auto simp: create_api_key_def api_key_create_Inr Let_def split: sum.splits prod.splits)
  then show ?thesis
    using assms(1) unfolding store_api_key_row
    by (auto simp: api_key_fits_def api_key_payload_valid_def split: option.splits)
qed

subsection \<open>Instances\<close>

definition empty_schema :: schema where
  "empty_schema = \<lparr>sc_tables = [], sc_indexes = []\<rparr>"

theorem migration_matches_models_witness:
  "upgrade empty_schema = Inr (with_metadata base_metadata empty_schema) \<and>
   and_then (upgrade empty_schema) downgrade = Inr empty_schema"
proof -
  have "names_free empty_schema" "schema_wf empty_schema"
    by (simp_all add: names_free_def migration_names_def relation_exists_def schema_wf_def empty_schema_def)
  from migration_matches_models [OF this] show ?thesis by blast
qed

theorem usage_storage_bounds_witness:
  "store_row migration_usage_record (usage_cells 1 (usage_row_of (sample_usage ! 0))) =
     Inr (map (\<lambda>c. usage_cells 1 (as_stored (usage_row_of (sample_usage ! 0))) (co_name c)) (tb_columns migration_usage_record)) \<and>
   \<bar>uw_cost (as_stored (usage_row_of (sample_usage ! 0))) - 2\<bar> \<le> 1 / 2000000"
proof -
  let ?r = "sample_usage ! 0"
  have "\<forall>r \<in> set [?r]. usage_record_wf r"
    by (simp add: sample_usage_def usage_record_wf_def VALID_FINISH_REASONS_def)
  from usage_storage_bounds [OF this, of 1] show ?thesis
    by (simp add: sample_usage_def)
qed

end
