(* ===== verification/Infrastructure.thy ===== *)
theory Infrastructure
  imports Schema
begin

text \<open>
  How the process reaches its backing services and how the schema gets there: the options of the
  database engine (\<open>app/infra/database/session.py\<close>) and of the Redis client
  (\<open>app/infra/ratelimit/redis_client.py\<close>), and Alembic's environment script
  (\<open>alembic/env.py\<close>), which hands the database URL through a \<open>ConfigParser\<close> before
  it runs the migration in one transaction.
\<close>

subsection \<open>The engine and the Redis client\<close>

fun nat_str :: "nat \<Rightarrow> string" where
  "nat_str n = (if n < 10 then [] else nat_str (n div 10)) @ [hex_digit (n mod 10)]"

declare nat_str.simps [simp del]

definition py_str_int :: "int \<Rightarrow> string" where
  "py_str_int i = (if i < 0 then ''-'' @ nat_str (nat (- i)) else nat_str (nat i))"

record connect_args =
  ca_timeout :: "seconds option"
  ca_command_timeout :: "seconds option"
  ca_ssl :: string
  ca_server_settings :: "(string \<times> string) list"

datatype connection_pool =
    QueuePool int int seconds int bool
  | NullPool

record engine_options =
  eo_url :: string
  eo_echo :: bool
  eo_pool :: connection_pool
  eo_connect_args :: connect_args

definition engine :: "settings \<Rightarrow> engine_options" where
  "engine config =
     \<lparr>eo_url = database_url config, eo_echo = db_echo config,
      eo_pool = QueuePool (db_pool_size config) (db_max_overflow config) (db_pool_timeout_s config)
        (db_pool_recycle_s config) (db_pool_pre_ping config),
      eo_connect_args =
        \<lparr>ca_timeout = Some (db_connect_timeout_s config), ca_command_timeout = Some (db_command_timeout_s config),
         ca_ssl = db_ssl config,
         ca_server_settings = [(''statement_timeout'', py_str_int (db_statement_timeout_ms config))]\<rparr>\<rparr>"

record redis_options =
  ro_url :: string
  ro_socket_connect_timeout :: seconds
  ro_socket_timeout :: seconds
  ro_max_connections :: int
  ro_decode_responses :: bool

definition build_redis_client :: "settings \<Rightarrow> redis_options" where
  "build_redis_client config =
     \<lparr>ro_url = redis_url config, ro_socket_connect_timeout = redis_connect_timeout_s config,
      ro_socket_timeout = redis_command_timeout_s config, ro_max_connections = redis_max_connections config,
      ro_decode_responses = False\<rparr>"

subsection \<open>Options in a configuration file\<close>

text \<open>
  Alembic keeps its options in a \<open>ConfigParser\<close> with the basic interpolation. Setting an
  option removes the escapes and then the references from the value and refuses it when a percent
  sign is left (\<open>before_set\<close>); reading one replaces them (\<open>before_get\<close>). \<open>opts\<close> are
  the other options of the section and the defaults.
\<close>

abbreviation (input) percent :: char where "percent \<equiv> CHR 0x25"

fun drop_escapes :: "string \<Rightarrow> string" where
  "drop_escapes (c # d # s) = (if c = percent \<and> d = percent then drop_escapes s else c # drop_escapes (d # s))"
| "drop_escapes s = s"

text \<open>What follows a reference \<open>%(name)s\<close> at the head of a string, with the name.\<close>

definition reference :: "string \<Rightarrow> (string \<times> string) option" where
  "reference s =
     (if py_startswith s ''%('' then
        let name = takeWhile (\<lambda>c. c \<noteq> CHR '')'') (drop 2 s); rest = drop (2 + length name) s
        in if name \<noteq> [] \<and> py_startswith rest '')s'' then Some (name, drop 2 rest) else None
      else None)"

lemma reference_shorter: "reference s = Some (name, rest) \<Longrightarrow> length rest < length s"
  by (auto simp: reference_def py_startswith_iff Let_def dest: arg_cong [of _ _ length] split: if_splits)

function drop_references :: "string \<Rightarrow> string" where
  "drop_references [] = []"
| "drop_references (c # s) =
     (case reference (c # s) of Some (name, rest) \<Rightarrow> drop_references rest | None \<Rightarrow> c # drop_references s)"
  by pat_completeness auto
termination
  by (relation "measure length") (auto dest: reference_shorter)

definition config_set :: "string \<Rightarrow> string result" where
  "config_set value =
     (if percent \<in> set (drop_references (drop_escapes value))
      then Inl (ValueError [Lit ''invalid interpolation syntax'']) else Inr value)"

definition InterpolationError :: "string \<Rightarrow> exn" where
  "InterpolationError m = OtherException [Lit m]"

function interpolate :: "(string \<Rightarrow> string option) \<Rightarrow> nat \<Rightarrow> string \<Rightarrow> string result" where
  "interpolate opts 0 s = Inl (InterpolationError ''depth'')"
| "interpolate opts (Suc depth) [] = Inr []"
| "interpolate opts (Suc depth) (c # s) =
     (if c \<noteq> percent then (case interpolate opts (Suc depth) s of Inl e \<Rightarrow> Inl e | Inr t \<Rightarrow> Inr (c # t))
      else if py_startswith s [percent] then
        (case interpolate opts (Suc depth) (drop 1 s) of Inl e \<Rightarrow> Inl e | Inr t \<Rightarrow> Inr (percent # t))
      else case reference (c # s) of
        None \<Rightarrow> Inl (InterpolationError ''syntax'')
      | Some (name, rest) \<Rightarrow>
          (case opts name of
             None \<Rightarrow> Inl (InterpolationError ''missing option'')
           | Some v \<Rightarrow>
               (case (if percent \<in> set v then interpolate opts depth v else Inr v) of
                  Inl e \<Rightarrow> Inl e
                | Inr x \<Rightarrow> (case interpolate opts (Suc depth) rest of Inl e \<Rightarrow> Inl e | Inr t \<Rightarrow> Inr (x @ t)))))"
  by pat_completeness auto
termination
  by (relation "measures [\<lambda>(opts, depth, s). depth, \<lambda>(opts, depth, s). length s]") (auto dest: reference_shorter)

definition MAX_INTERPOLATION_DEPTH :: nat where
  "MAX_INTERPOLATION_DEPTH = 10"

definition config_get :: "(string \<Rightarrow> string option) \<Rightarrow> string \<Rightarrow> string result" where
  "config_get opts raw = interpolate opts MAX_INTERPOLATION_DEPTH raw"

subsection \<open>The migration runner\<close>

record migration_context =
  mc_url :: "string option"
  mc_literal_binds :: bool
  mc_dialect_opts :: "(string \<times> string) list"
  mc_compare_type :: bool
  mc_compare_server_default :: bool

text \<open>A database as Alembic sees it: its schema and the revision it is stamped with.\<close>

record revised =
  rv_version :: "string option"
  rv_schema :: schema

definition revision :: string where
  "revision = ''0001''"

definition down_revision :: "string option" where
  "down_revision = None"

text \<open>
  \<open>context.run_migrations\<close> for \<open>upgrade head\<close> with this one revision: it runs when the
  database is at the revision below it, a database at the head is left alone, an unknown stamp is
  an error. \<open>begin_transaction\<close> rolls back what a failed migration did.
\<close>

definition run_migrations :: "revised \<Rightarrow> revised result" where
  "run_migrations db =
     (if rv_version db = Some revision then Inr db
      else if rv_version db = down_revision then
        (case upgrade (rv_schema db) of Inl e \<Rightarrow> Inl e
         | Inr s \<Rightarrow> Inr \<lparr>rv_version = Some revision, rv_schema = s\<rparr>)
      else Inl (OtherException [Lit ''unknown revision'']))"

definition in_transaction :: "('s \<Rightarrow> 's result) \<Rightarrow> 's \<Rightarrow> unit result \<times> 's" where
  "in_transaction f s = (case f s of Inl e \<Rightarrow> (Inl e, s) | Inr s' \<Rightarrow> (Inr (), s'))"

definition migration_url :: "settings \<Rightarrow> string" where
  "migration_url config = database_url config"

definition run_migrations_offline :: "settings \<Rightarrow> migration_context" where
  "run_migrations_offline config =
     \<lparr>mc_url = Some (migration_url config), mc_literal_binds = True, mc_dialect_opts = [(''paramstyle'', ''named'')],
      mc_compare_type = True, mc_compare_server_default = True\<rparr>"

definition do_run_migrations :: "revised \<Rightarrow> (migration_context \<times> unit result) \<times> revised" where
  "do_run_migrations db =
     (case in_transaction run_migrations db of
        (r, db') \<Rightarrow> ((\<lparr>mc_url = None, mc_literal_binds = False, mc_dialect_opts = [],
            mc_compare_type = True, mc_compare_server_default = True\<rparr>, r), db'))"

definition migration_engine :: "settings \<Rightarrow> string \<Rightarrow> engine_options" where
  "migration_engine config url =
     \<lparr>eo_url = url, eo_echo = False, eo_pool = NullPool,
      eo_connect_args = \<lparr>ca_timeout = None, ca_command_timeout = None, ca_ssl = db_ssl config, ca_server_settings = []\<rparr>\<rparr>"

text \<open>The engine that was connected to, if it came to that, and how the run ended.\<close>

definition run_migrations_online ::
  "(string \<Rightarrow> string option) \<Rightarrow> settings \<Rightarrow> revised \<Rightarrow> (engine_options option \<times> unit result) \<times> revised" where
  "run_migrations_online opts config db =
     (case config_set (migration_url config) of
        Inl e \<Rightarrow> ((None, Inl e), db)
      | Inr raw \<Rightarrow>
          (case config_get opts raw of
             Inl e \<Rightarrow> ((None, Inl e), db)
           | Inr url \<Rightarrow>
               (case do_run_migrations db of
                  ((ctx, r), db') \<Rightarrow> ((Some (migration_engine config url), r), db'))))"

text \<open>The script: \<open>alembic upgrade head\<close>, with \<open>--sql\<close> or without.\<close>

datatype env_run = Emitted migration_context | Ran "engine_options option \<times> unit result"

definition run_env :: "bool \<Rightarrow> (string \<Rightarrow> string option) \<Rightarrow> settings \<Rightarrow> revised \<Rightarrow> env_run \<times> revised" where
  "run_env offline opts config db =
     (if offline then (Emitted (run_migrations_offline config), db)
      else map_prod Ran id (run_migrations_online opts config db))"

subsection \<open>What the interpolation does to a URL\<close>

lemma drop_escapes_subset: "set (drop_escapes s) \<subseteq> set s"
  by (induction s rule: drop_escapes.induct) auto

lemma reference_head: "reference (c # s) = Some r \<Longrightarrow> c = percent \<and> py_startswith s ''(''"
  by (auto simp: reference_def split: if_splits)

lemma drop_references_plain: "percent \<notin> set s \<Longrightarrow> drop_references s = s"
  by (induction s rule: drop_references.induct) (auto split: option.splits dest: reference_head)

lemma config_set_plain: "percent \<notin> set s \<Longrightarrow> config_set s = Inr s"
proof -
  assume "percent \<notin> set s"
  then have "percent \<notin> set (drop_escapes s)" using drop_escapes_subset by blast
  then show ?thesis by (simp add: config_set_def drop_references_plain)
qed

lemma config_get_plain: "percent \<notin> set s \<Longrightarrow> interpolate opts (Suc n) s = Inr s"
  by (induction s) auto

text \<open>A percent sign that neither escapes nor refers is refused.\<close>

lemma drop_escapes_stray:
  "percent \<notin> set a \<Longrightarrow> c \<noteq> percent \<Longrightarrow>
    drop_escapes (a @ percent # c # b) = a @ percent # drop_escapes (c # b)"
proof (induction a)
  case (Cons x a)
  obtain y ys where "a @ percent # c # b = y # ys" by (cases "a @ percent # c # b") auto
  with Cons show ?case by auto
qed simp

lemma drop_escapes_head: "c \<noteq> percent \<Longrightarrow> \<exists>s'. drop_escapes (c # s) = c # s'"
  by (cases s) auto

lemma drop_references_stray:
  "percent \<notin> set a \<Longrightarrow> c \<noteq> CHR ''('' \<Longrightarrow> percent \<in> set (drop_references (a @ percent # c # b))"
proof (induction a)
  case Nil
  have "reference (percent # c # b) = None" using Nil(2) by (auto simp: reference_def)
  then show ?case by simp
next
  case (Cons x a)
  then have "reference (x # a @ percent # c # b) = None"
    using reference_head [of x "a @ percent # c # b"] by (cases "reference (x # a @ percent # c # b)") auto
  with Cons show ?case by simp
qed

lemma config_set_stray:
  assumes "percent \<notin> set a" and "c \<notin> {percent, CHR ''(''}"
  shows "config_set (a @ percent # c # b) = Inl (ValueError [Lit ''invalid interpolation syntax''])"
proof -
  obtain s' where "drop_escapes (c # b) = c # s'" using drop_escapes_head assms(2) by blast
  then have "drop_escapes (a @ percent # c # b) = a @ percent # c # s'"
    using drop_escapes_stray [of a c b] assms by auto
  with drop_references_stray [of a c s'] assms show ?thesis by (simp add: config_set_def)
qed

subsection \<open>Correctness properties\<close>

text \<open>
  The migration runs on the database of the application. For a URL without percent signs, a
  run against a database that has none of the names connects to the URL and with the TLS mode the
  application's engine uses, succeeds, and leaves exactly the tables and indexes the ORM models
  declare beside what was there; a second run changes nothing.
\<close>

theorem migration_reaches_application_database:
  assumes "percent \<notin> set (database_url config)" and "rv_version db = None" and "names_free (rv_schema db)"
  shows "\<exists>eng db'. run_migrations_online opts config db = ((Some eng, Inr ()), db') \<and>
    eo_url eng = eo_url (engine config) \<and> ca_ssl (eo_connect_args eng) = ca_ssl (eo_connect_args (engine config)) \<and>
    rv_schema db' = with_metadata base_metadata (rv_schema db) \<and>
    run_migrations_online opts config db' = ((Some eng, Inr ()), db')"
proof -
  let ?db = "\<lparr>rv_version = Some revision, rv_schema = upgraded (rv_schema db)\<rparr>"
  have url: "run_migrations_online opts config x =
      (case do_run_migrations x of ((ctx, r), x') \<Rightarrow> ((Some (migration_engine config (database_url config)), r), x'))" for x
    using config_get_plain [OF assms(1), of opts 9]
    by (simp add: run_migrations_online_def migration_url_def config_set_plain [OF assms(1)] config_get_def
        MAX_INTERPOLATION_DEPTH_def)
  have "run_migrations db = Inr ?db"
    by (simp add: run_migrations_def assms(2) down_revision_def upgrade_eq [OF assms(3)])
  moreover have "run_migrations ?db = Inr ?db" by (simp add: run_migrations_def)
  ultimately show ?thesis
    by (intro exI [of _ "migration_engine config (database_url config)"] exI [of _ ?db])
      (simp add: url do_run_migrations_def in_transaction_def migration_engine_def engine_def with_metadata_eq)
qed

text \<open>
  C40. A percent-encoded URL stops the migration. When the first percent sign of the database URL is
  followed by anything but another one or a bracket, as in a password with an encoded character,
  the online run fails with a \<open>ValueError\<close> before it connects, and the database stays as it is,
  although the application's engine and the offline run take the same URL as it is.
\<close>

theorem percent_url_stops_migration:
  assumes "database_url config = a @ percent # c # b" and "percent \<notin> set a" and "c \<notin> {percent, CHR ''(''}"
  shows "run_migrations_online opts config db = ((None, Inl (ValueError [Lit ''invalid interpolation syntax''])), db) \<and>
    eo_url (engine config) = a @ percent # c # b \<and> mc_url (run_migrations_offline config) = Some (a @ percent # c # b)"
  using config_set_stray [OF assms(2,3), of b] assms(1)
  by (simp add: run_migrations_online_def migration_url_def engine_def run_migrations_offline_def)

subsection \<open>Instances\<close>

theorem migration_reaches_application_database_witness:
  "\<exists>eng db'. run_migrations_online (\<lambda>_. None) (default_settings ''postgresql://u:p@db/x'' ''t'')
      \<lparr>rv_version = None, rv_schema = empty_schema\<rparr> = ((Some eng, Inr ()), db') \<and>
    eo_url eng = ''postgresql://u:p@db/x'' \<and> rv_schema db' = with_metadata base_metadata empty_schema"
proof -
  let ?c = "default_settings ''postgresql://u:p@db/x'' ''t''" and ?db = "\<lparr>rv_version = None, rv_schema = empty_schema\<rparr>"
  have "percent \<notin> set (database_url ?c)" by (simp add: default_settings_def)
  moreover have "rv_version ?db = None" "names_free (rv_schema ?db)"
    by (simp_all add: names_free_def migration_names_def relation_exists_def empty_schema_def)
  ultimately have "\<exists>eng db'. run_migrations_online (\<lambda>_. None) ?c ?db = ((Some eng, Inr ()), db') \<and>
      eo_url eng = eo_url (engine ?c) \<and> ca_ssl (eo_connect_args eng) = ca_ssl (eo_connect_args (engine ?c)) \<and>
      rv_schema db' = with_metadata base_metadata (rv_schema ?db) \<and>
      run_migrations_online (\<lambda>_. None) ?c db' = ((Some eng, Inr ()), db')"
    by (rule migration_reaches_application_database)
  then show ?thesis by (auto simp: engine_def default_settings_def)
qed

theorem percent_url_stops_migration_witness:
  "run_migrations_online (\<lambda>_. None) (default_settings ''postgresql://u:p%40@db/x'' ''t'')
      \<lparr>rv_version = None, rv_schema = empty_schema\<rparr> =
    ((None, Inl (ValueError [Lit ''invalid interpolation syntax''])), \<lparr>rv_version = None, rv_schema = empty_schema\<rparr>)"
  using percent_url_stops_migration [of "default_settings ''postgresql://u:p%40@db/x'' ''t''" "''postgresql://u:p''" "CHR ''4''" "''0@db/x''"
      "\<lambda>_. None" "\<lparr>rv_version = None, rv_schema = empty_schema\<rparr>"]
  by (simp add: default_settings_def)

end
