(* ===== verification/Spec2Isabelle.thy ===== *)
theory Spec2Isabelle
  imports Sample_Deployment System_Runs Infrastructure
begin

text \<open>
  A verification library for Relayix, a gateway that forwards chat completions to OpenAI and
  Anthropic behind one HTTP API.

  \<^bold>\<open>The program.\<close> A request (\<open>app/api/v1/chat.py\<close>) is authenticated by its bearer token against
  the stored key hashes, throttled by a token bucket (Redis, or in memory while Redis is down),
  claimed in Redis when it carries an idempotency key, and served by the gateway service, which
  ranks the candidate models of the requested tier and tries them in order. Each provider adapter
  sits behind a circuit breaker and a deadline. A response is priced and recorded in PostgreSQL
  inside the request's transaction before it is returned, plain or as server-sent events; the
  transaction is committed when the response was sent. Two further groups of endpoints read the
  recorded usage and manage api keys, two probes report the health of the process.

  \<^bold>\<open>Theories, in the order of their dependencies.\<close>

  \<^item> \<open>Relayix_Prelude\<close>: strings, sorting with a key, float infinities, uuids, and the lemma
    collections the other theories add to.
  \<^item> \<open>Relayix_Domain\<close>: \<open>app/models/domain\<close> and all exception classes. A dataclass is a record, an
    enum a datatype; \<open>exn\<close> has a constructor per exception, and a call that may raise returns
    \<open>exn + 'a\<close>.
  \<^item> \<open>Relayix_Config\<close>: \<open>app/infra/config.py\<close>.
  \<^item> \<open>Circuit_Breaker\<close>: \<open>app/core/resilience/circuit_breaker.py\<close>. Each method is a function on the
    breaker's record; callers that interleave are the step relation \<open>cb_step\<close>, refined to the
    three-state machine of the class comment. Lemmas: one trial at a time, when it trips, how it
    recovers, that it stays open.
  \<^item> \<open>Rate_Limit\<close>: \<open>app/core/ratelimit\<close> and \<open>app/infra/ratelimit/redis_limiter.py\<close> with its Lua script.
    The locale \<open>token_limiter\<close> is the contract of a limiter, interpreted on both buckets; from it
    come the admission bound and the exactness of the reported wait. The two buckets decide alike;
    the composition serves an outage from memory.
  \<^item> \<open>Routing\<close>: \<open>app/core/routing\<close>. Ranking by each strategy, start-up validation.
  \<^item> \<open>Accounting\<close>: \<open>app/core/accounting\<close>. Prices in effect, cost, the recorder over the locale
    \<open>usage_sink\<close> (what a repository promises), the token counters.
  \<^item> \<open>Provider_Adapters\<close>: the two adapters of \<open>app/core/adapters\<close>. Parsing, streaming, and the
    classification of failures into never executed and outcome unknown.
  \<^item> \<open>Resilient_Adapter\<close>: \<open>app/core/resilience/resilient_adapter.py\<close> and the adapter registry. The
    locale \<open>upstream_calls\<close> is what the gateway relies on, interpreted on both adapters.
  \<^item> \<open>Gateway\<close>: \<open>app/services/gateway_service.py\<close>. Failover for completions and streams and the draining
    generator, in the locale \<open>failover\<close>, interpreted on the deployed registry: executions per
    request, billing, how a committed stream ends.
  \<^item> \<open>Idempotency\<close>: \<open>app/infra/idempotency/redis_store.py\<close> and \<open>app/services/idempotency_service.py\<close>.
    The service relies on the locale \<open>idempotency_port\<close>, interpreted on the Redis store over a
    server with expiry; any number of clients is the step relation \<open>idem_step\<close>.
  \<^item> \<open>Ledger\<close>: \<open>app/repositories\<close>, \<open>usage_service.py\<close>, \<open>api_key_service.py\<close>, \<open>crypto.py\<close> and \<open>get_session\<close>.
    \<open>ORDER BY\<close> is the locale \<open>sql_order\<close>; the life of the tables is the step relation
    \<open>db_step\<close>.
  \<^item> \<open>Http_Api\<close>: \<open>app/api\<close> and the exception handlers of \<open>app/main.py\<close>. Every endpoint, the
    life of an api key, the \<open>Retry-After\<close> header, and the event stream down to its characters, with
    a client that parses it.
  \<^item> \<open>Schema\<close>: \<open>alembic/versions/0001_initial_schema.py\<close> against \<open>app/models/db\<close>, and what typed
    columns do to the values written.
  \<^item> \<open>Infrastructure\<close>: the options of the database engine and of the Redis client, and
    \<open>alembic/env.py\<close> with the interpolation its \<open>ConfigParser\<close> applies to the URL.
  \<^item> \<open>Observability\<close>: \<open>app/observability\<close>. The dictionary handed to \<open>dictConfig\<close>, the logger
    tree it configures, which records reach stdout and with which trace ids; what is instrumented.
  \<^item> \<open>Relayix_System\<close>: \<open>lifespan\<close> and the wiring of \<open>app/api/deps.py\<close>; one state for a whole request.
    The locale \<open>process_limiter\<close> is what a request relies on of its limiter (it touches only the
    process), interpreted on the Redis, the in-memory and, through them, the resilient one.
  \<^item> \<open>Stream_Serving\<close>: a streamed request from the endpoint to its last frame: the gateway's generator
    inside the settling one inside the encoder, and the session closed after it; also for a client
    that leaves before the end.
  \<^item> \<open>Http_Routes\<close>: the four routers and \<open>app\<close> of \<open>app/main.py\<close>; one HTTP request from its route to
    its response and the state it leaves. No two routes compete.
  \<^item> \<open>System_Runs\<close>: the process over many requests, as the step relation \<open>system_step\<close>. The locale
    \<open>metered\<close> is what the ledger relies on of a generator (it records at most once in its life),
    interpreted on the gateway's generator and on the events of a response, whether keyed or not.
    Lemmas: what one request does to the tables, and by rule induction what a run does: it is a
    run of \<open>db_step\<close>, rows are only appended and each has an execution behind it.
  \<^item> \<open>Sample_Deployment\<close>: a small concrete process for the instances of the theorems below.
  \<^item> this theory: the properties that need every part, from the bearer token to the committed row.

  \<^bold>\<open>How effects are modelled.\<close> State is passed explicitly. The world of a provider call is
  \<open>world\<close> (the breakers, a counter of upstream calls that may have been executed, and an outer
  part with the session and the process); around it \<open>redis_world\<close> adds the Redis server. The counter
  \<open>executions\<close> exists only in the model: it is what at-most-once is about. An \<open>await\<close> is a
  world transformer that may do anything to the shared breakers and to the outer part, so other
  requests run there; where interleaving is the point (breaker, idempotency store) there is a step
  relation instead. An async generator is a datatype of its suspension points with \<open>anext\<close> and
  \<open>aclose\<close>. \<open>asyncio.timeout\<close> compares clock readings before and after the call it guards.

  \<^bold>\<open>Code outside the repository\<close> is a parameter: the two SDKs, Redis, PostgreSQL's order of equal
  keys, SHA-256, tiktoken, pydantic's JSON. In the system theories all of it is one record
  \<open>host\<close>, with what other requests do meanwhile and whether a commit fails. What is assumed of
  it is a hypothesis of the theorem or a locale, with an instance. FastAPI contributes the order in
  which dependencies, body validation and handler run, and that a request's session is closed
  after its response was sent (as it does since 0.118; the lock file pins 0.139).

  \<^bold>\<open>Bounds and fuel.\<close> A stream of an SDK is a finite script. \<open>drive\<close> and \<open>sse_frames\<close> pull a
  generator at most \<open>n\<close> times and return \<open>None\<close> when that was not enough; the theorems that speak
  of the end of a stream say which \<open>n\<close> suffices. \<open>reserve_loop\<close> has the three attempts of the
  code. Everything else is structural recursion.

  \<^bold>\<open>Idealisations.\<close> Floats and decimals are exact rationals (columns round, in \<open>Schema\<close>; the
  ledger keeps exact amounts). Characters are code points up to 255. Exception texts stay lists of
  pieces, so that the rendering of floats and dates is symbolic; a value in Redis is the dict its
  JSON text encodes. An upstream call
  is one \<open>create\<close> call of an SDK: HTTP retries the SDK makes within it (the adapters set a timeout
  and leave the SDK's retry setting alone) are behind the parameter. A request
  sees the tables as they were when it began, whatever others commit while it awaits; in a run the
  requests follow one another as far as the tables are concerned.

  \<^bold>\<open>Not modelled.\<close> What happens behind third-party constructors (connection pools, TLS, span
  export), the logging section of \<open>alembic.ini\<close>, shutdown (closing the Redis client, flushing
  spans), and \<open>startup\<close> and \<open>shutdown\<close> of \<open>session.py\<close>, which nothing calls: I/O without logic of
  the program. Tests, container and Terraform files are not part of the program.
\<close>

subsection \<open>Properties of the whole system\<close>

text \<open>
  C1. Exactly once, end to end. In a process that came up, under the default failover policy, when
  a completion request with a fresh idempotency key is answered with 200 and its session commits,
  then whatever the providers did, however breakers and limiter moved and whatever other clients did
  to Redis meanwhile, the request was executed by exactly one call of an SDK and exactly one usage
  record, which bills that response to the caller, was committed; and as long as the key's record
  is kept, every further request of the caller with that key and body that the limiter lets
  through is answered with the same response, executes nothing and commits no usage.
\<close>

theorem keyed_completion_exactly_once:
  assumes "started d" and "cp_failover_policy payload = AT_MOST_ONCE" and "\<not> cp_stream payload"
    and "0 < idempotency_inflight_ttl_s (dp_config d)" and "\<forall>u. h_commit_error (dp_host d) u = None"
    and "authenticate d auth w = Inr k"
    and "stored_value w (ak_id k) key = None" and "ss_usage (system_session w) = []"
    and "serve_chat d auth (Some key) payload w = (Ok (Json c), w1)"
  shows "executions (rw_app w1) = executions (rw_app w) + 1 \<and>
    (\<exists>rec r. c = chat_from_domain r \<and> bills (ak_id k) r rec \<and>
      usage_stored (ss_db (system_session w1)) = usage_stored (ss_db (system_session w)) @ [rec]) \<and>
    (\<forall>w2 k2 w2'. stored_value w2 (ak_id k) key = stored_value w1 (ak_id k) key \<and> rw_up w2 \<and>
        ss_usage (system_session w2) = [] \<and> authenticate d auth w2 = Inr k2 \<and> ak_id k2 = ak_id k \<and>
        throttle d k2 w2 = (Inr (), w2') \<longrightarrow>
      (\<exists>w3. serve_chat d auth (Some key) payload w2 = (Ok (Json c), w3) \<and>
        executions (rw_app w3) = executions (rw_app w2) \<and>
        usage_stored (ss_db (system_session w3)) = usage_stored (ss_db (system_session w2))))"
proof -
  obtain w0 r u w1' where lim: "throttle d k w = (Inr (), w0)" and valid: "chat_payload_valid payload"
    and c: "c = chat_from_domain r" and w1: "w1 = commit_session d w1'"
    and run: "idem_execute (get_idempotency_service d) (fp_digest d) key (ak_id k) (chat_to_domain payload)
        (complete_call d payload k) w0 = (Inr r, w1')"
    and gw: "gateway_call d payload k u = (Inr r, rw_app w1')" and u: "u = rw_app w0"
    by (rule keyed_completion_run [OF assms(1,3,6,7,9)])
  note apart = throttleD [OF assms(1) lim]
  have "executions (rw_app w1') = executions u + 1" by (rule gateway_call_once [OF assms(1,2) gw])
  then have once: "executions (rw_app w1) = executions (rw_app w) + 1" by (simp add: w1 u apart)
  obtain rec where rec: "session_stored (fst (outer (rw_app w1'))) = session_stored (fst (outer u)) @ [rec]"
    and bill: "bills (ak_id k) r rec"
    using gateway_call_bills [OF assms(1) gw] by blast
  have billed: "usage_stored (ss_db (system_session w1)) = usage_stored (ss_db (system_session w)) @ [rec]"
    using rec apart(1) assms(5,8) by (simp add: w1 commit_session_ok) (simp add: system_session_def u session_stored_clean)
  have again: "\<exists>w3. serve_chat d auth (Some key) payload w2 = (Ok (Json c), w3) \<and>
        executions (rw_app w3) = executions (rw_app w2) \<and>
        usage_stored (ss_db (system_session w3)) = usage_stored (ss_db (system_session w2))"
    if st: "stored_value w2 (ak_id k) key = stored_value w1 (ak_id k) key" and up: "rw_up w2"
      and clean: "ss_usage (system_session w2) = []" and auth: "authenticate d auth w2 = Inr k2"
      and id: "ak_id k2 = ak_id k" and lim2: "throttle d k2 w2 = (Inr (), w2')" for w2 k2 w2'
  proof -
    note apart2 = throttleD [OF assms(1) lim2]
    have "stored_value w2' (ak_id k) key = stored_value w1' (ak_id k) key" "rw_up w2'"
      using apart2 st up by (simp_all add: w1)
    from execute_again [OF run [unfolded get_idempotency_service_def] this assms(4), of "chat_to_domain payload" "complete_call d payload k2" undefined]
    have "idem_execute (get_idempotency_service d) (fp_digest d) key (ak_id k) (chat_to_domain payload) (complete_call d payload k2) w2' = (Inr r, w2')"
      unfolding get_idempotency_service_def by auto
    then have "serve_chat d auth (Some key) payload w2 = (Ok (Json c), commit_session d w2')"
      unfolding serve_chat_keyed [OF auth lim2 valid assms(3)] by (simp add: id c)
    then show ?thesis using apart2 clean assms(5) by (simp add: commit_session_ok session_stored_clean)
  qed
  show ?thesis using once billed bill c again by blast
qed



text \<open>
  C3. One request, at most one bill. Whatever arrives at whichever endpoint, with or without
  a key, under either failover policy, answered, streamed to the end or left by its client, and
  whether the commit succeeds: nothing stored is changed or removed; at most one usage record is added,
  it is well formed, belongs to the api key the request was authenticated with, and a provider
  executed a call for it; and only the admin token changes the keys.
\<close>

theorem request_bills_at_most_once:
  assumes "started d" and "ss_usage (system_session w) = []" and "request_step py d rq w w'"
  shows "ss_usage (system_session w') = [] \<and> executions (rw_app w) \<le> executions (rw_app w') \<and>
    (usage_stored (ss_db (system_session w')) = usage_stored (ss_db (system_session w)) \<or>
     (\<exists>k r. authenticate d (hq_authorization rq) w = Inr k \<and> usage_record_wf r \<and> ur_api_key_id r = ak_id k \<and>
        usage_stored (ss_db (system_session w')) = usage_stored (ss_db (system_session w)) @ [r] \<and>
        executions (rw_app w) < executions (rw_app w'))) \<and>
    (db_api_keys (ss_db (system_session w')) = db_api_keys (ss_db (system_session w)) \<or>
     get_current_admin (dp_config d) (hq_authorization rq) = Inr ())"
  using request_step_effect [OF assms] unfolding request_effect_def
proof (elim disjE exE conjE)
  fix k
  assume k: "authenticate d (hq_authorization rq) w = Inr k" and "recorded (ak_id k) w w'"
  then obtain r where r: "usage_record_wf r" "ur_api_key_id r = ak_id k" "ss_usage (system_session w') = []"
      "executions (rw_app w) < executions (rw_app w')"
    and save: "usage_save r (ss_db (system_session w)) = (Inr (), ss_db (system_session w'))"
    by (auto simp: recorded_def)
  have "db_api_keys (ss_db (system_session w')) = db_api_keys (ss_db (system_session w))"
    using save by (auto simp: usage_save_def split: if_splits dest!: sym [of _ "ss_db (system_session w')"])
  with r k ledger.save_ok [OF save] show ?thesis by auto
qed (use assms(2) in \<open>auto simp: ledger_kept_def administered_def usage_stored_def\<close>)

text \<open>
  C4. The system refines the ledger. Every run of a process that came up, of any requests in any order and
  anything else in between, is a run of the abstract ledger \<open>db_step\<close>: the tables stay well
  formed (unique keys, every row of an existing key, with values a usage record may have), the
  rows of the ledger only grow at the end, and there are never more new rows than provider
  calls that were executed.
\<close>

theorem system_refines_ledger:
  assumes "started d" and "ss_usage (system_session w) = []" and "db_wf (ss_db (system_session w))"
    and "system_run py d w w'"
  shows "db_step\<^sup>*\<^sup>* (ss_db (system_session w)) (ss_db (system_session w')) \<and> ss_usage (system_session w') = [] \<and>
    db_wf (ss_db (system_session w')) \<and>
    (\<exists>rows. db_usage (ss_db (system_session w')) = db_usage (ss_db (system_session w)) @ rows \<and>
      length rows \<le> executions (rw_app w') - executions (rw_app w))"
  using system_run_ledger [OF assms(4,1,2)] db_steps_wf [OF _ assms(3)] unfolding ledger_grown_def by fastforce

text \<open>
  C16. Revocation is final. Once a key is revoked, then after any run whatsoever a request that carries its
  token, to any endpoint that asks for a key, is turned away and leaves the state as it is.
\<close>

theorem revocation_is_final:
  assumes "started d" and "ss_usage (system_session w) = []" and "keys_wf (ss_db (system_session w))"
    and "k \<in> set (db_api_keys (ss_db (system_session w)))" and "\<not> ak_is_active k"
    and "bearer_token (hq_authorization rq) = Some t" and "h_hash_api_key (dp_host d) t = ak_key_hash k"
    and "system_run py d w w'"
    and "route_of (hq_method rq) (hq_path rq) = Some (ep, params)"
    and "ep \<in> {Create_completion, Get_usage_summary, List_usage_records, Get_usage_by_model}"
  shows "authenticate d (hq_authorization rq) w' = Inl Unauthorized \<and>
    (\<exists>resp. handle_request py sr d rq w' = (resp, w') \<and> turned_away py (dp_config d) rq ep resp)"
proof -
  note run = system_run_ledger [OF assms(8,1,2)]
  have "revoked_hash (ak_key_hash k) (ss_db (system_session w))" using assms(3-5) by (auto simp: revoked_hash_def)
  with run have "revoked_hash (h_hash_api_key (dp_host d) t) (ss_db (system_session w'))"
    unfolding assms(7) by (auto intro: revoked_hash_steps)
  from revoked_not_authenticated [OF this assms(6)] have out: "authenticate d (hq_authorization rq) w' = Inl Unauthorized" .
  then have "\<not> granted d ep (hq_authorization rq) w'" using assms(10) by (auto simp: granted_def)
  from not_granted [OF this, of py sr params] run assms(9) out show ?thesis by (simp add: handle_request_def)
qed

text \<open>
  C18. What a settled key answers, over HTTP. While a key's record is kept and Redis is up, a request
  of the same caller and body that the limiter lets through executes nothing and commits no usage: a
  completed key is answered with the stored response, as JSON or as a stream of its text and the
  final frame; an ambiguous one with a 409 that tells it so; one still in progress with a 409; and a
  key that was used for another body with a 422.
\<close>

theorem settled_key_answers:
  fixes d :: "'z deployment"
  assumes "started d" and "0 < idempotency_inflight_ttl_s (dp_config d)"
    and "authenticate d auth w = Inr k" and "throttle d k w = (Inr (), w0)" and "chat_payload_valid payload"
    and "stored_value w (ak_id k) key = Some v" and "rw_up w" and "ss_usage (system_session w) = []"
    and "fp = fingerprint (fp_digest d) (chat_to_domain payload)"
  shows "\<exists>answer w'. serve_chat d auth (Some key) payload w = (answer, w') \<and>
    executions (rw_app w') = executions (rw_app w) \<and>
    usage_stored (ss_db (system_session w')) = usage_stored (ss_db (system_session w)) \<and>
    (\<forall>r. v = completed_value fp (serialize r) \<and> \<not> cp_stream payload \<longrightarrow> answer = Ok (Json (chat_from_domain r))) \<and>
    (\<forall>r. v = completed_value fp (serialize r) \<and> cp_stream payload \<longrightarrow>
      (\<exists>ev. answer = Ok (EventStream ev) \<and>
        (\<forall>n \<ge> 4. \<exists>w2. serve_events d payload k n ev w' =
          ((replay_frames r, Some None), w2) \<and>
          executions (rw_app w2) = executions (rw_app w) \<and>
          usage_stored (ss_db (system_session w2)) = usage_stored (ss_db (system_session w))))) \<and>
    (\<forall>t. v = ambiguous_value fp t \<longrightarrow> answer = Failed (IdempotencyOutcomeUnknown (Some t))) \<and>
    (v = in_progress_value fp \<longrightarrow> answer = Failed IdempotencyInProgress) \<and>
    (iv_fingerprint v \<noteq> fp \<longrightarrow> answer = Failed IdempotencyKeyConflict)"
proof -
  note apart = throttleD [OF assms(1,4)]
  let ?answer = "\<lambda>replay. claimed_outcome fp replay (outcome_existing v)"
  have st: "stored_value w0 (ak_id k) key = Some v" "rw_up w0" using apart assms(6,7) by simp_all
  obtain oc w1 where "ip_reserve (get_idempotency_service d) (ak_id k) key fp w0 = (Inr oc, w1)"
    unfolding get_idempotency_service_def using reserve_with_record [OF st assms(2)] by blast
  note claimed = redis_idem.execute_claimed [OF st(1) this [unfolded get_idempotency_service_def assms(9)], folded get_idempotency_service_def assms(9)]
  have session: "executions (rw_app w0) = executions (rw_app w)"
    "usage_stored (ss_db (system_session (commit_session d w0))) = usage_stored (ss_db (system_session w))"
    "usage_stored (ss_db (system_session w0)) = usage_stored (ss_db (system_session w))"
    "executions (rw_app (on_session session_rollback w0)) = executions (rw_app w)"
    "usage_stored (ss_db (system_session (on_session session_rollback w0))) = usage_stored (ss_db (system_session w))"
    using apart assms(8) by (simp_all add: get_session_def session_stored_clean split: option.splits)
  have frames: "\<exists>w2. serve_events d payload k n (Keyed key (IG_Replay (serialize r))) w0 =
      ((replay_frames r, Some None), w2) \<and>
      executions (rw_app w2) = executions (rw_app w) \<and>
      usage_stored (ss_db (system_session w2)) = usage_stored (ss_db (system_session w))" if "4 \<le> n" for n r
    using served_replay [OF deserialize_serialize that, where d = d and payload = payload and k = k and key = key and w = w0] session by simp
  show ?thesis
  proof (cases "cp_stream payload")
    case True
    let ?p = "case ?answer (\<lambda>b. Inr (IG_Replay b)) of Inl e \<Rightarrow> (Failed e, on_session session_rollback w0)
         | Inr (g :: 'z gateway_gen idem_gen) \<Rightarrow> (Ok (EventStream (Keyed key g)), w0)"
    obtain answer w' where p: "?p = (answer, w')" by fastforce
    have run: "serve_chat d auth (Some key) payload w = (answer, w')"
      unfolding p [symmetric] by (simp add: serve_chat_stream [OF assms(3-5) True] claimed(2) split: sum.splits)
    show ?thesis
      by (intro exI [of _ answer] exI [of _ w'] conjI run)
        (use p session frames True in \<open>auto simp: claimed_answers split: sum.splits\<close>)
  next
    case False
    let ?p = "case ?answer deserialize of
           Inl e \<Rightarrow> (Failed e :: 'z gateway_gen completion reply, on_session session_rollback w0)
         | Inr r \<Rightarrow> (Ok (Json (chat_from_domain r)), commit_session d w0)"
    obtain answer w' where p: "?p = (answer, w')" by fastforce
    have run: "serve_chat d auth (Some key) payload w = (answer, w')"
      unfolding p [symmetric] by (simp add: serve_chat_keyed [OF assms(3-5) False] claimed(1) split: sum.splits)
    show ?thesis
      by (intro exI [of _ answer] exI [of _ w'] conjI run)
        (use p session False in \<open>auto simp: claimed_answers deserialize_serialize split: sum.splits\<close>)
  qed
qed

text \<open>
  C38. A commit that fails is never noticed by the caller. The session is committed after the response
  was sent; when that fails, the caller has its 200, the request was executed, the key replays the
  response, and no usage record exists: neither this request nor its replays are ever billed.
\<close>

theorem commit_failure_loses_billing:
  assumes "started d" and "cp_failover_policy payload = AT_MOST_ONCE" and "\<not> cp_stream payload"
    and "h_commit_error (dp_host d) = (\<lambda>_. Some e)"
    and "authenticate d auth w = Inr k" and "stored_value w (ak_id k) key = None"
    and "serve_chat d auth (Some key) payload w = (Ok (Json c), w1)"
  shows "executions (rw_app w1) = executions (rw_app w) + 1 \<and>
    usage_stored (ss_db (system_session w1)) = usage_stored (ss_db (system_session w)) \<and>
    (\<exists>v r. stored_value w1 (ak_id k) key = Some v \<and> c = chat_from_domain r \<and>
      replayable v (fingerprint (fp_digest d) (chat_to_domain payload)) r)"
proof -
  obtain w0 r u w1' where lim: "throttle d k w = (Inr (), w0)"
    and c: "c = chat_from_domain r" and w1: "w1 = commit_session d w1'"
    and run: "idem_execute (get_idempotency_service d) (fp_digest d) key (ak_id k) (chat_to_domain payload)
        (complete_call d payload k) w0 = (Inr r, w1')"
    and gw: "gateway_call d payload k u = (Inr r, rw_app w1')" and u: "u = rw_app w0"
    by (rule keyed_completion_run [OF assms(1,3,5,6,7)])
  note apart = throttleD [OF assms(1) lim]
  have "executions (rw_app w1) = executions (rw_app w) + 1"
    using gateway_call_once [OF assms(1,2) gw] by (simp add: w1 u apart)
  moreover have "usage_stored (ss_db (system_session w1)) = usage_stored (ss_db (system_session w))"
    using gateway_call_keeps_db [OF assms(1) gw] apart(1)
    by (simp add: w1 commit_session_failed [of d _ e] assms(4)) (simp add: system_session_def u)
  moreover have "\<exists>v. stored_value w1 (ak_id k) key = Some v \<and> replayable v (fingerprint (fp_digest d) (chat_to_domain payload)) r"
    using redis_idem.execute_response_stored [OF run [unfolded get_idempotency_service_def]] by (simp add: w1)
  ultimately show ?thesis using c by blast
qed

text \<open>
  C36. What a Redis outage at the wrong moment costs. When Redis becomes unreachable while the
  provider is serving a keyed request, the response that was obtained cannot be recorded under the
  key: the caller gets a 503 that tells it to retry, although the request was executed upstream,
  and the usage record written for it is rolled back with the request's session.
\<close>

theorem store_outage_loses_billing:
  assumes "started d" and "cp_failover_policy payload = AT_MOST_ONCE"
    and "chat_payload_valid payload" and "\<not> cp_stream payload"
    and "0 < idempotency_inflight_ttl_s (dp_config d)"
    and "authenticate d auth w = Inr k" and "throttle d k w = (Inr (), w0)"
    and "stored_value w (ak_id k) key = None" and "rw_up w"
    and "\<forall>u. \<not> rw_up (meanwhile (dp_host d) u)"
    and "gateway_call d payload k (rw_app w0) = (Inr r, a)"
  shows "\<exists>w'. serve_chat d auth (Some key) payload w = (Failed IdempotencyStoreUnavailable, w') \<and>
    error_response_for IdempotencyStoreUnavailable \<noteq> None \<and>
    er_status (the (error_response_for IdempotencyStoreUnavailable)) = 503 \<and>
    executions (rw_app w') = executions (rw_app w) + 1 \<and>
    usage_stored (ss_db (system_session w')) = usage_stored (ss_db (system_session w))"
proof -
  note apart = throttleD [OF assms(1,7)]
  have "stored_value w0 (ak_id k) key = None" "rw_up w0" using apart assms(8,9) by simp_all
  from keyed_runs [OF this assms(5)] obtain w1 where w1: "rw_app w1 = rw_app w0"
    and run: "idem_execute (get_idempotency_service d) (fp_digest d) key (ak_id k) (chat_to_domain payload)
        (complete_call d payload k) w0 = settle_call (get_idempotency_service d) key (ak_id k)
          (fingerprint (fp_digest d) (chat_to_domain payload)) (complete_call d payload k w1)"
    by blast
  define w2 where "w2 = meanwhile (dp_host d) (w1\<lparr>rw_app := a\<rparr>)"
  have call: "complete_call d payload k w1 = (Inr r, w2)"
    using assms(11) by (simp add: complete_call_def in_process_def w1 w2_def)
  have w2: "rw_app w2 = a" "\<not> rw_up w2" using assms(10) by (simp_all add: w2_def)
  have "idem_execute (get_idempotency_service d) (fp_digest d) key (ak_id k) (chat_to_domain payload)
      (complete_call d payload k) w0 = (Inl IdempotencyStoreUnavailable, w2)"
    using w2(2) unfolding run call by (simp add: get_idempotency_service_def settle_call_server server_set_def)
  then have "serve_chat d auth (Some key) payload w = (Failed IdempotencyStoreUnavailable, on_session session_rollback w2)"
    by (simp add: serve_chat_keyed [OF assms(6,7,3,4)])
  moreover have "executions a = executions (rw_app w) + 1"
    using gateway_call_once [OF assms(1,2,11)] apart(2) by simp
  moreover have "ss_db (fst (outer a)) = ss_db (system_session w)"
    using gateway_call_keeps_db [OF assms(1,11)] apart(1) by (simp add: system_session_def)
  ultimately show ?thesis
    by (simp add: w2 system_session_def [of w2] error_response_for_def is_AppError_def handle_app_error_def to_dict_def)
qed



text \<open>
  C5. Nothing happens without credentials. Whatever is sent to whichever route, a request that lacks
  the credentials of its endpoint (an active api key, or the admin token for the management of
  keys) leaves the whole state as it is, tables, limiter, breakers, claims and execution counter
  alike, and is answered with 401, with 422 when its body is not JSON at all, or, on an admin
  route with a token outside ASCII, with 500. And only a completion, a creation or a
  revocation that has them changes anything.
\<close>

theorem credentials_required:
  fixes d :: "'z deployment"
  assumes "route_of (hq_method rq) (hq_path rq) = Some (ep, params)" and "ss_usage (system_session w) = []"
    and "handle_request py sr d rq w = (resp, w')"
  shows "(\<not> granted d ep (hq_authorization rq) w \<longrightarrow> w' = w \<and> turned_away py (dp_config d) rq ep resp \<and>
      status_of resp \<in> {Some 401, Some 422, Some 500}) \<and>
    (w' \<noteq> w \<longrightarrow> granted d ep (hq_authorization rq) w \<and> ep \<in> {Create_completion, Create_api_key, Revoke_api_key})"
proof -
  have run: "handle_endpoint py sr d rq ep params w = (resp, w')" using assms(1,3) by (simp add: handle_request_def)
  have "status_of r \<in> {Some 401, Some 422, Some 500}" if "turned_away py (dp_config d) rq ep r" for r :: "'z gateway_gen response"
    using that by (auto simp: turned_away_def unauthorized_status handle_unexpected_error_def)
  then have "\<not> granted d ep (hq_authorization rq) w \<longrightarrow> w' = w \<and> turned_away py (dp_config d) rq ep resp \<and>
      status_of resp \<in> {Some 401, Some 422, Some 500}"
    using not_granted [OF _ assms(2), of d ep rq py sr params] run by auto
  moreover have "w' = w" if "ep \<notin> {Create_completion, Create_api_key, Revoke_api_key}"
    using readers_keep [OF assms(2) that, of py sr d rq params] run by simp
  ultimately show ?thesis by blast
qed

text \<open>
  C19. Tenants are isolated. What a caller is told about usage, in total, by record or by model, depends
  only on the api keys and on the rows of the caller's own key: in two states that agree on
  these, every usage request gets the same answer, whatever else the tables, the process or
  Redis hold.
\<close>

theorem usage_isolated:
  assumes "route_of (hq_method rq) (hq_path rq) = Some (ep, params)"
    and "ep \<in> {Get_usage_summary, List_usage_records, Get_usage_by_model}"
    and "authenticate d (hq_authorization rq) w = Inr k"
    and "db_api_keys (ss_db (system_session v)) = db_api_keys (ss_db (system_session w))"
    and "filter (\<lambda>r. uw_api_key_id r = ak_id k) (db_usage (ss_db (system_session v))) =
      filter (\<lambda>r. uw_api_key_id r = ak_id k) (db_usage (ss_db (system_session w)))"
  shows "fst (handle_request py sr d rq v) = fst (handle_request py sr d rq w)"
proof -
  let ?dw = "ss_db (system_session w)" and ?dv = "ss_db (system_session v)"
  have id: "get_current_api_key_id (h_hash_api_key (dp_host d)) (hq_authorization rq) ?dw = Inr (ak_id k)"
    "get_current_api_key_id (h_hash_api_key (dp_host d)) (hq_authorization rq) ?dv = Inr (ak_id k)"
    using assms(3,4) by (auto simp: authenticate_def get_current_api_key_id_def get_current_api_key_def split: option.splits)
  have rows: "caller_rows ?dv (ak_id k) since until = caller_rows ?dw (ak_id k) since until" for since until
    by (simp add: caller_rows_def assms(5))
  note same = id usage_handler_def refused_usage_def get_usage_summary_def list_usage_records_def get_usage_by_model_def
    records_handler_def usage_summary_of_def usage_records_of_def usage_models_of_def summary_by_api_key_def
    list_by_api_key_def usage_by_model_of_def rows
  have "usage_handler py d rq (get_usage_summary (h_hash_api_key (dp_host d)) (hq_authorization rq)) ?dv =
      usage_handler py d rq (get_usage_summary (h_hash_api_key (dp_host d)) (hq_authorization rq)) ?dw"
    "usage_handler py d rq (records_handler py sr d rq) ?dv = usage_handler py d rq (records_handler py sr d rq) ?dw"
    "usage_handler py d rq (get_usage_by_model (sr_order_groups sr) (h_hash_api_key (dp_host d)) (hq_authorization rq)) ?dv =
      usage_handler py d rq (get_usage_by_model (sr_order_groups sr) (h_hash_api_key (dp_host d)) (hq_authorization rq)) ?dw"
    by (simp_all add: same split: option.splits)
  with assms(1,2) show ?thesis
    by (auto simp: handle_request_def handle_endpoint_def read_only_def get_session_db Let_def)
qed

subsection \<open>Instances\<close>

lemma tick_up: "\<forall>u. rw_up (meanwhile (sample_host tick ce) u) = rw_up u"
  by (simp add: meanwhile_def tick_def)

lemma sample_policy [simp]:
  "cp_failover_policy (sample_payload\<lparr>cp_stream := True\<rparr>) = AT_MOST_ONCE" "cp_stream (sample_payload\<lparr>cp_stream := True\<rparr>)"
  by (simp_all add: sample_payload_def)

lemma sample_ready_Suc: "sample_ready (Suc 59) (sample_system sample_prices)" "sample_ready (Suc 59) (sample_system [])"
  using sample_ready_start [OF sample_rows_simps(2)] sample_ready_start [OF sample_rows_simps(1)] by simp_all

lemmas sample_up = sample_app(1) [OF sample_rows_simps(2)]
lemmas sample_begin = sample_start [OF sample_rows_simps(2)]

theorem keyed_completion_exactly_once_witness:
  "\<exists>c w1 rec w3. serve_chat (sample_deployment sample_prices tick no_error) sample_auth (Some ''k1'') sample_payload
       (sample_system sample_prices) = (Ok (Json c), w1) \<and> executions (rw_app w1) = 1 \<and>
     usage_stored (ss_db (system_session w1)) = [rec] \<and> ur_api_key_id rec = 7 \<and>
     serve_chat (sample_deployment sample_prices tick no_error) sample_auth (Some ''k1'') sample_payload
       ((sample_system sample_prices)\<lparr>rw_kv := rw_kv w1, rw_now := rw_now w1\<rparr>) = (Ok (Json c), w3) \<and> executions (rw_app w3) = 0"
proof -
  let ?d = "sample_deployment sample_prices tick no_error" and ?w = "sample_system sample_prices"
  have auth: "authenticate ?d sample_auth ?w = Inr sample_key"
    by (rule sample_authenticated [OF sample_begin(1)])
  obtain c w1 where served: "serve_chat ?d sample_auth (Some ''k1'') sample_payload ?w = (Ok (Json c), w1)"
    by (rule sample_served [OF sample_ready_Suc(1) tick_up])
  let ?w2 = "?w\<lparr>rw_kv := rw_kv w1, rw_now := rw_now w1\<rparr>"
  note ex = keyed_completion_exactly_once [OF sample_up sample_payload_ok(4,2) _ _ auth sample_begin(5,4) served]
  have w2: "system_session ?w2 = system_session ?w" "has_tokens (Suc 59) ?w2"
    using sample_begin(2) has_tokens_rest [of ?w2 ?w] by (simp_all add: system_session_def process_of_def)
  have "authenticate ?d sample_auth ?w2 = Inr sample_key"
    by (rule sample_authenticated) (simp add: w2(1) sample_begin(1))
  moreover obtain w2' where "throttle ?d sample_key ?w2 = (Inr (), w2')"
    by (rule sample_throttled [OF sample_rows_simps(2) w2(2)])
  moreover have "stored_value ?w2 (ak_id sample_key) ''k1'' = stored_value w1 (ak_id sample_key) ''k1''"
    by (simp add: stored_value_def live_def split: option.split)
  ultimately obtain w3 where "serve_chat ?d sample_auth (Some ''k1'') sample_payload ?w2 = (Ok (Json c), w3)"
    "executions (rw_app w3) = executions (rw_app ?w2)"
    using ex w2(1) sample_begin(4) by (auto simp: no_error_def)
  moreover from ex obtain rec r where "bills 7 r rec" "usage_stored (ss_db (system_session w1)) = [rec]"
    using sample_begin(7) by (auto simp: no_error_def)
  moreover have "executions (rw_app w1) = 1" using ex sample_begin(6) by (simp add: no_error_def)
  ultimately show ?thesis using served sample_begin(6) by (auto simp: bills_def)
qed



theorem settled_key_answers_witness:
  "\<exists>ev w' w2.
     serve_chat (sample_deployment sample_prices idle no_error) sample_auth (Some ''k1'') (sample_payload\<lparr>cp_stream := True\<rparr>)
       ((sample_system sample_prices)\<lparr>rw_kv := [idem_key 7 ''k1'' \<mapsto>
          (completed_value (fingerprint fp_model (chat_to_domain (sample_payload\<lparr>cp_stream := True\<rparr>))) (serialize sample_answer), 100)]\<rparr>) =
       (Ok (EventStream ev), w') \<and>
     serve_events (sample_deployment sample_prices idle no_error) (sample_payload\<lparr>cp_stream := True\<rparr>) sample_key 4 ev w' =
       ((replay_frames sample_answer, Some None), w2) \<and> executions (rw_app w2) = 0 \<and>
     usage_stored (ss_db (system_session w2)) = []"
proof -
  let ?d = "sample_deployment sample_prices idle no_error" and ?p = "sample_payload\<lparr>cp_stream := True\<rparr>"
  let ?v = "completed_value (fingerprint fp_model (chat_to_domain ?p)) (serialize sample_answer)"
  let ?w = "(sample_system sample_prices)\<lparr>rw_kv := [idem_key 7 ''k1'' \<mapsto> (?v, 100)]\<rparr>"
  have w: "system_session ?w = system_session (sample_system sample_prices)" "has_tokens (Suc 59) ?w"
    using sample_begin(2) has_tokens_rest [of ?w "sample_system sample_prices"] by (simp_all add: system_session_def process_of_def)
  have auth: "authenticate ?d sample_auth ?w = Inr sample_key"
    by (rule sample_authenticated) (simp add: w(1) sample_begin(1))
  obtain w0 where lim: "throttle ?d sample_key ?w = (Inr (), w0)"
    by (rule sample_throttled [OF sample_rows_simps(2) w(2)])
  have st: "stored_value ?w (ak_id sample_key) ''k1'' = Some ?v" by (simp add: stored_value_def live_def sample_system_def)
  have ttl: "0 < idempotency_inflight_ttl_s (dp_config ?d)" by simp
  have up: "rw_up ?w" by simp
  have clean: "ss_usage (system_session ?w) = []" by (simp add: w(1) sample_begin(4))
  have fp: "fingerprint fp_model (chat_to_domain ?p) = fingerprint (fp_digest ?d) (chat_to_domain ?p)" by simp
  from settled_key_answers [OF sample_up ttl auth lim sample_payload_ok(3) st up clean fp]
  obtain answer w' where run: "serve_chat ?d sample_auth (Some ''k1'') ?p ?w = (answer, w')"
    and live: "?v = ?v \<and> cp_stream ?p \<longrightarrow> (\<exists>ev. answer = Ok (EventStream ev) \<and>
        (\<forall>n \<ge> 4. \<exists>w2. serve_events ?d ?p sample_key n ev w' = ((replay_frames sample_answer, Some None), w2) \<and>
          executions (rw_app w2) = executions (rw_app ?w) \<and>
          usage_stored (ss_db (system_session w2)) = usage_stored (ss_db (system_session ?w))))"
    by (elim exE conjE) (rule that, assumption, erule allE, assumption)
  from live sample_policy(2) obtain ev where answer: "answer = Ok (EventStream ev)"
    and ev: "\<forall>n \<ge> 4. \<exists>w2. serve_events ?d ?p sample_key n ev w' = ((replay_frames sample_answer, Some None), w2) \<and>
          executions (rw_app w2) = executions (rw_app ?w) \<and>
          usage_stored (ss_db (system_session w2)) = usage_stored (ss_db (system_session ?w))"
    by blast
  from ev obtain w2 where "serve_events ?d ?p sample_key 4 ev w' = ((replay_frames sample_answer, Some None), w2)"
    "executions (rw_app w2) = executions (rw_app ?w)" "usage_stored (ss_db (system_session w2)) = usage_stored (ss_db (system_session ?w))"
    by blast
  with run answer w(1) sample_begin(6,7) show ?thesis by auto
qed

theorem commit_failure_loses_billing_witness:
  "\<exists>c w1. serve_chat (sample_deployment sample_prices tick (\<lambda>_. Some (OtherException []))) sample_auth (Some ''k1'')
       sample_payload (sample_system sample_prices) = (Ok (Json c), w1) \<and>
     executions (rw_app w1) = 1 \<and> usage_stored (ss_db (system_session w1)) = []"
proof -
  let ?d = "sample_deployment sample_prices tick (\<lambda>_. Some (OtherException []))"
  obtain c w1 where served: "serve_chat ?d sample_auth (Some ''k1'') sample_payload (sample_system sample_prices) = (Ok (Json c), w1)"
    by (rule sample_served [OF sample_ready_Suc(1) tick_up])
  from commit_failure_loses_billing [OF sample_up sample_payload_ok(4,2) _ sample_authenticated [OF sample_begin(1)]
      sample_begin(5) served] served sample_begin(6,7)
  show ?thesis by auto
qed

theorem store_outage_loses_billing_witness:
  "\<exists>w'. serve_chat (sample_deployment sample_prices outage no_error) sample_auth (Some ''k1'')
       sample_payload (sample_system sample_prices) = (Failed IdempotencyStoreUnavailable, w') \<and>
     executions (rw_app w') = 1 \<and> usage_stored (ss_db (system_session w')) = []"
proof -
  let ?d = "sample_deployment sample_prices outage no_error"
  obtain w0 where adm: "authenticate ?d sample_auth (sample_system sample_prices) = Inr sample_key"
    "throttle ?d sample_key (sample_system sample_prices) = (Inr (), w0)" "sample_ready 59 w0"
    "rw_up w0" "db_api_keys (ss_db (fst (outer (rw_app w0)))) = [sample_key]"
    by (rule sample_admitted [OF sample_rows_simps(2) sample_ready_Suc(1)])
  obtain a where call: "gateway_call ?d sample_payload sample_key (rw_app w0) = (Inr sample_answer, a)"
    using sample_call(1) [OF _ adm(5)] adm(3) by (auto simp: sample_ready_def)
  have down: "\<forall>u. \<not> rw_up (meanwhile (dp_host ?d) u)" by (simp add: meanwhile_def outage_def)
  have ttl: "0 < idempotency_inflight_ttl_s (dp_config ?d)" by simp
  from store_outage_loses_billing [OF sample_up sample_payload_ok(4,1,2) ttl adm(1,2) sample_begin(5)
      sample_deployment_simps(10) down call]
  show ?thesis unfolding sample_begin(6,7) by auto
qed



theorem credentials_required_witness:
  "\<exists>resp. handle_request sample_pydantic sample_surroundings (sample_deployment sample_prices tick no_error)
       (sample_request POST [''v1'', ''chat'', ''completions''] None) (sample_system sample_prices) =
       (resp, sample_system sample_prices) \<and> turned_away sample_pydantic sample_settings
         (sample_request POST [''v1'', ''chat'', ''completions''] None) Create_completion resp"
proof -
  let ?d = "sample_deployment sample_prices tick no_error" and ?w = "sample_system sample_prices"
  let ?rq = "sample_request POST [''v1'', ''chat'', ''completions''] None"
  obtain resp w' where run: "handle_request sample_pydantic sample_surroundings ?d ?rq ?w = (resp, w')" by fastforce
  have route: "route_of (hq_method ?rq) (hq_path ?rq) = Some (Create_completion, [])"
    by (simp add: sample_request_def sample_routes)
  have "\<not> granted ?d Create_completion (hq_authorization ?rq) ?w"
    by (simp add: granted_def sample_request_def authenticate_def get_current_api_key_def bearer_token_def)
  with credentials_required [OF route sample_begin(4) run] run show ?thesis by auto
qed

definition sample_rows_in :: "usage_record list \<Rightarrow> seconds system" where
  "sample_rows_in us = on_session (\<lambda>s. s\<lparr>ss_db := (ss_db s)\<lparr>db_usage := map usage_row_of us\<rparr>\<rparr>) (sample_system sample_prices)"

theorem usage_isolated_witness:
  "fst (handle_request sample_pydantic sample_surroundings (sample_deployment sample_prices tick no_error)
      (sample_request GET [''v1'', ''usage''] sample_auth) (sample_rows_in [sample_usage ! 0, sample_usage ! 2])) =
   fst (handle_request sample_pydantic sample_surroundings (sample_deployment sample_prices tick no_error)
      (sample_request GET [''v1'', ''usage''] sample_auth) (sample_rows_in sample_usage))"
proof (rule usage_isolated [where ep = Get_usage_summary and params = "[]" and k = sample_key])
  let ?rq = "sample_request GET [''v1'', ''usage''] sample_auth"
  show "route_of (hq_method ?rq) (hq_path ?rq) = Some (Get_usage_summary, [])"
    by (simp add: sample_request_def sample_routes)
  have "db_api_keys (ss_db (system_session (sample_rows_in sample_usage))) = [sample_key]"
    by (simp add: sample_rows_in_def sample_begin(1))
  then show "authenticate (sample_deployment sample_prices tick no_error) (hq_authorization ?rq) (sample_rows_in sample_usage) = Inr sample_key"
    using sample_authenticated by (simp add: sample_request_def)
qed (simp_all add: sample_rows_in_def sample_usage_def usage_row_of_def)

lemma sample_answered:
  obtains c w' where "handle_request sample_pydantic sample_surroundings (sample_deployment sample_prices idle no_error)
    sample_completion (sample_system sample_prices) = (Completion (Json c), w')"
    "request_step sample_pydantic (sample_deployment sample_prices idle no_error) sample_completion (sample_system sample_prices) w'"
proof -
  let ?d = "sample_deployment sample_prices idle no_error" and ?w = "sample_system sample_prices"
  have "\<forall>u. rw_up (meanwhile (sample_host idle no_error) u) = rw_up u" by (simp add: meanwhile_def idle_def)
  from sample_served [OF sample_ready_Suc(1) this] obtain c w'
    where "serve_chat ?d sample_auth (Some ''k1'') sample_payload ?w = (Ok (Json c), w')" .
  then have run: "handle_request sample_pydantic sample_surroundings ?d sample_completion ?w = (Completion (Json c), w')"
    by (simp add: handle_request_def sample_completion_def sample_request_def sample_routes handle_endpoint_def Let_def
        completion_handler_def sample_pydantic_def)
  from that [OF run request_step.answered [OF run]] show ?thesis by simp
qed

theorem request_bills_at_most_once_witness:
  "\<exists>c w'. handle_request sample_pydantic sample_surroundings (sample_deployment sample_prices idle no_error)
      sample_completion (sample_system sample_prices) = (Completion (Json c), w') \<and>
    length (usage_stored (ss_db (system_session w'))) \<le> 1 \<and>
    db_api_keys (ss_db (system_session w')) = [sample_key]"
proof -
  let ?d = "sample_deployment sample_prices idle no_error" and ?w = "sample_system sample_prices"
  obtain c w' where run: "handle_request sample_pydantic sample_surroundings ?d sample_completion ?w = (Completion (Json c), w')"
    and step: "request_step sample_pydantic ?d sample_completion ?w w'" by (rule sample_answered)
  have "get_current_admin (dp_config ?d) (hq_authorization sample_completion) \<noteq> Inr ()"
    by (simp add: sample_completion_def sample_request_def sample_auth_def get_current_admin_def bearer_token_def py_removeprefix_def
        py_strip_def py_space_def compare_digest_def py_ascii_def sample_settings_def default_settings_def)
  with request_bills_at_most_once [OF sample_up sample_begin(4) step] run sample_begin(1,7) show ?thesis by fastforce
qed

theorem system_refines_ledger_witness:
  "\<exists>c w'. handle_request sample_pydantic sample_surroundings (sample_deployment sample_prices idle no_error)
      sample_completion (sample_system sample_prices) = (Completion (Json c), w') \<and>
    db_wf (ss_db (system_session w')) \<and> length (db_usage (ss_db (system_session w'))) \<le> executions (rw_app w')"
proof -
  let ?d = "sample_deployment sample_prices idle no_error" and ?w = "sample_system sample_prices"
  obtain c w' where run: "handle_request sample_pydantic sample_surroundings ?d sample_completion ?w = (Completion (Json c), w')"
    and step: "request_step sample_pydantic ?d sample_completion ?w w'" by (rule sample_answered)
  have go: "system_run sample_pydantic ?d ?w w'" using step by (auto intro: system_step.request)
  have none: "db_usage (ss_db (system_session ?w)) = []" 
    by (simp add: system_session_def sample_app(6) [OF sample_rows_simps(2)] sample_up_def sample_world_def)
  have "db_wf (ss_db (system_session ?w))"
    by (simp add: db_wf_def keys_wf_def none sample_begin(1) sample_key_def api_key_wf_def py_strip_def py_space_def)
  from system_refines_ledger [OF sample_up sample_begin(4) this go] run none sample_begin(6) show ?thesis by auto
qed

theorem revocation_is_final_witness:
  "\<exists>resp. system_run sample_pydantic (sample_deployment sample_prices idle no_error) sample_revoked
       (sample_revoked\<lparr>rw_now := 3600\<rparr>) \<and>
     handle_request sample_pydantic sample_surroundings (sample_deployment sample_prices idle no_error) sample_completion
       (sample_revoked\<lparr>rw_now := 3600\<rparr>) = (resp, sample_revoked\<lparr>rw_now := 3600\<rparr>) \<and>
     turned_away sample_pydantic sample_settings sample_completion Create_completion resp"
proof -
  let ?d = "sample_deployment sample_prices idle no_error" and ?rq = sample_completion
  have s: "ss_usage (system_session sample_revoked) = []"
      "db_api_keys (ss_db (system_session sample_revoked)) = [sample_key\<lparr>ak_is_active := False\<rparr>]"
    by (simp_all add: sample_revoked_def sample_begin(4))
  have t: "bearer_token (hq_authorization ?rq) = Some ''rlx_abc''"
    by (simp add: sample_completion_def sample_request_def sample_auth_def bearer_token_def py_removeprefix_def py_strip_def py_space_def)
  have "ledger_kept sample_revoked (sample_revoked\<lparr>rw_now := 3600\<rparr>)" by (simp add: ledger_kept_def system_session_def)
  then have go: "system_run sample_pydantic ?d sample_revoked (sample_revoked\<lparr>rw_now := 3600\<rparr>)"
    by (auto intro: system_step.elsewhere)
  have route: "route_of (hq_method ?rq) (hq_path ?rq) = Some (Create_completion, [])"
    by (simp add: sample_completion_def sample_request_def sample_routes)
  have wf: "keys_wf (ss_db (system_session sample_revoked))" by (simp add: keys_wf_def s(2))
  have hash: "h_hash_api_key (dp_host ?d) ''rlx_abc'' = ak_key_hash (sample_key\<lparr>ak_is_active := False\<rparr>)"
    by (simp add: sample_host_def sample_key_def)
  from revocation_is_final [OF sample_up s(1) wf _ _ t hash go route, of sample_surroundings] s(2) go show ?thesis
    by auto
qed

end
